(* ===== verification/Gateway_Prelude.thy ===== *)
theory Gateway_Prelude
  imports Main "HOL-Library.Word" "HOL-Library.AList" "HOL-Library.Multiset"
begin

unbundle bit_operations_syntax

text \<open>
  Shared vocabulary of the development: Go strings are byte strings (\<^typ>\<open>string\<close>), a Go
  \<open>map[int]string\<close> is an association list whose order stands for Go's unspecified
  iteration order, and the pieces of the Go standard library the sources use on numbers
  (\<open>strconv.Itoa\<close>, \<open>strconv.Atoi\<close>, \<open>strconv.FormatUint\<close>, \<open>strconv.ParseUint\<close>,
  \<open>fmt.Sprintf\<close> with \<open>%0wd\<close>, \<open>strings.ToUpper\<close>) are functions on digit lists. The
  generic lemmas on digits, padding and maps that the component theories share are here.
\<close>

section \<open>Types and collections\<close>

type_synonym fields = "(int \<times> string) list"

named_theorems codec_simps \<open>unfolding rules for the codec's helpers\<close>

text \<open>Reading a missing key of a Go map yields the zero value, here the empty string.\<close>

definition fget :: "fields \<Rightarrow> int \<Rightarrow> string" where
  "fget fs n = (case map_of fs n of None \<Rightarrow> '''' | Some v \<Rightarrow> v)"

definition fput :: "int \<Rightarrow> string \<Rightarrow> fields \<Rightarrow> fields" where
  "fput n v fs = AList.update n v fs"

section \<open>Characters and digits\<close>

definition is_digit :: "char \<Rightarrow> bool" where
  "is_digit c \<longleftrightarrow> 48 \<le> (of_char c :: int) \<and> (of_char c :: int) \<le> 57"

definition is_upper_hex :: "char \<Rightarrow> bool" where
  "is_upper_hex c \<longleftrightarrow> is_digit c \<or> (65 \<le> (of_char c :: int) \<and> (of_char c :: int) \<le> 70)"

definition digit_char :: "int \<Rightarrow> char" where
  "digit_char d = char_of (48 + d)"

definition char_digit :: "char \<Rightarrow> int" where
  "char_digit c = of_char c - 48"

text \<open>A hex digit as \<open>strconv.FormatUint\<close> and \<open>hex.EncodeToString\<close> write it, in lower case.\<close>

definition hex_char :: "int \<Rightarrow> char" where
  "hex_char d = (if d < 10 then char_of (48 + d) else char_of (87 + d))"

text \<open>A hex digit as \<open>strconv.ParseUint\<close> and \<open>hex.DecodeString\<close> read it, in either case.\<close>

definition hex_value :: "char \<Rightarrow> int" where
  "hex_value c =
     (let k = (of_char c :: int)
      in if 48 \<le> k \<and> k \<le> 57 then k - 48
         else if 65 \<le> k \<and> k \<le> 70 then k - 55
         else if 97 \<le> k \<and> k \<le> 102 then k - 87 else 0)"

definition to_upper_char :: "char \<Rightarrow> char" where
  "to_upper_char c =
     (let k = (of_char c :: int) in if 97 \<le> k \<and> k \<le> 122 then char_of (k - 32) else c)"

definition ToUpper :: "string \<Rightarrow> string" where
  "ToUpper s = map to_upper_char s"

section \<open>Digit strings in a base\<close>

text \<open>The digits of \<open>n\<close> in base \<open>b\<close>, most significant first; 0 is the single digit 0.\<close>

function digits_in :: "int \<Rightarrow> int \<Rightarrow> int list" where
  "digits_in b n = (if n < b \<or> b < 2 then [n] else digits_in b (n div b) @ [n mod b])"
  by pat_completeness auto
termination
  by (relation "measure (nat \<circ> snd)") (auto simp: int_div_less_self)

declare digits_in.simps [simp del]

definition value_in :: "int \<Rightarrow> int list \<Rightarrow> int" where
  "value_in b ds = foldl (\<lambda>acc d. acc * b + d) 0 ds"

definition Itoa :: "int \<Rightarrow> string" where
  "Itoa n = map digit_char (digits_in 10 n)"

definition FormatUint16 :: "int \<Rightarrow> string" where
  "FormatUint16 n = map hex_char (digits_in 16 n)"

definition Atoi_digits :: "string \<Rightarrow> int" where
  "Atoi_digits s = value_in 10 (map char_digit s)"

definition ParseUint16 :: "string \<Rightarrow> int" where
  "ParseUint16 s = value_in 16 (map hex_value s)"

text \<open>The left-padding loops of the codec: prepend \<open>0\<close> while the string is too short.\<close>

function pad_left :: "nat \<Rightarrow> string \<Rightarrow> string" where
  "pad_left w s = (if length s < w then pad_left w (CHR ''0'' # s) else s)"
  by pat_completeness auto
termination
  by (relation "measure (\<lambda>(w, s). w - length s)") auto

declare pad_left.simps [simp del]

text \<open>\<open>fmt.Sprintf("%0wd", n)\<close> on a signed integer: the sign counts into the width.\<close>

definition fmt_0d :: "nat \<Rightarrow> int \<Rightarrow> string" where
  "fmt_0d w n =
     (if n < 0 then CHR ''-'' # pad_left (w - 1) (Itoa (- n)) else pad_left w (Itoa n))"

text \<open>\<open>strconv.FormatInt(n, 10)\<close> and \<open>strconv.ParseInt(s, 10, 64)\<close>: an optional sign, digits, and the range of \<open>int64\<close>.\<close>

definition FormatInt :: "int \<Rightarrow> string" where
  "FormatInt n = (if n < 0 then CHR ''-'' # Itoa (- n) else Itoa n)"

definition ParseInt :: "string \<Rightarrow> int option" where
  "ParseInt s =
     (let signed = s \<noteq> '''' \<and> (hd s = CHR ''-'' \<or> hd s = CHR ''+'');
          ds = (if signed then tl s else s)
      in if ds = '''' \<or> \<not> list_all is_digit ds then None
         else let n = (if signed \<and> hd s = CHR ''-'' then - Atoi_digits ds else Atoi_digits ds)
              in if - (2 ^ 63) \<le> n \<and> n < 2 ^ 63 then Some n else None)"

section \<open>Lemmas on characters\<close>

lemma of_char_of_small [simp]: "0 \<le> k \<Longrightarrow> k < 256 \<Longrightarrow> (of_char (char_of (k :: int)) :: int) = k"
  by simp

lemma of_char_bounds: "0 \<le> (of_char c :: int) \<and> (of_char c :: int) < 256"
  by (metis of_char_mod_256 pos_mod_bound pos_mod_sign zero_less_numeral)

lemma is_digit_digit_char [simp]: "0 \<le> d \<Longrightarrow> d < 10 \<Longrightarrow> is_digit (digit_char d)"
  by (simp add: is_digit_def digit_char_def)

lemma char_digit_digit_char [simp]: "0 \<le> d \<Longrightarrow> d < 10 \<Longrightarrow> char_digit (digit_char d) = d"
  by (simp add: char_digit_def digit_char_def)

lemma digit_char_char_digit [simp]: "digit_char (char_digit c) = c"
  by (simp add: char_digit_def digit_char_def)

lemma char_digit_less [simp]: "is_digit c \<Longrightarrow> 0 \<le> char_digit c" "is_digit c \<Longrightarrow> char_digit c < 10"
  by (auto simp: char_digit_def is_digit_def)

lemma is_digit_zero [simp]: "is_digit CHR ''0''"
  by (simp add: is_digit_def)

lemma upper_hex_char:
  assumes "0 \<le> d" "d < 16"
  shows "is_upper_hex (to_upper_char (hex_char d)) \<and> hex_value (to_upper_char (hex_char d)) = d"
proof (cases "d < 10")
  case True
  with assms show ?thesis
    by (simp add: hex_char_def to_upper_char_def is_upper_hex_def is_digit_def hex_value_def Let_def)
next
  case False
  with assms have h: "hex_char d = char_of (87 + d)" and b: "0 \<le> 87 + d" "87 + d < 256" "0 \<le> 55 + d" "55 + d < 256"
    by (auto simp: hex_char_def)
  have "to_upper_char (hex_char d) = char_of (55 + d)"
    using False assms by (simp add: h to_upper_char_def Let_def of_char_of_small [OF b(1,2)] del: of_char_of)
  with False assms show ?thesis
    by (simp add: is_upper_hex_def is_digit_def hex_value_def Let_def of_char_of_small [OF b(3,4)] del: of_char_of)
qed

lemma hex_value_less [simp]: "is_upper_hex c \<Longrightarrow> 0 \<le> hex_value c" "is_upper_hex c \<Longrightarrow> hex_value c < 16"
  by (auto simp: is_upper_hex_def is_digit_def hex_value_def Let_def)

lemma upper_hex_value [simp]:
  assumes "is_upper_hex c"
  shows "to_upper_char (hex_char (hex_value c)) = c"
proof -
  have *: "char_of (of_char c :: int) = c" by simp
  show ?thesis
  proof (cases "is_digit c")
    case True
    then show ?thesis
      using * by (auto simp: is_digit_def hex_value_def hex_char_def to_upper_char_def Let_def)
  next
    case False
    with assms have k: "65 \<le> (of_char c :: int)" "(of_char c :: int) \<le> 70"
      by (auto simp: is_upper_hex_def)
    then have v: "hex_value c = of_char c - 55" by (simp add: hex_value_def Let_def)
    with k have "hex_char (hex_value c) = char_of ((of_char c :: int) + 32)"
      by (simp add: hex_char_def add.commute)
    moreover from k have "(of_char (char_of ((of_char c :: int) + 32)) :: int) = of_char c + 32"
      by (intro of_char_of_small) auto
    ultimately show ?thesis using k * by (simp add: to_upper_char_def Let_def del: of_char_of)
  qed
qed

lemma to_upper_zero [simp]: "to_upper_char CHR ''0'' = CHR ''0''"
  by (simp add: to_upper_char_def Let_def)

section \<open>Lemmas on digit strings\<close>

lemma value_in_Nil [simp]: "value_in b [] = 0"
  by (simp add: value_in_def)

lemma value_in_snoc [simp]: "value_in b (ds @ [d]) = value_in b ds * b + d"
  by (simp add: value_in_def)

lemma value_in_append: "value_in b (xs @ ys) = value_in b xs * b ^ length ys + value_in b ys"
proof (induction ys rule: rev_induct)
  case (snoc y ys)
  have "value_in b (xs @ ys @ [y]) = value_in b (xs @ ys) * b + y"
    using value_in_snoc [of b "xs @ ys" y] by simp
  with snoc show ?case by (simp add: algebra_simps)
qed simp

lemma value_in_zeros [simp]: "value_in b (replicate k 0 @ ds) = value_in b ds"
proof -
  have "value_in b (replicate k 0) = 0" for k
    by (induction k) (simp_all add: value_in_def)
  then show ?thesis by (simp add: value_in_append)
qed

lemma value_in_digits_in: "1 < b \<Longrightarrow> value_in b (digits_in b n) = n"
proof (induction b n rule: digits_in.induct)
  case (1 b n)
  show ?case
  proof (cases "n < b")
    case True
    then show ?thesis by (simp add: digits_in.simps [of b n] value_in_def)
  next
    case False
    with "1" show ?thesis by (simp add: digits_in.simps [of b n])
  qed
qed

lemma digits_in_range: "1 < b \<Longrightarrow> 0 \<le> n \<Longrightarrow> d \<in> set (digits_in b n) \<Longrightarrow> 0 \<le> d \<and> d < b"
proof (induction b n rule: digits_in.induct)
  case (1 b n)
  show ?case
  proof (cases "n < b")
    case True
    with "1.prems" show ?thesis by (simp add: digits_in.simps [of b n])
  next
    case False
    with "1.prems" have "d \<in> set (digits_in b (n div b)) \<or> d = n mod b"
      by (auto simp: digits_in.simps [of b n])
    with "1.IH" False "1.prems" show ?thesis by (auto simp: pos_imp_zdiv_nonneg_iff)
  qed
qed

lemma digits_in_nonempty [simp]: "digits_in b n \<noteq> []"
  by (subst digits_in.simps) simp

lemma length_digits_in: "1 < b \<Longrightarrow> n < b ^ w \<Longrightarrow> 0 < w \<Longrightarrow> length (digits_in b n) \<le> w"
proof (induction b n arbitrary: w rule: digits_in.induct)
  case (1 b n)
  show ?case
  proof (cases "n < b")
    case True
    then show ?thesis using "1.prems" by (simp add: digits_in.simps [of b n])
  next
    case False
    then obtain w' where w': "w = Suc w'" "0 < w'"
      using "1.prems" by (cases w; cases "w - 1") auto
    have "n div b < b ^ w'"
    proof (rule ccontr)
      assume "\<not> n div b < b ^ w'"
      then have "b ^ w' * b \<le> n div b * b"
        using "1.prems"(1) by (intro mult_right_mono) auto
      also have "\<dots> \<le> n"
        using "1.prems"(1) by (simp add: minus_mod_eq_div_mult [symmetric])
      finally show False using "1.prems"(2) w' by (simp add: mult.commute)
    qed
    with "1.IH" [of w'] False "1.prems" w' show ?thesis
      by (simp add: digits_in.simps [of b n])
  qed
qed

text \<open>A digit list is determined by its length and its value.\<close>

lemma value_in_inject:
  assumes "length xs = length ys" "\<forall>d \<in> set xs. 0 \<le> d \<and> d < b" "\<forall>d \<in> set ys. 0 \<le> d \<and> d < b"
    and "value_in b xs = value_in b ys"
  shows "xs = ys"
  using assms
proof (induction xs arbitrary: ys rule: rev_induct)
  case (snoc x xs)
  then obtain ys' y where ys: "ys = ys' @ [y]"
    by (cases ys rule: rev_cases) auto
  from snoc.prems ys have eq: "value_in b xs * b + x = value_in b ys' * b + y" and xy: "0 \<le> x" "x < b" "0 \<le> y" "y < b"
    by auto
  from eq have "(value_in b xs * b + x) mod b = (value_in b ys' * b + y) mod b" by simp
  with xy have "x = y" by simp
  moreover from this eq xy have "value_in b xs = value_in b ys'" by simp
  ultimately show ?case using snoc ys by auto
qed simp

lemma value_in_nonneg: "0 \<le> b \<Longrightarrow> \<forall>d \<in> set ds. 0 \<le> d \<Longrightarrow> 0 \<le> value_in b ds"
  by (induction ds rule: rev_induct) auto

lemma value_in_less:
  "1 < b \<Longrightarrow> \<forall>d \<in> set ds. 0 \<le> d \<and> d < b \<Longrightarrow> value_in b ds < b ^ length ds"
proof (induction ds rule: rev_induct)
  case (snoc d ds)
  then have "value_in b ds \<le> b ^ length ds - 1" "d < b" by auto
  with snoc.prems(1) have "value_in b ds * b + d < (b ^ length ds - 1) * b + b"
    by (intro add_le_less_mono mult_right_mono) auto
  then show ?case by (simp add: algebra_simps)
qed simp

lemma pad_left_eq: "pad_left w s = replicate (w - length s) (CHR ''0'') @ s"
proof (induction w s rule: pad_left.induct)
  case (1 w s)
  show ?case
  proof (cases "length s < w")
    case True
    then have "w - length s = Suc (w - Suc (length s))" by simp
    with 1 True show ?thesis
      by (simp add: pad_left.simps [of w s] replicate_append_same)
  next
    case False
    then show ?thesis by (simp add: pad_left.simps [of w s])
  qed
qed

lemma length_pad_left [simp]: "length (pad_left w s) = max w (length s)"
  by (simp add: pad_left_eq)

lemma length_Itoa: "n < 10 ^ w \<Longrightarrow> 0 < w \<Longrightarrow> length (Itoa n) \<le> w"
  by (simp add: Itoa_def length_digits_in)

lemma digits_Itoa [simp]: "0 \<le> n \<Longrightarrow> list_all is_digit (Itoa n)"
  using digits_in_range [of 10 n] by (auto simp: Itoa_def list_all_iff)

lemma digits_pad_left [simp]: "list_all is_digit (pad_left w s) = list_all is_digit s"
  by (auto simp: pad_left_eq list_all_iff)

lemma Atoi_Itoa [simp]: "0 \<le> n \<Longrightarrow> Atoi_digits (Itoa n) = n"
proof -
  assume "0 \<le> n"
  then have "map (char_digit \<circ> digit_char) (digits_in 10 n) = digits_in 10 n"
    using digits_in_range [of 10 n] by (intro map_idI) simp
  then show ?thesis by (simp add: Atoi_digits_def Itoa_def value_in_digits_in)
qed

lemma Itoa_nonempty [simp]: "Itoa n \<noteq> []"
  by (simp add: Itoa_def)

lemma digit_not_sign: "list_all is_digit s \<Longrightarrow> s \<noteq> [] \<Longrightarrow> hd s \<noteq> CHR ''-'' \<and> hd s \<noteq> CHR ''+''"
  by (cases s) (auto simp: is_digit_def)

lemma ParseInt_FormatInt:
  assumes "- (2 ^ 63) \<le> n" "n < 2 ^ 63"
  shows "ParseInt (FormatInt n) = Some n"
  using assms digit_not_sign [of "Itoa n"] by (auto simp: ParseInt_def FormatInt_def Let_def)

lemma ParseInt_bounds: "ParseInt s = Some n \<Longrightarrow> - (2 ^ 63) \<le> n \<and> n < 2 ^ 63"
  by (auto simp: ParseInt_def Let_def split: if_splits)

lemma char_digit_zero [simp]: "char_digit CHR ''0'' = 0"
  by (simp add: char_digit_def)

lemma Atoi_pad_left [simp]: "Atoi_digits (pad_left w s) = Atoi_digits s"
  by (simp add: Atoi_digits_def pad_left_eq)

lemma Atoi_nonneg: "list_all is_digit s \<Longrightarrow> 0 \<le> Atoi_digits s"
  unfolding Atoi_digits_def by (rule value_in_nonneg) (auto simp: list_all_iff)

lemma Atoi_less: "list_all is_digit s \<Longrightarrow> Atoi_digits s < 10 ^ length s"
  using value_in_less [of 10 "map char_digit s"] by (auto simp: list_all_iff Atoi_digits_def)

text \<open>A string of exactly \<open>w\<close> digits is the zero-padded print of its value.\<close>

lemma pad_left_Itoa_Atoi:
  assumes "list_all is_digit s" "length s = w" "0 < w"
  shows "pad_left w (Itoa (Atoi_digits s)) = s"
proof -
  let ?t = "pad_left w (Itoa (Atoi_digits s))"
  have n: "0 \<le> Atoi_digits s" using assms(1) by (rule Atoi_nonneg)
  have len: "length ?t = length s"
    using length_Itoa [of "Atoi_digits s" w] Atoi_less [OF assms(1)] assms(2,3) by simp
  have t: "list_all is_digit ?t" using n by simp
  have "map char_digit ?t = map char_digit s"
  proof (rule value_in_inject [of _ _ 10])
    show "value_in 10 (map char_digit ?t) = value_in 10 (map char_digit s)"
      using Atoi_pad_left [of w "Itoa (Atoi_digits s)"] Atoi_Itoa [OF n]
      by (simp only: Atoi_digits_def)
    show "\<forall>d \<in> set (map char_digit ?t). 0 \<le> d \<and> d < 10" using t by (auto simp: list_all_iff)
    show "\<forall>d \<in> set (map char_digit s). 0 \<le> d \<and> d < 10" using assms(1) by (auto simp: list_all_iff)
  qed (use len in simp)
  then have "map (digit_char \<circ> char_digit) ?t = map (digit_char \<circ> char_digit) s"
    by (metis map_map)
  then show ?thesis by (simp add: o_def)
qed

section \<open>Lemmas on association lists as Go maps\<close>

lemma fget_fput [simp]: "fget (fput n v fs) m = (if m = n then v else fget fs m)"
  by (simp add: fget_def fput_def update_conv')

lemma map_of_fput [simp]: "map_of (fput n v fs) = (map_of fs)(n \<mapsto> v)"
  by (simp add: fput_def update_conv')

lemma distinct_fput [simp]: "distinct (map fst fs) \<Longrightarrow> distinct (map fst (fput n v fs))"
  by (simp add: fput_def distinct_update)

lemma keys_fput [simp]: "fst ` set (fput n v fs) = insert n (fst ` set fs)"
  by (metis dom_map_of_conv_image_fst fun_upd_apply map_of_fput dom_fun_upd option.discI)

lemma fput_new: "n \<notin> fst ` set fs \<Longrightarrow> fput n v fs = fs @ [(n, v)]"
  unfolding fput_def by (induction fs) auto

section \<open>Newest element\<close>

text \<open>\<open>ORDER BY f DESC LIMIT 1\<close>.\<close>

definition newest_by :: "('a \<Rightarrow> int) \<Rightarrow> 'a list \<Rightarrow> 'a option" where
  "newest_by f xs = (case rev (sort_key f xs) of [] \<Rightarrow> None | x # _ \<Rightarrow> Some x)"

lemma newest_by_Some:
  assumes "newest_by f xs = Some k"
  shows "k \<in> set xs" "\<forall>x \<in> set xs. f x \<le> f k"
proof -
  from assms obtain ys where e: "sort_key f xs = ys @ [k]"
    by (auto simp: newest_by_def split: list.splits)
  then have "set xs = set (ys @ [k])" by (metis set_sort)
  moreover have "sorted (map f (ys @ [k]))" using e by (metis sorted_sort_key)
  ultimately show "k \<in> set xs" "\<forall>x \<in> set xs. f x \<le> f k" by (auto simp: sorted_append)
qed

lemma newest_by_None: "newest_by f xs = None \<longleftrightarrow> xs = []"
proof -
  have "sort_key f xs = [] \<longleftrightarrow> xs = []" by (metis length_0_conv length_sort)
  then show ?thesis by (auto simp: newest_by_def split: list.splits)
qed

end
