(* ===== verification/Iso_Codec.thy ===== *)
theory Iso_Codec
  imports Gateway_Prelude
begin

text \<open>
  The ISO 8583 codec, \<open>src/gateway-go/internal/iso8583\<close>: the generated field table, the value
  checks, \<open>Pack\<close>, \<open>Unpack\<close> and \<open>UnpackSegmented\<close>, with every error branch as a
  \<open>CodecError\<close> value. The theorems: \<open>Unpack\<close> inverts \<open>Pack\<close>, \<open>Pack\<close> does not depend on the
  map's iteration order, an unpacked message packs back to the same bytes, and the
  segmented decoder agrees with the plain one and loses no byte.
\<close>

section \<open>Data\<close>

record FieldSpec =
  f_Number :: int
  f_Type :: string
  f_Length :: nat
  f_Prefix :: string
  f_Name :: string
  f_Sensitive :: string

record CodecError =
  ce_Code :: string
  ce_DE :: int
  ce_Detail :: string

abbreviation fspec :: "int \<Rightarrow> string \<Rightarrow> nat \<Rightarrow> string \<Rightarrow> string \<Rightarrow> string \<Rightarrow> int \<times> FieldSpec" where
  "fspec n t l p nm se \<equiv> (n, \<lparr>f_Number = n, f_Type = t, f_Length = l, f_Prefix = p, f_Name = nm, f_Sensitive = se\<rparr>)"

definition FieldTable :: "(int \<times> FieldSpec) list" where
  "FieldTable =
    [fspec 1 ''b'' 8 '''' ''Secondary bitmap'' '''',
     fspec 2 ''n'' 19 ''LL'' ''PAN'' ''pan'',
     fspec 3 ''n'' 6 '''' ''Processing code'' '''',
     fspec 4 ''n'' 12 '''' ''Amount transaction'' '''',
     fspec 7 ''n'' 10 '''' ''Transmission date time'' '''',
     fspec 11 ''n'' 6 '''' ''STAN'' '''',
     fspec 12 ''n'' 6 '''' ''Time local transaction'' '''',
     fspec 13 ''n'' 4 '''' ''Date local transaction'' '''',
     fspec 14 ''n'' 4 '''' ''Expiration date'' ''expiry'',
     fspec 15 ''n'' 4 '''' ''Settlement date'' '''',
     fspec 18 ''n'' 4 '''' ''Merchant category code'' '''',
     fspec 22 ''n'' 3 '''' ''POS entry mode'' '''',
     fspec 25 ''n'' 2 '''' ''POS condition code'' '''',
     fspec 32 ''n'' 11 ''LL'' ''Acquiring institution ID'' '''',
     fspec 37 ''an'' 12 '''' ''RRN'' '''',
     fspec 38 ''an'' 6 '''' ''Authorization ID response'' '''',
     fspec 39 ''an'' 2 '''' ''Response code'' '''',
     fspec 41 ''ans'' 8 '''' ''Terminal ID'' '''',
     fspec 42 ''ans'' 15 '''' ''Merchant ID'' '''',
     fspec 43 ''ans'' 40 '''' ''Card acceptor name location'' '''',
     fspec 48 ''ans'' 999 ''LLL'' ''Additional data private'' ''key-material'',
     fspec 49 ''n'' 3 '''' ''Currency code'' '''',
     fspec 52 ''b'' 8 '''' ''PIN block'' ''pin-block'',
     fspec 53 ''n'' 16 '''' ''Security control info'' '''',
     fspec 54 ''an'' 120 ''LLL'' ''Additional amounts'' '''',
     fspec 55 ''b'' 255 ''LLL'' ''ICC data'' ''emv'',
     fspec 64 ''b'' 8 '''' ''MAC'' ''mac'',
     fspec 70 ''n'' 3 '''' ''Network management code'' '''',
     fspec 74 ''n'' 10 '''' ''Credits number'' '''',
     fspec 75 ''n'' 10 '''' ''Credits reversal number'' '''',
     fspec 76 ''n'' 10 '''' ''Debits number'' '''',
     fspec 77 ''n'' 10 '''' ''Debits reversal number'' '''',
     fspec 86 ''n'' 16 '''' ''Credits amount'' '''',
     fspec 87 ''n'' 16 '''' ''Credits reversal amount'' '''',
     fspec 88 ''n'' 16 '''' ''Debits amount'' '''',
     fspec 89 ''n'' 16 '''' ''Debits reversal amount'' '''',
     fspec 90 ''n'' 42 '''' ''Original data elements'' '''',
     fspec 97 ''an'' 17 '''' ''Net settlement amount'' '''',
     fspec 128 ''b'' 8 '''' ''MAC secondary'' ''mac'']"

definition Fields :: "int \<Rightarrow> FieldSpec option" where
  "Fields = map_of FieldTable"

section \<open>Helpers of the codec\<close>

text \<open>\<open>itoa\<close> of \<open>errors.go\<close>: the digits are written backwards into a buffer.\<close>

function itoa_loop :: "int \<Rightarrow> string \<Rightarrow> string" where
  "itoa_loop n buf = (if n > 0 then itoa_loop (n div 10) (digit_char (n mod 10) # buf) else buf)"
  by pat_completeness auto
termination
  by (relation "measure (nat \<circ> fst)") auto

declare itoa_loop.simps [simp del]

definition itoa :: "int \<Rightarrow> string" where
  "itoa n =
     (if n = 0 then ''0''
      else if n < 0 then CHR ''-'' # itoa_loop (- n) ''''
      else itoa_loop n '''')"

definition Error :: "CodecError \<Rightarrow> string" where
  "Error e =
     (if ce_DE e > 0 then ce_Code e @ '': DE '' @ itoa (ce_DE e) @ '': '' @ ce_Detail e
      else ce_Code e @ '': '' @ ce_Detail e)"

abbreviation cerr :: "string \<Rightarrow> int \<Rightarrow> string \<Rightarrow> CodecError" where
  "cerr code de detail \<equiv> \<lparr>ce_Code = code, ce_DE = de, ce_Detail = detail\<rparr>"

definition hexRe :: "string \<Rightarrow> bool" where
  "hexRe s = list_all is_upper_hex s"

definition digitsRe :: "string \<Rightarrow> bool" where
  "digitsRe s = list_all is_digit s"

definition dataLen :: "FieldSpec \<Rightarrow> string \<Rightarrow> nat" where
  "dataLen f value = (if f_Type f = ''b'' then length value div 2 else length value)"

definition checkValue :: "FieldSpec \<Rightarrow> string \<Rightarrow> CodecError option" where
  "checkValue f value =
     (if f_Type f = ''b'' \<and> (length value mod 2 \<noteq> 0 \<or> \<not> hexRe value)
      then Some (cerr ''INVALID_VALUE'' (f_Number f) ''must be uppercase hex'')
      else if f_Type f = ''n'' \<and> \<not> digitsRe value
      then Some (cerr ''INVALID_VALUE'' (f_Number f) ''must be numeric'')
      else let sz = dataLen f value in
        if f_Prefix f = '''' \<and> sz \<noteq> f_Length f
        then Some (cerr ''INVALID_LENGTH'' (f_Number f)
                     (''fixed length '' @ itoa (int (f_Length f)) @ '', got '' @ itoa (int sz)))
        else if f_Prefix f \<noteq> '''' \<and> sz > f_Length f
        then Some (cerr ''INVALID_LENGTH'' (f_Number f)
                     (''max '' @ itoa (int (f_Length f)) @ '', got '' @ itoa (int sz)))
        else None)"

text \<open>The loop over bits 63 down to 0; \<open>i\<close> counts how many positions remain.\<close>

definition bitPositions :: "64 word \<Rightarrow> int \<Rightarrow> int list" where
  "bitPositions value off =
     map (\<lambda>i. off + int i + 1) (filter (\<lambda>i. value AND push_bit (63 - i) 1 \<noteq> 0) [0..<64])"

definition bitmap_word :: "(int \<Rightarrow> bool) \<Rightarrow> nat \<Rightarrow> 64 word" where
  "bitmap_word numbers page =
     fold (\<lambda>i value. if numbers (int page * 64 + int i + 1) then value OR push_bit (63 - i) 1 else value)
       [0..<64] 0"

definition pad16 :: "string \<Rightarrow> string" where
  "pad16 s = pad_left 16 s"

definition bitmapHex :: "(int \<Rightarrow> bool) \<Rightarrow> nat \<Rightarrow> string" where
  "bitmapHex numbers page = ToUpper (pad16 (FormatUint16 (uint (bitmap_word numbers page))))"

definition padN :: "int \<Rightarrow> nat \<Rightarrow> string" where
  "padN n width = pad_left width (Itoa n)"

definition pad2 :: "int \<Rightarrow> string" where "pad2 n = padN n 2"
definition pad3 :: "int \<Rightarrow> string" where "pad3 n = padN n 3"

text \<open>\<open>sortInts\<close>: the insertion sort on a slice, one swap at a time.\<close>

fun sift :: "nat \<Rightarrow> int list \<Rightarrow> int list" where
  "sift 0 a = a"
| "sift (Suc j) a =
     (if a ! j > a ! Suc j then sift j (a[j := a ! Suc j, Suc j := a ! j]) else a)"

definition sortInts :: "int list \<Rightarrow> int list" where
  "sortInts a = fold (\<lambda>i b. sift i b) [1..<length a] a"

section \<open>Packing\<close>

definition presenceOf :: "fields \<Rightarrow> (int \<Rightarrow> bool) \<times> bool" where
  "presenceOf fs =
     (let secondary = list_ex (\<lambda>(n, v). n > 64) fs;
          present = (\<lambda>n. n \<in> fst ` set fs)
      in (if secondary then present(1 := True) else present, secondary))"

definition packField :: "int \<Rightarrow> string \<Rightarrow> CodecError + string" where
  "packField n v =
     (case Fields n of
        None \<Rightarrow> Inl (cerr ''UNKNOWN_FIELD'' n '''')
      | Some spec \<Rightarrow>
          (case checkValue spec v of
             Some e \<Rightarrow> Inl e
           | None \<Rightarrow>
               Inr (if f_Prefix spec = ''LL'' then pad2 (int (dataLen spec v)) @ v
                    else if f_Prefix spec = ''LLL'' then pad3 (int (dataLen spec v)) @ v
                    else v)))"

fun pack_fields :: "int list \<Rightarrow> fields \<Rightarrow> string \<Rightarrow> CodecError + string" where
  "pack_fields [] fs b = Inr b"
| "pack_fields (n # ns) fs b =
     (case packField n (fget fs n) of
        Inl e \<Rightarrow> Inl e
      | Inr p \<Rightarrow> pack_fields ns fs (b @ p))"

definition Pack :: "string \<Rightarrow> fields \<Rightarrow> CodecError + string" where
  "Pack mti fs =
     (if length mti \<noteq> 4 \<or> \<not> digitsRe mti then Inl (cerr ''INVALID_MTI'' 0 mti)
      else if map_of fs 1 \<noteq> None then Inl (cerr ''UNKNOWN_FIELD'' 0 ''DE 1 is derived, do not set it'')
      else let (present, secondary) = presenceOf fs;
               numbers = sortInts (map fst fs)
           in pack_fields numbers fs
                (mti @ bitmapHex present 0 @ (if secondary then bitmapHex present 1 else '''')))"

section \<open>Unpacking\<close>

record taker =
  packed :: string
  pos :: nat

definition take_n :: "taker \<Rightarrow> nat \<Rightarrow> string \<Rightarrow> CodecError + (string \<times> taker)" where
  "take_n t n what =
     (if pos t + n > length (packed t)
      then Inl (cerr ''TRUNCATED'' 0 (what @ '' needs '' @ itoa (int n) @ '' chars at '' @ itoa (int (pos t))))
      else Inr (take n (drop (pos t) (packed t)), t\<lparr>pos := pos t + n\<rparr>))"

definition unpackBitmaps :: "taker \<Rightarrow> CodecError + (int list \<times> taker)" where
  "unpackBitmaps t =
     (case take_n t 16 ''primary bitmap'' of
        Inl e \<Rightarrow> Inl e
      | Inr (primary, t1) \<Rightarrow>
          if \<not> hexRe primary then Inl (cerr ''INVALID_BITMAP'' 0 primary)
          else let numbers = bitPositions (of_int (ParseUint16 primary)) 0 in
            if numbers = [] \<or> hd numbers \<noteq> 1 then Inr (numbers, t1)
            else (case take_n t1 16 ''secondary bitmap'' of
                    Inl e \<Rightarrow> Inl e
                  | Inr (secondary, t2) \<Rightarrow>
                      if \<not> hexRe secondary then Inl (cerr ''INVALID_BITMAP'' 0 secondary)
                      else Inr (numbers @ bitPositions (of_int (ParseUint16 secondary)) 64, t2)))"

definition unpackLength :: "taker \<Rightarrow> int \<Rightarrow> FieldSpec \<Rightarrow> CodecError + (nat \<times> taker)" where
  "unpackLength t n spec =
     (if f_Prefix spec = '''' then Inr (f_Length spec, t)
      else (case take_n t (if f_Prefix spec = ''LLL'' then 3 else 2) (''DE '' @ itoa n @ '' length'') of
              Inl e \<Rightarrow> Inl e
            | Inr (rawLen, t1) \<Rightarrow>
                if \<not> digitsRe rawLen
                then Inl (cerr ''INVALID_LENGTH'' n (''prefix '' @ [CHR 0x27] @ rawLen @ [CHR 0x27]))
                else let sz = nat (Atoi_digits rawLen) in
                  if sz > f_Length spec
                  then Inl (cerr ''INVALID_LENGTH'' n
                              (''max '' @ itoa (int (f_Length spec)) @ '', got '' @ itoa (int sz)))
                  else Inr (sz, t1)))"

definition unpackField :: "taker \<Rightarrow> int \<Rightarrow> CodecError + (string \<times> taker)" where
  "unpackField t n =
     (case Fields n of
        None \<Rightarrow> Inl (cerr ''UNKNOWN_FIELD'' n '''')
      | Some spec \<Rightarrow>
          (case unpackLength t n spec of
             Inl e \<Rightarrow> Inl e
           | Inr (sz, t1) \<Rightarrow>
               (case take_n t1 (if f_Type spec = ''b'' then sz * 2 else sz) (''DE '' @ itoa n) of
                  Inl e \<Rightarrow> Inl e
                | Inr (value, t2) \<Rightarrow>
                    (case checkValue spec value of
                       Some e \<Rightarrow> Inl e
                     | None \<Rightarrow> Inr (value, t2)))))"

fun unpack_fields :: "taker \<Rightarrow> int list \<Rightarrow> fields \<Rightarrow> CodecError + (fields \<times> taker)" where
  "unpack_fields t [] fs = Inr (fs, t)"
| "unpack_fields t (n # ns) fs =
     (if n = 1 then unpack_fields t ns fs
      else (case unpackField t n of
              Inl e \<Rightarrow> Inl e
            | Inr (value, t1) \<Rightarrow> unpack_fields t1 ns (fput n value fs)))"

definition trailing :: "taker \<Rightarrow> CodecError" where
  "trailing t = cerr ''TRAILING_DATA'' 0 (itoa (int (length (packed t)) - int (pos t)) @ '' chars after last field'')"

definition Unpack :: "string \<Rightarrow> CodecError + (string \<times> fields)" where
  "Unpack wire =
     (case take_n \<lparr>packed = wire, pos = 0\<rparr> 4 ''MTI'' of
        Inl e \<Rightarrow> Inl e
      | Inr (mti, t1) \<Rightarrow>
          if \<not> digitsRe mti then Inl (cerr ''INVALID_MTI'' 0 mti)
          else (case unpackBitmaps t1 of
                  Inl e \<Rightarrow> Inl e
                | Inr (numbers, t2) \<Rightarrow>
                    (case unpack_fields t2 numbers [] of
                       Inl e \<Rightarrow> Inl e
                     | Inr (fs, t3) \<Rightarrow>
                         if pos t3 \<noteq> length (packed t3) then Inl (trailing t3) else Inr (mti, fs))))"

section \<open>Segmented unpacking\<close>

record Segment =
  seg_Key :: string
  seg_Text :: string

definition slice :: "string \<Rightarrow> nat \<Rightarrow> nat \<Rightarrow> string" where
  "slice s i j = take (j - i) (drop i s)"

definition unpackBitmapsSegmented :: "taker \<Rightarrow> CodecError + (int list \<times> Segment list \<times> taker)" where
  "unpackBitmapsSegmented t =
     (let start = pos t in
      case unpackBitmaps t of
        Inl e \<Rightarrow> Inl e
      | Inr (numbers, t1) \<Rightarrow>
          Inr (numbers,
               \<lparr>seg_Key = ''primaryBitmap'', seg_Text = slice (packed t1) start (start + 16)\<rparr> #
               (if numbers \<noteq> [] \<and> hd numbers = 1
                then [\<lparr>seg_Key = ''secondaryBitmap'', seg_Text = slice (packed t1) (start + 16) (start + 32)\<rparr>]
                else []),
               t1))"

fun unpack_fields_segmented ::
  "taker \<Rightarrow> int list \<Rightarrow> fields \<Rightarrow> Segment list \<Rightarrow> CodecError + (fields \<times> Segment list \<times> taker)" where
  "unpack_fields_segmented t [] fs segs = Inr (fs, segs, t)"
| "unpack_fields_segmented t (n # ns) fs segs =
     (if n = 1 then unpack_fields_segmented t ns fs segs
      else (case unpackField t n of
              Inl e \<Rightarrow> Inl e
            | Inr (value, t1) \<Rightarrow>
                unpack_fields_segmented t1 ns (fput n value fs)
                  (segs @ [\<lparr>seg_Key = Itoa n, seg_Text = slice (packed t1) (pos t) (pos t1)\<rparr>])))"

definition UnpackSegmented :: "string \<Rightarrow> CodecError + (string \<times> fields \<times> Segment list)" where
  "UnpackSegmented wire =
     (case take_n \<lparr>packed = wire, pos = 0\<rparr> 4 ''MTI'' of
        Inl e \<Rightarrow> Inl e
      | Inr (mti, t1) \<Rightarrow>
          if \<not> digitsRe mti then Inl (cerr ''INVALID_MTI'' 0 mti)
          else (case unpackBitmapsSegmented t1 of
                  Inl e \<Rightarrow> Inl e
                | Inr (numbers, bitmapSegments, t2) \<Rightarrow>
                    (case unpack_fields_segmented t2 numbers []
                            (\<lparr>seg_Key = ''mti'', seg_Text = mti\<rparr> # bitmapSegments) of
                       Inl e \<Rightarrow> Inl e
                     | Inr (fs, segs, t3) \<Rightarrow>
                         if pos t3 \<noteq> length (packed t3) then Inl (trailing t3) else Inr (mti, fs, segs))))"

section \<open>The insertion sort\<close>

lemma sift_insert:
  assumes "sorted xs"
  shows "\<exists>r. sift (length xs) (xs @ y # zs) = r @ zs \<and> sorted r \<and> mset r = add_mset y (mset xs)"
  using assms
proof (induction xs arbitrary: zs rule: rev_induct)
  case Nil
  then show ?case by (intro exI [of _ "[y]"]) simp
next
  case (snoc x xs)
  show ?case
  proof (cases "x > y")
    case True
    have "sift (length (xs @ [x])) ((xs @ [x]) @ y # zs) = sift (length xs) (xs @ y # x # zs)"
      using True by (simp add: nth_append list_update_append)
    moreover obtain r where r: "sift (length xs) (xs @ y # x # zs) = r @ x # zs" "sorted r"
      "mset r = add_mset y (mset xs)"
      using snoc.IH [of "x # zs"] snoc.prems by (auto simp: sorted_append)
    moreover have "set r = insert y (set xs)"
      using r(3) by (metis set_mset_add_mset_insert set_mset_mset)
    ultimately show ?thesis
      using snoc.prems True by (intro exI [of _ "r @ [x]"]) (auto simp: sorted_append)
  next
    case False
    then have "sift (length (xs @ [x])) ((xs @ [x]) @ y # zs) = (xs @ [x, y]) @ zs"
      by (simp add: nth_append)
    then show ?thesis
      using snoc.prems False by (intro exI [of _ "xs @ [x, y]"]) (fastforce simp: sorted_append)
  qed
qed

lemma sortInts_prefix:
  assumes "k \<le> length a" "0 < k"
  shows "\<exists>r. fold sift [1..<k] a = r @ drop k a \<and> sorted r \<and> mset r = mset (take k a)"
  using assms
proof (induction k)
  case (Suc k)
  show ?case
  proof (cases "k = 0")
    case True
    with Suc.prems show ?thesis
      by (intro exI [of _ "take 1 a"]) (cases a; simp)
  next
    case False
    with Suc obtain r where r: "fold sift [1..<k] a = r @ drop k a" "sorted r" "mset r = mset (take k a)"
      by auto
    from Suc.prems have k: "k < length a" by simp
    with r(3) have len: "length r = k" by (metis length_take less_or_eq_imp_le min_absorb2 size_mset)
    have d: "drop k a = a ! k # drop (Suc k) a" using k by (simp add: Cons_nth_drop_Suc)
    obtain r' where r': "sift (length r) (r @ a ! k # drop (Suc k) a) = r' @ drop (Suc k) a" "sorted r'"
      "mset r' = add_mset (a ! k) (mset r)"
      using sift_insert [OF r(2)] by blast
    have "fold sift [1..<Suc k] a = r' @ drop (Suc k) a"
      using r r' d len False by simp
    moreover have "mset r' = mset (take (Suc k) a)"
      using r r' k by (simp add: take_Suc_conv_app_nth)
    ultimately show ?thesis using r'(2) by blast
  qed
qed simp

text \<open>The codec's insertion sort returns the same numbers in ascending order.\<close>

lemma sortInts_correct: "sorted (sortInts a) \<and> mset (sortInts a) = mset a"
proof (cases "a = []")
  case True
  then show ?thesis by (simp add: sortInts_def)
next
  case False
  then obtain r where "fold sift [1..<length a] a = r @ drop (length a) a" "sorted r" "mset r = mset (take (length a) a)"
    using sortInts_prefix [of "length a" a] by auto
  then show ?thesis by (simp add: sortInts_def)
qed

lemma set_sortInts [simp]: "set (sortInts a) = set a"
  using sortInts_correct [of a] by (metis set_mset_mset)

lemma distinct_sortInts [simp]: "distinct (sortInts a) = distinct a"
  using sortInts_correct [of a] by (metis mset_eq_imp_distinct_iff)

lemma sortInts_mset: "mset a = mset b \<Longrightarrow> sortInts a = sortInts b"
  using sortInts_correct by (metis sorted_list_of_multiset_mset sorted_sort_id)

section \<open>Bitmaps\<close>

lemma bitPositions_bit:
  "bitPositions w off = map (\<lambda>i. off + int i + 1) (filter (\<lambda>i. bit w (63 - i)) [0..<64])"
  unfolding bitPositions_def bit_iff_and_push_bit_not_eq_0 ..

lemma bit_bitmap_fold:
  "bit (fold (\<lambda>i value. if p i then value OR push_bit (63 - i) 1 else value) is (v :: 64 word)) k
     \<longleftrightarrow> bit v k \<or> k < 64 \<and> (\<exists>i \<in> set is. p i \<and> k = 63 - i)"
  by (induction "is" arbitrary: v) (auto simp: bit_simps)

lemma bit_bitmap_word:
  "i < 64 \<Longrightarrow> bit (bitmap_word numbers page) (63 - i) \<longleftrightarrow> numbers (int page * 64 + int i + 1)"
proof -
  assume i: "i < 64"
  have "bit (bitmap_word numbers page) (63 - i)
      \<longleftrightarrow> (\<exists>j < 64. numbers (int page * 64 + int j + 1) \<and> 63 - i = 63 - j)"
    unfolding bitmap_word_def
    by (subst bit_bitmap_fold [where p = "\<lambda>i. numbers (int page * 64 + int i + 1)"]) auto
  also have "\<dots> \<longleftrightarrow> numbers (int page * 64 + int i + 1)"
  proof
    assume "\<exists>j < 64. numbers (int page * 64 + int j + 1) \<and> 63 - i = 63 - j"
    then obtain j where "j < 64" "numbers (int page * 64 + int j + 1)" "63 - i = 63 - j" by blast
    moreover from this i have "i = j" by linarith
    ultimately show "numbers (int page * 64 + int i + 1)" by simp
  qed (use i in auto)
  finally show ?thesis .
qed

lemma bitPositions_bitmap_word:
  "bitPositions (bitmap_word numbers page) (64 * int page)
     = map (\<lambda>i. 64 * int page + int i + 1) (filter (\<lambda>i. numbers (64 * int page + int i + 1)) [0..<64])"
  unfolding bitPositions_bit
  by (rule arg_cong [where f = "map _"], rule filter_cong) (auto simp: bit_bitmap_word mult.commute)

lemma length_FormatUint16: "0 \<le> n \<Longrightarrow> n < 2 ^ 64 \<Longrightarrow> length (FormatUint16 n) \<le> 16"
  using length_digits_in [of 16 n 16] by (simp add: FormatUint16_def)

lemma ToUpper_pad_left: "ToUpper (pad_left w s) = pad_left w (ToUpper s)"
  by (simp add: ToUpper_def pad_left_eq)

lemma hex_value_zero [simp]: "hex_value CHR ''0'' = 0"
  by (simp add: hex_value_def)

lemma ParseUint16_pad_left [simp]: "ParseUint16 (pad_left w s) = ParseUint16 s"
  by (simp add: ParseUint16_def pad_left_eq)

lemma ParseUint16_FormatUint16:
  assumes "0 \<le> n"
  shows "ParseUint16 (ToUpper (FormatUint16 n)) = n"
proof -
  have "map (hex_value \<circ> (to_upper_char \<circ> hex_char)) (digits_in 16 n) = digits_in 16 n"
    using digits_in_range [of 16 n] assms by (intro map_idI) (simp add: upper_hex_char)
  then show ?thesis
    by (simp add: ParseUint16_def ToUpper_def FormatUint16_def value_in_digits_in)
qed

lemma hexRe_FormatUint16: "0 \<le> n \<Longrightarrow> hexRe (ToUpper (FormatUint16 n))"
  using digits_in_range [of 16 n]
  by (auto simp: hexRe_def ToUpper_def FormatUint16_def list_all_iff upper_hex_char)

lemma bitmapHex_props:
  "length (bitmapHex p pg) = 16" "hexRe (bitmapHex p pg)"
  "ParseUint16 (bitmapHex p pg) = uint (bitmap_word p pg)"
proof -
  let ?n = "uint (bitmap_word p pg)"
  have n: "0 \<le> ?n" "?n < 2 ^ 64" using uint_lt2p [of "bitmap_word p pg"] by auto
  have e: "bitmapHex p pg = pad_left 16 (ToUpper (FormatUint16 ?n))"
    by (simp add: bitmapHex_def pad16_def ToUpper_pad_left)
  show "length (bitmapHex p pg) = 16"
    using length_FormatUint16 [OF n] by (simp add: e ToUpper_def)
  show "hexRe (bitmapHex p pg)"
    using hexRe_FormatUint16 [OF n(1)] by (auto simp: e hexRe_def pad_left_eq list_all_iff is_upper_hex_def)
  show "ParseUint16 (bitmapHex p pg) = ?n"
    using ParseUint16_FormatUint16 [OF n(1)] by (simp add: e)
qed

section \<open>One field, both ways\<close>

definition wf_spec :: "FieldSpec \<Rightarrow> bool" where
  "wf_spec f \<longleftrightarrow>
     (f_Prefix f = '''' \<or> f_Prefix f = ''LL'' \<and> f_Length f < 100 \<or> f_Prefix f = ''LLL'' \<and> f_Length f < 1000)"

lemma Fields_props:
  assumes "Fields n = Some f"
  shows "wf_spec f" and "1 \<le> n" and "n \<le> 128" and "f_Number f = n"
proof -
  have "list_all (\<lambda>(n, f). wf_spec f \<and> 1 \<le> n \<and> n \<le> 128 \<and> f_Number f = n) FieldTable"
    by (simp add: FieldTable_def wf_spec_def)
  then have "wf_spec f \<and> 1 \<le> n \<and> n \<le> 128 \<and> f_Number f = n"
    using assms unfolding Fields_def by (auto simp: list_all_iff dest!: map_of_SomeD)
  then show "wf_spec f" "1 \<le> n" "n \<le> 128" "f_Number f = n" by auto
qed

lemma take_n_exact:
  "length s = n \<Longrightarrow>
   take_n \<lparr>packed = pre @ s @ post, pos = length pre\<rparr> n what
     = Inr (s, \<lparr>packed = pre @ s @ post, pos = length pre + n\<rparr>)"
  by (simp add: take_n_def)

lemma take_n_Inr:
  "take_n t n what = Inr (s, t') \<longleftrightarrow>
     pos t + n \<le> length (packed t) \<and> s = take n (drop (pos t) (packed t)) \<and> t' = t\<lparr>pos := pos t + n\<rparr>"
  by (auto simp: take_n_def)

text \<open>The declared length of a value is the width the reader will take.\<close>

lemma checkValue_width:
  assumes "checkValue f v = None"
  shows "length v = (if f_Type f = ''b'' then dataLen f v * 2 else dataLen f v)"
proof (cases "f_Type f = ''b''")
  case True
  with assms have "even (length v)" by (auto simp: checkValue_def split: if_splits)
  with True show ?thesis by (simp add: dataLen_def)
qed (simp add: dataLen_def)

lemma checkValue_length:
  assumes "checkValue f v = None"
  shows "if f_Prefix f = '''' then dataLen f v = f_Length f else dataLen f v \<le> f_Length f"
  using assms by (auto simp: checkValue_def Let_def split: if_splits)

lemma padN_props:
  assumes "n < 10 ^ w" "0 < w"
  shows "length (padN (int n) w) = w" "digitsRe (padN (int n) w)" "Atoi_digits (padN (int n) w) = int n"
proof -
  from assms(1) have "int n < 10 ^ w" by (metis of_nat_less_iff of_nat_numeral of_nat_power)
  with assms(2) show "length (padN (int n) w) = w"
    using length_Itoa [of "int n" w] by (simp add: padN_def)
qed (simp_all add: padN_def digitsRe_def)

lemma unpackLength_prefixed:
  assumes "f_Prefix f \<noteq> ''''" "w = (if f_Prefix f = ''LLL'' then 3 else 2)" "m \<le> f_Length f" "m < 10 ^ w"
  shows "unpackLength \<lparr>packed = pre @ padN (int m) w @ post, pos = length pre\<rparr> n f
     = Inr (m, \<lparr>packed = pre @ padN (int m) w @ post, pos = length pre + w\<rparr>)"
proof -
  have w: "0 < w" using assms(2) by simp
  note props = padN_props [OF assms(4) w]
  show ?thesis
    unfolding unpackLength_def
    using assms(1,3) props
    by (simp add: assms(2) [symmetric] take_n_exact Let_def)
qed

lemma unpackField_packField:
  assumes "packField n v = Inr p"
  shows "unpackField \<lparr>packed = pre @ p @ post, pos = length pre\<rparr> n
     = Inr (v, \<lparr>packed = pre @ p @ post, pos = length pre + length p\<rparr>)"
proof -
  from assms obtain f where f: "Fields n = Some f" and ok: "checkValue f v = None"
    and p: "p = (if f_Prefix f = ''LL'' then pad2 (int (dataLen f v)) @ v
                 else if f_Prefix f = ''LLL'' then pad3 (int (dataLen f v)) @ v else v)"
    by (auto simp: packField_def split: option.splits)
  note wf = Fields_props(1) [OF f] and len = checkValue_length [OF ok] and wid = checkValue_width [OF ok]
  show ?thesis
  proof (cases "f_Prefix f = ''''")
    case True
    with p have "p = v" by simp
    moreover have "unpackLength \<lparr>packed = pre @ v @ post, pos = length pre\<rparr> n f
        = Inr (dataLen f v, \<lparr>packed = pre @ v @ post, pos = length pre\<rparr>)"
      using True len by (simp add: unpackLength_def)
    ultimately show ?thesis
      using f ok by (simp add: unpackField_def wid [symmetric] take_n_exact)
  next
    case False
    let ?w = "if f_Prefix f = ''LLL'' then 3 else 2 :: nat"
    let ?q = "padN (int (dataLen f v)) ?w"
    have w: "0 < ?w" by simp
    have small: "dataLen f v < 10 ^ ?w"
      using wf len False by (auto simp: wf_spec_def)
    have pq: "p = ?q @ v" using p wf False by (auto simp: wf_spec_def pad2_def pad3_def)
    have step1: "unpackLength \<lparr>packed = pre @ ?q @ v @ post, pos = length pre\<rparr> n f
        = Inr (dataLen f v, \<lparr>packed = pre @ ?q @ v @ post, pos = length pre + ?w\<rparr>)"
      using unpackLength_prefixed [OF False refl _ small] len False by simp
    have lq: "length (pre @ ?q) = length pre + ?w" using padN_props(1) [OF small w] by simp
    have step2: "take_n \<lparr>packed = (pre @ ?q) @ v @ post, pos = length (pre @ ?q)\<rparr> (length v) what
        = Inr (v, \<lparr>packed = (pre @ ?q) @ v @ post, pos = length (pre @ ?q) + length v\<rparr>)" for what
      by (rule take_n_exact) simp
    show ?thesis
      using f ok step1 step2 [unfolded lq] padN_props(1) [OF small w]
      by (simp add: unpackField_def pq wid [symmetric] add.assoc)
  qed
qed

text \<open>Conversely, a field read from the wire packs back to the characters it was read from.\<close>

lemma packField_unpackField:
  assumes "unpackField t n = Inr (v, t')"
  shows "packed t' = packed t \<and> pos t \<le> pos t' \<and> pos t' \<le> length (packed t)
     \<and> packField n v = Inr (slice (packed t) (pos t) (pos t'))"
proof -
  from assms obtain f sz t1 where f: "Fields n = Some f" and l: "unpackLength t n f = Inr (sz, t1)"
    and tk: "take_n t1 (if f_Type f = ''b'' then sz * 2 else sz) (''DE '' @ itoa n) = Inr (v, t')"
    and ok: "checkValue f v = None"
    by (auto simp: unpackField_def split: option.splits sum.splits)
  let ?wd = "if f_Type f = ''b'' then sz * 2 else sz"
  from tk have v: "v = take ?wd (drop (pos t1) (packed t1))" "pos t1 + ?wd \<le> length (packed t1)"
    and t': "t' = t1\<lparr>pos := pos t1 + ?wd\<rparr>"
    unfolding take_n_Inr by auto
  then have lv: "length v = ?wd" by simp
  then have sz: "dataLen f v = sz" by (simp add: dataLen_def split: if_splits)
  note wf = Fields_props(1) [OF f]
  show ?thesis
  proof (cases "f_Prefix f = ''''")
    case True
    with l have "t1 = t" by (simp add: unpackLength_def)
    with True t' v lv f ok show ?thesis
      by (simp add: packField_def slice_def)
  next
    case False
    let ?w = "if f_Prefix f = ''LLL'' then 3 else 2 :: nat"
    from l False obtain raw where raw: "take_n t ?w (''DE '' @ itoa n @ '' length'') = Inr (raw, t1)"
      and dg: "digitsRe raw" and szraw: "sz = nat (Atoi_digits raw)"
      unfolding unpackLength_def by (auto split: sum.splits if_splits prod.splits simp: Let_def)
    from raw have r: "raw = take ?w (drop (pos t) (packed t))" "pos t + ?w \<le> length (packed t)"
      and t1: "t1 = t\<lparr>pos := pos t + ?w\<rparr>"
      unfolding take_n_Inr by auto
    have lraw: "length raw = ?w" using r by simp
    have "int sz = Atoi_digits raw" using dg szraw Atoi_nonneg by (simp add: digitsRe_def)
    then have "padN (int sz) ?w = raw"
      using pad_left_Itoa_Atoi [of raw ?w] dg lraw by (simp add: padN_def digitsRe_def)
    then have "packField n v = Inr (raw @ v)"
      using f ok sz wf False by (auto simp: packField_def wf_spec_def pad2_def pad3_def)
    moreover have "raw @ v = slice (packed t) (pos t) (pos t')"
      unfolding slice_def using r v t1 t'
      by (simp add: take_add add.commute [of _ "pos t"])
    ultimately show ?thesis using t' t1 v by simp
  qed
qed

section \<open>Bitmaps of a whole message\<close>

lemma bitPositions_props:
  "sorted_wrt (<) (bitPositions w off)"
  "set (bitPositions w off) = {off + int i + 1 |i. i < 64 \<and> bit w (63 - i)}"
proof -
  show "sorted_wrt (<) (bitPositions w off)"
    unfolding bitPositions_bit
    by (simp add: sorted_wrt_map sorted_wrt_filter sorted_wrt_upt [THEN sorted_wrt_mono_rel [rotated]])
  show "set (bitPositions w off) = {off + int i + 1 |i. i < 64 \<and> bit w (63 - i)}"
    unfolding bitPositions_bit by auto
qed

lemma set_bitPositions_bitmap:
  "set (bitPositions (bitmap_word p pg) (64 * int pg)) = {n. 64 * int pg < n \<and> n \<le> 64 * int pg + 64 \<and> p n}"
  (is "?L = ?R")
proof
  show "?L \<subseteq> ?R"
    unfolding bitPositions_props(2) using bit_bitmap_word [of _ p pg] by (auto simp: mult.commute)
  show "?R \<subseteq> ?L"
  proof
    fix n assume "n \<in> ?R"
    then have n: "64 * int pg < n" "n \<le> 64 * int pg + 64" "p n" by auto
    define i where "i = nat (n - 64 * int pg - 1)"
    have i: "i < 64" "n = 64 * int pg + int i + 1" using n by (auto simp: i_def)
    with n(3) have "bit (bitmap_word p pg) (63 - i)"
      using bit_bitmap_word [OF i(1), of p pg] by (simp add: mult.commute)
    with i show "n \<in> ?L" unfolding bitPositions_props(2) by blast
  qed
qed

definition wire_numbers :: "fields \<Rightarrow> int list" where
  "wire_numbers fs = (if snd (presenceOf fs) then [1] else []) @ sortInts (map fst fs)"

lemma presenceOf_fst:
  "fst (presenceOf fs) n \<longleftrightarrow> n \<in> fst ` set fs \<or> (n = 1 \<and> snd (presenceOf fs))"
  by (auto simp: presenceOf_def Let_def)

lemma presenceOf_snd: "snd (presenceOf fs) \<longleftrightarrow> (\<exists>n \<in> fst ` set fs. n > 64)"
  by (force simp: presenceOf_def Let_def list_ex_iff split: prod.splits)

lemma sorted_wrt_less_unique:
  "sorted_wrt (<) xs \<Longrightarrow> sorted_wrt (<) ys \<Longrightarrow> set xs = set ys \<Longrightarrow> xs = (ys :: int list)"
  by (metis strict_sorted_equal)

lemma wire_numbers_bitPositions:
  assumes "distinct (map fst fs)" "\<forall>n \<in> fst ` set fs. 1 < n \<and> n \<le> 128"
  shows "wire_numbers fs = bitPositions (bitmap_word (fst (presenceOf fs)) 0) 0
     @ (if snd (presenceOf fs) then bitPositions (bitmap_word (fst (presenceOf fs)) 1) 64 else [])"
    (is "_ = ?b0 @ ?b1")
proof (rule sorted_wrt_less_unique)
  have sN: "sorted_wrt (<) (sortInts (map fst fs))"
    using sortInts_correct [of "map fst fs"] assms(1) by (simp add: strict_sorted_iff)
  then show "sorted_wrt (<) (wire_numbers fs)"
    using assms(2) by (auto simp: wire_numbers_def sorted_wrt_append)
  have s0: "set ?b0 = {n. 0 < n \<and> n \<le> 64 \<and> fst (presenceOf fs) n}"
    using set_bitPositions_bitmap [of "fst (presenceOf fs)" 0] by simp
  have s1: "set (bitPositions (bitmap_word (fst (presenceOf fs)) 1) 64)
      = {n. 64 < n \<and> n \<le> 128 \<and> fst (presenceOf fs) n}"
    using set_bitPositions_bitmap [of "fst (presenceOf fs)" 1] by simp
  show "sorted_wrt (<) (?b0 @ ?b1)"
    using s0 s1 bitPositions_props(1) by (auto simp: sorted_wrt_append)
  show "set (wire_numbers fs) = set (?b0 @ ?b1)"
    using s0 s1 assms(2) presenceOf_snd [of fs]
    by (auto simp: wire_numbers_def presenceOf_fst)
qed

lemma of_int_uint_bitmap [simp]: "of_int (ParseUint16 (bitmapHex p pg)) = bitmap_word p pg"
  by (simp add: bitmapHex_props)

lemma unpackBitmaps_pack:
  assumes "distinct (map fst fs)" "\<forall>n \<in> fst ` set fs. 1 < n \<and> n \<le> 128"
  defines "bms \<equiv> bitmapHex (fst (presenceOf fs)) 0
      @ (if snd (presenceOf fs) then bitmapHex (fst (presenceOf fs)) 1 else '''')"
  shows "unpackBitmaps \<lparr>packed = pre @ bms @ post, pos = length pre\<rparr>
      = Inr (wire_numbers fs, \<lparr>packed = pre @ bms @ post, pos = length pre + length bms\<rparr>)"
proof -
  let ?p = "fst (presenceOf fs)"
  let ?b0 = "bitPositions (bitmap_word ?p 0) 0"
  have set0: "set ?b0 = {n. 0 < n \<and> n \<le> 64 \<and> ?p n}"
    using set_bitPositions_bitmap [of ?p 0] by simp
  note wn = wire_numbers_bitPositions [OF assms(1,2)]
  show ?thesis
  proof (cases "snd (presenceOf fs)")
    case True
    then have "1 \<in> set ?b0" using set0 by (simp add: presenceOf_fst)
    then have hd: "?b0 \<noteq> [] \<and> hd ?b0 = 1"
      using wn True by (cases ?b0) (auto simp: wire_numbers_def)
    have bms: "bms = bitmapHex ?p 0 @ bitmapHex ?p 1" using True by (simp add: bms_def)
    have t2: "take_n \<lparr>packed = pre @ bitmapHex ?p 0 @ bitmapHex ?p 1 @ post, pos = length pre + 16\<rparr> 16 what
        = Inr (bitmapHex ?p 1, \<lparr>packed = pre @ bitmapHex ?p 0 @ bitmapHex ?p 1 @ post, pos = length pre + 32\<rparr>)" for what
      using take_n_exact [of "bitmapHex ?p 1" 16 "pre @ bitmapHex ?p 0" post] by (simp add: bitmapHex_props)
    show ?thesis
      using hd True wn unfolding unpackBitmaps_def bms
      by (simp add: take_n_exact bitmapHex_props(1,2) t2 Let_def del: One_nat_def)
  next
    case False
    then have "1 \<notin> set ?b0" using set0 assms(2) by (auto simp: presenceOf_fst)
    then have hd: "?b0 = [] \<or> hd ?b0 \<noteq> 1" by (cases ?b0) auto
    have bms: "bms = bitmapHex ?p 0" using False by (simp add: bms_def)
    show ?thesis
      using hd False wn unfolding unpackBitmaps_def bms
      by (auto simp: take_n_exact bitmapHex_props(1,2) Let_def)
  qed
qed

section \<open>Round trip: Unpack after Pack\<close>

lemma packField_known: "packField n v = Inr p \<Longrightarrow> 1 \<le> n \<and> n \<le> 128"
  by (auto simp: packField_def split: option.splits dest: Fields_props)

lemma pack_fields_known: "pack_fields ns fs b = Inr r \<Longrightarrow> \<forall>n \<in> set ns. 1 \<le> n \<and> n \<le> 128"
  by (induction ns arbitrary: b) (auto split: sum.splits dest: packField_known)

lemma unpack_fields_pack:
  assumes "pack_fields ns fs b = Inr r" "distinct ns" "1 \<notin> set ns" "set ns \<inter> fst ` set acc = {}"
  shows "\<exists>s. r = b @ s \<and> unpack_fields \<lparr>packed = pre @ s @ post, pos = length pre\<rparr> ns acc
     = Inr (acc @ map (\<lambda>n. (n, fget fs n)) ns, \<lparr>packed = pre @ s @ post, pos = length pre + length s\<rparr>)"
  using assms
proof (induction ns arbitrary: b pre acc)
  case Nil
  then show ?case by simp
next
  case (Cons n ns)
  then obtain p where p: "packField n (fget fs n) = Inr p" and rest: "pack_fields ns fs (b @ p) = Inr r"
    by (auto split: sum.splits)
  from Cons.prems have n: "n \<noteq> 1" "n \<notin> fst ` set acc" "distinct ns" "1 \<notin> set ns"
    "set ns \<inter> fst ` set (acc @ [(n, fget fs n)]) = {}" by auto
  from Cons.IH [OF rest n(3-5), of "pre @ p"] obtain s where s: "r = (b @ p) @ s"
    and u: "unpack_fields \<lparr>packed = (pre @ p) @ s @ post, pos = length (pre @ p)\<rparr> ns (acc @ [(n, fget fs n)])
      = Inr ((acc @ [(n, fget fs n)]) @ map (\<lambda>n. (n, fget fs n)) ns,
             \<lparr>packed = (pre @ p) @ s @ post, pos = length (pre @ p) + length s\<rparr>)"
    by blast
  have "unpackField \<lparr>packed = pre @ p @ s @ post, pos = length pre\<rparr> n
      = Inr (fget fs n, \<lparr>packed = pre @ p @ s @ post, pos = length pre + length p\<rparr>)"
    using unpackField_packField [OF p] by simp
  with u n(1,2) have "unpack_fields \<lparr>packed = pre @ (p @ s) @ post, pos = length pre\<rparr> (n # ns) acc
      = Inr (acc @ map (\<lambda>n. (n, fget fs n)) (n # ns),
             \<lparr>packed = pre @ (p @ s) @ post, pos = length pre + length (p @ s)\<rparr>)"
    by (simp add: fput_new add.assoc)
  with s show ?case by (intro exI [of _ "p @ s"]) simp
qed

definition canonical :: "fields \<Rightarrow> fields" where
  "canonical fs = map (\<lambda>n. (n, fget fs n)) (sortInts (map fst fs))"

lemma map_of_canonical: "map_of (canonical fs) = map_of fs"
proof
  fix k
  have "map_of (map (\<lambda>n. (n, fget fs n)) xs) k = (if k \<in> set xs then Some (fget fs k) else None)" for xs
    by (induction xs) auto
  moreover have "k \<in> fst ` set fs \<longleftrightarrow> map_of fs k \<noteq> None" by (simp add: map_of_eq_None_iff)
  ultimately show "map_of (canonical fs) k = map_of fs k"
    by (cases "map_of fs k") (simp_all add: canonical_def fget_def)
qed

lemma Unpack_Pack:
  assumes "Pack mti fs = Inr wire" "distinct (map fst fs)"
  shows "Unpack wire = Inr (mti, canonical fs)"
proof -
  let ?p = "fst (presenceOf fs)"
  define bms where "bms = bitmapHex ?p 0 @ (if snd (presenceOf fs) then bitmapHex ?p 1 else [])"
  from assms(1) have mti: "length mti = 4" "digitsRe mti" and no1: "map_of fs 1 = None"
    and pf: "pack_fields (sortInts (map fst fs)) fs (mti @ bms) = Inr wire"
    by (auto simp: Pack_def Let_def bms_def split: if_splits prod.splits)
  from no1 have no1': "1 \<notin> fst ` set fs" by (simp add: map_of_eq_None_iff)
  with pack_fields_known [OF pf] have keys: "\<forall>n \<in> fst ` set fs. 1 < n \<and> n \<le> 128" by force
  obtain s where s: "wire = (mti @ bms) @ s"
    and u: "unpack_fields \<lparr>packed = (mti @ bms) @ s @ [], pos = length (mti @ bms)\<rparr> (sortInts (map fst fs)) []
      = Inr ([] @ canonical fs, \<lparr>packed = (mti @ bms) @ s @ [], pos = length (mti @ bms) + length s\<rparr>)"
    using unpack_fields_pack [OF pf, of "[]" "mti @ bms" "[]"] assms(2) no1' by (auto simp: canonical_def)
  have t1: "take_n \<lparr>packed = mti @ bms @ s, pos = 0\<rparr> 4 ''MTI'' = Inr (mti, \<lparr>packed = mti @ bms @ s, pos = 4\<rparr>)"
    using take_n_exact [of mti 4 "[]" "bms @ s" "''MTI''"] mti by simp
  have t2: "unpackBitmaps \<lparr>packed = mti @ bms @ s, pos = 4\<rparr>
      = Inr (wire_numbers fs, \<lparr>packed = mti @ bms @ s, pos = 4 + length bms\<rparr>)"
    using unpackBitmaps_pack [OF assms(2) keys, of mti s] mti by (simp add: bms_def)
  have "unpack_fields \<lparr>packed = mti @ bms @ s, pos = 4 + length bms\<rparr> (wire_numbers fs) []
      = Inr (canonical fs, \<lparr>packed = mti @ bms @ s, pos = 4 + length bms + length s\<rparr>)"
    using u mti(1) by (simp add: wire_numbers_def)
  with t1 t2 mti s show ?thesis by (simp add: Unpack_def)
qed

section \<open>Round trip: Pack after Unpack\<close>

lemma uint_of_ParseUint16:
  assumes "hexRe raw" "length raw = 16"
  shows "uint (of_int (ParseUint16 raw) :: 64 word) = ParseUint16 raw"
proof -
  have r: "\<forall>d \<in> set (map hex_value raw). 0 \<le> d \<and> d < 16"
    using assms(1) by (auto simp: hexRe_def list_all_iff)
  have "0 \<le> ParseUint16 raw" unfolding ParseUint16_def by (rule value_in_nonneg) (use r in auto)
  moreover have "ParseUint16 raw < 2 ^ 64"
    using value_in_less [OF _ r] assms(2) by (simp add: ParseUint16_def)
  ultimately show ?thesis by (simp add: uint_word_of_int_eq take_bit_int_eq_self)
qed

lemma hex_string_inject:
  assumes "hexRe a" "hexRe b" "length a = length b" "ParseUint16 a = ParseUint16 b"
  shows "a = b"
proof -
  have "map hex_value a = map hex_value b"
    by (rule value_in_inject [of _ _ 16])
      (use assms in \<open>auto simp: ParseUint16_def hexRe_def list_all_iff\<close>)
  then have "map (\<lambda>c. to_upper_char (hex_char (hex_value c))) a
      = map (\<lambda>c. to_upper_char (hex_char (hex_value c))) b"
    by (metis (mono_tags, lifting) map_map comp_def map_eq_conv)
  moreover have "map (\<lambda>c. to_upper_char (hex_char (hex_value c))) s = s" if "hexRe s" for s
    using that by (intro map_idI) (auto simp: hexRe_def list_all_iff)
  ultimately show ?thesis using assms(1,2) by simp
qed

lemma bitmapHex_decode:
  assumes "hexRe raw" "length raw = 16"
    and "\<forall>i < 64. p (64 * int pg + int i + 1) \<longleftrightarrow> bit (of_int (ParseUint16 raw) :: 64 word) (63 - i)"
  shows "bitmapHex p pg = raw"
proof (rule hex_string_inject)
  have "bitmap_word p pg = of_int (ParseUint16 raw)"
  proof (rule bit_word_eqI)
    fix k assume "k < LENGTH(64)"
    then have "63 - k < 64" "63 - (63 - k) = k" by auto
    with bit_bitmap_word [of "63 - k" p pg] assms(3)
    show "bit (bitmap_word p pg) k \<longleftrightarrow> bit (of_int (ParseUint16 raw) :: 64 word) k"
      by (metis mult.commute)
  qed
  then show "ParseUint16 (bitmapHex p pg) = ParseUint16 raw"
    using uint_of_ParseUint16 [OF assms(1,2)] by (simp add: bitmapHex_props)
qed (use assms in \<open>auto simp: bitmapHex_props\<close>)

lemma mem_bitPositions:
  "i < 64 \<Longrightarrow> off + int i + 1 \<in> set (bitPositions w off) \<longleftrightarrow> bit w (63 - i)"
  unfolding bitPositions_props(2) by auto

lemma bitPositions_bounds: "n \<in> set (bitPositions w off) \<Longrightarrow> off < n \<and> n \<le> off + 64"
  unfolding bitPositions_props(2) by auto

text \<open>The bitmaps a message announces are the bitmaps of its field numbers.\<close>

lemma unpackBitmaps_Inr:
  assumes "unpackBitmaps t = Inr (ns, t')"
  defines "two \<equiv> ns \<noteq> [] \<and> hd ns = 1"
  shows "sorted_wrt (<) ns" and "\<forall>n \<in> set ns. 1 \<le> n \<and> n \<le> (if two then 128 else 64)"
    and "packed t' = packed t" and "pos t' = pos t + (if two then 32 else 16)"
    and "pos t' \<le> length (packed t)"
    and "slice (packed t) (pos t) (pos t')
      = bitmapHex (\<lambda>n. n \<in> set ns) 0 @ (if two then bitmapHex (\<lambda>n. n \<in> set ns) 1 else [])"
proof -
  let ?w = "\<lambda>raw. of_int (ParseUint16 raw) :: 64 word"
  define raw0 where "raw0 = take 16 (drop (pos t) (packed t))"
  define raw1 where "raw1 = take 16 (drop (pos t + 16) (packed t))"
  let ?b0 = "bitPositions (?w raw0) 0"
  have h0: "pos t + 16 \<le> length (packed t)"
  proof (rule ccontr)
    assume "\<not> pos t + 16 \<le> length (packed t)"
    with assms(1) show False by (simp add: unpackBitmaps_def take_n_def)
  qed
  then have primary: "take_n t 16 ''primary bitmap'' = Inr (raw0, t\<lparr>pos := pos t + 16\<rparr>)" by (simp add: take_n_Inr raw0_def)
  with assms(1) have "hexRe raw0" by (simp add: unpackBitmaps_def split: if_splits)
  with h0 have h0: "pos t + 16 \<le> length (packed t)" "hexRe raw0" by simp_all
  have l0: "length raw0 = 16" using h0(1) by (simp add: raw0_def)
  have cases: "(\<not> two \<and> ns = ?b0 \<and> t' = t\<lparr>pos := pos t + 16\<rparr>)
    \<or> (two \<and> ns = ?b0 @ bitPositions (?w raw1) 64 \<and> t' = t\<lparr>pos := pos t + 32\<rparr>
        \<and> pos t + 32 \<le> length (packed t) \<and> hexRe raw1)"
  proof (cases "?b0 = [] \<or> hd ?b0 \<noteq> 1")
    case True
    then have "ns = ?b0 \<and> t' = t\<lparr>pos := pos t + 16\<rparr>" using assms(1) primary h0(2) by (simp add: unpackBitmaps_def)
    with True show ?thesis unfolding two_def by blast
  next
    case False
    then have "(case take_n (t\<lparr>pos := pos t + 16\<rparr>) 16 ''secondary bitmap'' of Inl e \<Rightarrow> Inl e
        | Inr (secondary, t2) \<Rightarrow> if \<not> hexRe secondary then Inl (cerr ''INVALID_BITMAP'' 0 secondary)
            else Inr (?b0 @ bitPositions (?w secondary) 64, t2)) = Inr (ns, t')"
      using assms(1) primary h0(2) by (simp add: unpackBitmaps_def)
    then obtain secondary where s: "take_n (t\<lparr>pos := pos t + 16\<rparr>) 16 ''secondary bitmap'' = Inr (secondary, t')" "hexRe secondary"
      "ns = ?b0 @ bitPositions (?w secondary) 64"
      by (auto split: sum.splits if_splits)
    from s(1) have r: "secondary = raw1" "t' = t\<lparr>pos := pos t + 32\<rparr>" "pos t + 32 \<le> length (packed t)"
      unfolding take_n_Inr by (auto simp: raw1_def)
    from False have "two" unfolding two_def s(3) by simp
    with s(2,3) r show ?thesis by blast
  qed
  have mem0: "int i + 1 \<in> set ?b0 \<longleftrightarrow> bit (?w raw0) (63 - i)" if "i < 64" for i
    using mem_bitPositions [OF that, of 0] by simp
  show "sorted_wrt (<) ns"
    using cases bitPositions_props(1) by (fastforce simp: sorted_wrt_append dest: bitPositions_bounds)
  show "\<forall>n \<in> set ns. 1 \<le> n \<and> n \<le> (if two then 128 else 64)"
    using cases by (fastforce dest: bitPositions_bounds)
  show "packed t' = packed t" "pos t' = pos t + (if two then 32 else 16)" "pos t' \<le> length (packed t)"
    using cases h0 by auto
  have b0: "bitmapHex (\<lambda>n. n \<in> set ns) 0 = raw0"
  proof (rule bitmapHex_decode)
    have "int i + 1 \<notin> set (bitPositions w 64)" if "i < 64" for i w
      using that bitPositions_bounds [of "int i + 1" w 64] by linarith
    with cases mem0 show "\<forall>i<64. 64 * int 0 + int i + 1 \<in> set ns \<longleftrightarrow> bit (?w raw0) (63 - i)"
      by auto
  qed (use h0 l0 in auto)
  show "slice (packed t) (pos t) (pos t')
      = bitmapHex (\<lambda>n. n \<in> set ns) 0 @ (if two then bitmapHex (\<lambda>n. n \<in> set ns) 1 else [])"
  proof (cases two)
    case True
    with cases have c: "ns = ?b0 @ bitPositions (?w raw1) 64" "pos t' = pos t + 32"
      "pos t + 32 \<le> length (packed t)" "hexRe raw1" by auto
    have "bitmapHex (\<lambda>n. n \<in> set ns) 1 = raw1"
    proof (rule bitmapHex_decode)
      show "length raw1 = 16" using c(3) by (simp add: raw1_def)
      have "64 + int i + 1 \<notin> set ?b0" for i by (auto dest: bitPositions_bounds)
      then show "\<forall>i<64. 64 * int 1 + int i + 1 \<in> set ns \<longleftrightarrow> bit (?w raw1) (63 - i)"
        using mem_bitPositions [of _ 64 "?w raw1"] unfolding c(1) by simp
    qed (rule c(4))
    with True b0 c(2) show ?thesis
      by (simp add: slice_def raw0_def raw1_def take_add [of 16 16, simplified] add.commute)
  next
    case False
    with cases b0 show ?thesis by (auto simp: slice_def raw0_def)
  qed
qed

lemma slice_append: "i \<le> j \<Longrightarrow> j \<le> k \<Longrightarrow> k \<le> length s \<Longrightarrow> slice s i j @ slice s j k = slice s i k"
  by (simp add: slice_def) (metis add_diff_assoc2 drop_drop le_add_diff_inverse2 ordered_cancel_comm_monoid_diff_class.add_diff_inverse take_add)

lemma unpack_fields_Inr:
  assumes "unpack_fields t ns acc = Inr (fs, t')" "distinct ns" "set ns \<inter> fst ` set acc = {}"
  shows "packed t' = packed t \<and> pos t \<le> pos t' \<and> (pos t \<le> length (packed t) \<longrightarrow> pos t' \<le> length (packed t)) \<and>
    (\<exists>vs. fs = acc @ vs \<and> map fst vs = filter (\<lambda>n. n \<noteq> 1) ns \<and>
       (\<forall>gs b. (\<forall>(n, v) \<in> set vs. fget gs n = v) \<longrightarrow> pos t \<le> length (packed t) \<longrightarrow>
          pack_fields (filter (\<lambda>n. n \<noteq> 1) ns) gs b = Inr (b @ slice (packed t) (pos t) (pos t'))))"
  using assms
proof (induction ns arbitrary: t acc)
  case Nil
  then show ?case by (simp add: slice_def)
next
  case (Cons n ns)
  show ?case
  proof (cases "n = 1")
    case True
    with Cons show ?thesis by auto
  next
    case False
    with Cons.prems obtain v t1 where v: "unpackField t n = Inr (v, t1)"
      and rest: "unpack_fields t1 ns (acc @ [(n, v)]) = Inr (fs, t')"
      by (auto simp: fput_new split: sum.splits)
    note one = packField_unpackField [OF v]
    have dis: "distinct ns" "set ns \<inter> fst ` set (acc @ [(n, v)]) = {}" using Cons.prems by auto
    from Cons.IH [OF rest dis] one obtain vs where p: "packed t' = packed t" "pos t1 \<le> pos t'"
        "pos t' \<le> length (packed t)" and vs: "fs = (acc @ [(n, v)]) @ vs" "map fst vs = filter (\<lambda>n. n \<noteq> 1) ns"
      and pk: "\<And>gs b. \<forall>(n, v) \<in> set vs. fget gs n = v \<Longrightarrow>
          pack_fields (filter (\<lambda>n. n \<noteq> 1) ns) gs b = Inr (b @ slice (packed t) (pos t1) (pos t'))"
      by auto
    have "pack_fields (filter (\<lambda>n. n \<noteq> 1) (n # ns)) gs b = Inr (b @ slice (packed t) (pos t) (pos t'))"
      if g: "\<forall>(n, v) \<in> set ((n, v) # vs). fget gs n = v" for gs b
      using g False one pk [of gs "b @ slice (packed t) (pos t) (pos t1)"] p
      by (simp add: slice_append)
    with False p vs one show ?thesis by (auto intro!: exI [of _ "(n, v) # vs"])
  qed
qed

lemma fget_map_of: "distinct (map fst fs) \<Longrightarrow> (n, v) \<in> set fs \<Longrightarrow> fget fs n = v"
  by (simp add: fget_def)

lemma sortInts_sorted: "sorted_wrt (<) ns \<Longrightarrow> sortInts ns = ns"
  using sortInts_correct [of ns] by (metis sorted_wrt_less_unique set_sortInts distinct_sortInts strict_sorted_iff)

text \<open>\<open>Unpack\<close> followed by \<open>Pack\<close> reproduces the wire, unless the wire announced a secondary
  bitmap with no field in it (which \<open>Pack\<close> leaves out).\<close>

lemma Pack_Unpack:
  assumes "Unpack wire = Inr (mti, fs)"
    and "unpackBitmaps \<lparr>packed = wire, pos = 4\<rparr> = Inr (ns, t2)" "hd ns = 1 \<longrightarrow> (\<exists>n \<in> set ns. n > 64)"
  shows "Pack mti fs = Inr wire"
proof -
  define two where "two \<longleftrightarrow> ns \<noteq> [] \<and> hd ns = 1"
  from assms(1,2) obtain t3 where mti: "4 \<le> length wire" "mti = take 4 wire" "digitsRe mti"
    and uf: "unpack_fields t2 ns [] = Inr (fs, t3)" and e: "pos t3 = length (packed t3)"
    by (auto simp: Unpack_def take_n_Inr split: sum.splits if_splits)
  note bm = unpackBitmaps_Inr [OF assms(2), folded two_def, simplified]
  have dn: "distinct ns" using bm(1) by (simp add: strict_sorted_iff)
  from unpack_fields_Inr [OF uf dn] obtain vs where vs: "fs = vs" "map fst vs = filter (\<lambda>n. n \<noteq> 1) ns"
      and p3: "packed t3 = packed t2" "pos t2 \<le> pos t3"
      and pk: "\<forall>gs b. (\<forall>(n, v) \<in> set vs. fget gs n = v) \<longrightarrow> pos t2 \<le> length (packed t2) \<longrightarrow>
          pack_fields (filter (\<lambda>n. n \<noteq> 1) ns) gs b = Inr (b @ slice (packed t2) (pos t2) (pos t3))"
    by auto
  have "fst ` set fs = set (map fst vs)" using vs(1) by simp
  then have keys: "fst ` set fs = set ns - {1}" unfolding vs(2) by auto
  have dfs: "distinct (map fst fs)" using vs dn by simp
  have one: "1 \<in> set ns \<longleftrightarrow> two"
    using bm(1,2) by (cases ns) (auto simp: two_def)
  have sec: "snd (presenceOf fs) \<longleftrightarrow> two"
    using bm(2) assms(3) one unfolding presenceOf_snd keys by (auto simp: two_def)
  have pres: "fst (presenceOf fs) = (\<lambda>n. n \<in> set ns)"
    using one by (auto simp: presenceOf_fst keys sec)
  have srt: "sortInts (map fst fs) = filter (\<lambda>n. n \<noteq> 1) ns"
    using vs bm(1) by (simp add: sortInts_sorted sorted_wrt_filter)
  have no1: "map_of fs 1 = None" using keys by (simp add: map_of_eq_None_iff)
  have "pack_fields (filter (\<lambda>n. n \<noteq> 1) ns) fs b = Inr (b @ slice wire (pos t2) (length wire))" for b
  proof -
    have "\<forall>(n, v) \<in> set vs. fget fs n = v" using dfs vs(1) by (auto simp: fget_map_of)
    with pk bm(3,5) p3 e show ?thesis by simp
  qed
  then have "Pack mti fs = Inr (take 4 wire @ slice wire 4 (pos t2) @ slice wire (pos t2) (length wire))"
    unfolding Pack_def using mti no1 bm(6)
    by (simp add: case_prod_beta Let_def pres sec srt)
  also have "slice wire 4 (pos t2) @ slice wire (pos t2) (length wire) = drop 4 wire"
    using bm(4,5) slice_append [of 4 "pos t2" "length wire" wire] by (simp add: slice_def)
  finally show ?thesis by simp
qed

section \<open>Independence of the map order\<close>

lemma pack_fields_map_of: "map_of fs = map_of gs \<Longrightarrow> pack_fields ns fs b = pack_fields ns gs b"
  by (induction ns arbitrary: b) (auto simp: fget_def split: sum.splits)

lemma presenceOf_keys:
  assumes "fst ` set fs = fst ` set gs"
  shows "presenceOf fs = presenceOf gs"
proof (rule prod_eqI)
  show s: "snd (presenceOf fs) = snd (presenceOf gs)" using assms by (simp add: presenceOf_snd)
  show "fst (presenceOf fs) = fst (presenceOf gs)"
    using assms s by (auto simp: presenceOf_fst fun_eq_iff)
qed

lemma Pack_map_of:
  assumes "map_of fs = map_of gs" "distinct (map fst fs)" "distinct (map fst gs)"
  shows "Pack mti fs = Pack mti gs"
proof -
  have keys: "fst ` set fs = fst ` set gs" using assms(1) by (metis dom_map_of_conv_image_fst)
  with assms(2,3) have "mset (map fst fs) = mset (map fst gs)"
    by (metis list.set_map set_eq_iff_mset_eq_distinct)
  then have "sortInts (map fst fs) = sortInts (map fst gs)" by (rule sortInts_mset)
  with presenceOf_keys [OF keys] pack_fields_map_of [OF assms(1)] assms(1) show ?thesis
    by (simp add: Pack_def case_prod_beta Let_def)
qed

section \<open>The segmented decoder\<close>

lemma slice_self [simp]: "slice s i i = []"
  by (simp add: slice_def)

lemma unpack_fields_segmented_plain:
  "unpack_fields t ns fs = map_sum id (\<lambda>(fs', segs', t'). (fs', t')) (unpack_fields_segmented t ns fs segs)"
  by (induction ns arbitrary: t fs segs) (auto split: sum.splits)

lemma UnpackSegmented_plain:
  "Unpack wire = map_sum id (\<lambda>(mti, fs, segs). (mti, fs)) (UnpackSegmented wire)"
proof (cases "take_n \<lparr>packed = wire, pos = 0\<rparr> 4 ''MTI''")
  case (Inr r)
  obtain mti t1 where r: "r = (mti, t1)" by fastforce
  show ?thesis
  proof (cases "unpackBitmaps t1")
    case (Inr q)
    obtain ns t2 where q: "q = (ns, t2)" by fastforce
    define segs where "segs = \<lparr>seg_Key = ''mti'', seg_Text = mti\<rparr> #
       \<lparr>seg_Key = ''primaryBitmap'', seg_Text = slice (packed t2) (pos t1) (pos t1 + 16)\<rparr> #
       (if ns \<noteq> [] \<and> hd ns = 1
        then [\<lparr>seg_Key = ''secondaryBitmap'', seg_Text = slice (packed t2) (pos t1 + 16) (pos t1 + 32)\<rparr>] else [])"
    have "unpackBitmapsSegmented t1 = Inr (ns, tl segs, t2)"
      using Inr by (simp add: unpackBitmapsSegmented_def Let_def q segs_def)
    moreover have "\<lparr>seg_Key = ''mti'', seg_Text = mti\<rparr> # tl segs = segs" by (simp add: segs_def)
    ultimately show ?thesis
      using Inr \<open>take_n _ _ _ = _\<close> unpack_fields_segmented_plain [of t2 ns "[]" segs]
      by (cases "unpack_fields_segmented t2 ns [] segs") (auto simp: Unpack_def UnpackSegmented_def r q)
  qed (use Inr in \<open>auto simp: Unpack_def UnpackSegmented_def unpackBitmapsSegmented_def r\<close>)
qed (simp add: Unpack_def UnpackSegmented_def)

lemma unpack_fields_segmented_Inr:
  "unpack_fields_segmented t ns fs segs = Inr (fs', segs', t') \<Longrightarrow> pos t \<le> length (packed t) \<Longrightarrow>
   unpack_fields t ns fs = Inr (fs', t') \<and> packed t' = packed t \<and> pos t \<le> pos t' \<and> pos t' \<le> length (packed t) \<and>
   (\<exists>more. segs' = segs @ more \<and> map seg_Key more = map Itoa (filter (\<lambda>n. n \<noteq> 1) ns) \<and>
      concat (map seg_Text more) = slice (packed t) (pos t) (pos t'))"
proof (induction ns arbitrary: t fs segs)
  case (Cons n ns)
  show ?case
  proof (cases "n = 1")
    case True
    with Cons show ?thesis by simp
  next
    case False
    with Cons.prems obtain v t1 where v: "unpackField t n = Inr (v, t1)"
      and rest: "unpack_fields_segmented t1 ns (fput n v fs)
          (segs @ [\<lparr>seg_Key = Itoa n, seg_Text = slice (packed t1) (pos t) (pos t1)\<rparr>]) = Inr (fs', segs', t')"
      by (auto split: sum.splits)
    note one = packField_unpackField [OF v]
    from Cons.IH [OF rest] one False v show ?thesis by (auto simp: slice_append)
  qed
qed simp

lemma UnpackSegmented_text:
  assumes "UnpackSegmented wire = Inr (mti, fs, segs)"
  shows "concat (map seg_Text segs) = wire"
proof -
  from assms obtain ns t2 bs segs' t3 where mti: "4 \<le> length wire" "mti = take 4 wire"
    and b: "unpackBitmaps \<lparr>packed = wire, pos = 4\<rparr> = Inr (ns, t2)"
    and bs: "bs = \<lparr>seg_Key = ''primaryBitmap'', seg_Text = slice (packed t2) 4 20\<rparr> #
       (if ns \<noteq> [] \<and> hd ns = 1 then [\<lparr>seg_Key = ''secondaryBitmap'', seg_Text = slice (packed t2) 20 36\<rparr>] else [])"
    and u: "unpack_fields_segmented t2 ns [] (\<lparr>seg_Key = ''mti'', seg_Text = mti\<rparr> # bs) = Inr (fs, segs, t3)"
    and e: "pos t3 = length (packed t3)"
    by (auto simp: UnpackSegmented_def unpackBitmapsSegmented_def Let_def take_n_Inr split: sum.splits if_splits)
  note bm = unpackBitmaps_Inr [OF b, simplified]
  from unpack_fields_segmented_Inr [OF u] bm(3,5) obtain more where
    m: "segs = (\<lparr>seg_Key = ''mti'', seg_Text = mti\<rparr> # bs) @ more" "packed t3 = wire"
      "concat (map seg_Text more) = slice wire (pos t2) (pos t3)"
    by auto
  have "concat (map seg_Text bs) = slice wire 4 (pos t2)"
    using bs bm(3-5) slice_append [of 4 20 36 wire] by (auto split: if_splits)
  with m e bm(4,5) slice_append [of 4 "pos t2" "length wire" wire] show ?thesis
    by (auto simp: mti(2) slice_def split: if_splits)
qed

section \<open>Extending the input\<close>

definition extend :: "string \<Rightarrow> taker \<Rightarrow> taker" where
  "extend x t = t\<lparr>packed := packed t @ x\<rparr>"

lemma extend_simps [simp]: "packed (extend x t) = packed t @ x" "pos (extend x t) = pos t"
  by (simp_all add: extend_def)

lemma take_n_extend: "take_n t n what = Inr (s, t') \<Longrightarrow> take_n (extend x t) n what = Inr (s, extend x t')"
  unfolding take_n_Inr by (cases t) (auto simp: extend_def)

lemma unpackLength_extend:
  "unpackLength t n f = Inr (sz, t') \<Longrightarrow> unpackLength (extend x t) n f = Inr (sz, extend x t')"
  unfolding unpackLength_def Let_def
  by (auto simp: take_n_extend split: sum.splits if_splits)

lemma unpackField_extend:
  assumes "unpackField t n = Inr (v, t')"
  shows "unpackField (extend x t) n = Inr (v, extend x t')"
proof -
  from assms obtain f sz t1 where "Fields n = Some f" "unpackLength t n f = Inr (sz, t1)"
    "take_n t1 (if f_Type f = ''b'' then sz * 2 else sz) (''DE '' @ itoa n) = Inr (v, t')" "checkValue f v = None"
    by (auto simp: unpackField_def split: option.splits sum.splits)
  then show ?thesis
    by (simp add: unpackField_def unpackLength_extend take_n_extend del: if_split)
qed

lemma unpackBitmaps_extend:
  "unpackBitmaps t = Inr (ns, t') \<Longrightarrow> unpackBitmaps (extend x t) = Inr (ns, extend x t')"
  unfolding unpackBitmaps_def Let_def
  by (auto simp: take_n_extend split: sum.splits if_splits)

lemma unpack_fields_extend:
  "unpack_fields t ns fs = Inr (r, t') \<Longrightarrow> unpack_fields (extend x t) ns fs = Inr (r, extend x t')"
  by (induction ns arbitrary: t fs) (auto simp: unpackField_extend split: sum.splits if_splits)

lemma Unpack_extend:
  assumes "Unpack wire = Inr (mti, fs)" "x \<noteq> []"
  shows "Unpack (wire @ x) = Inl (cerr ''TRAILING_DATA'' 0 (itoa (int (length x)) @ '' chars after last field''))"
proof -
  from assms(1) obtain t1 ns t2 t3 where 1: "take_n \<lparr>packed = wire, pos = 0\<rparr> 4 ''MTI'' = Inr (mti, t1)" "digitsRe mti"
    and 2: "unpackBitmaps t1 = Inr (ns, t2)" "unpack_fields t2 ns [] = Inr (fs, t3)" "pos t3 = length (packed t3)"
    by (auto simp: Unpack_def split: sum.splits if_splits)
  have "extend x \<lparr>packed = wire, pos = 0\<rparr> = \<lparr>packed = wire @ x, pos = 0\<rparr>" by (simp add: extend_def)
  with take_n_extend [OF 1(1), of x] unpackBitmaps_extend [OF 2(1), of x] unpack_fields_extend [OF 2(2), of x] 1(2) 2(3) assms(2)
  show ?thesis by (simp add: Unpack_def trailing_def)
qed

section \<open>What Pack accepts\<close>

lemma pack_fields_Inr_iff:
  "(\<exists>r. pack_fields ns fs b = Inr r) \<longleftrightarrow>
   (\<forall>n \<in> set ns. \<exists>f. Fields n = Some f \<and> checkValue f (fget fs n) = None)"
proof (induction ns arbitrary: b)
  case (Cons n ns)
  show ?case
    by (cases "packField n (fget fs n)"; cases "Fields n")
      (auto simp: Cons packField_def split: option.splits)
qed simp

lemma Pack_Inr_iff:
  "(\<exists>wire. Pack mti fs = Inr wire) \<longleftrightarrow>
   length mti = 4 \<and> list_all is_digit mti \<and> 1 \<notin> fst ` set fs \<and>
   (\<forall>n \<in> fst ` set fs. \<exists>f. Fields n = Some f \<and> checkValue f (fget fs n) = None)"
  using pack_fields_Inr_iff [of "sortInts (map fst fs)" fs]
  by (auto simp: Pack_def Let_def digitsRe_def map_of_eq_None_iff split: prod.splits)

section \<open>Properties of the codec\<close>

text \<open>C11: \<open>Unpack\<close> inverts \<open>Pack\<close>. Whatever field map \<open>Pack\<close> accepts, unpacking the packed
  characters gives back the MTI and a field map with exactly the same entries.\<close>

theorem Unpack_inverts_Pack:
  assumes "Pack mti fs = Inr wire" "distinct (map fst fs)"
  shows "\<exists>gs. Unpack wire = Inr (mti, gs) \<and> map_of gs = map_of fs"
  using Unpack_Pack [OF assms] map_of_canonical by blast

definition sample_fields :: fields where
  "sample_fields = [(70, ''301''), (11, ''000042''), (7, ''0131142010'')]"

definition sample_wire :: string where
  "sample_wire = ''0800822000000000000004000000000000000131142010000042301''"

lemma sample_Pack: "Pack ''0800'' sample_fields = Inr sample_wire"
  by code_simp

lemma sample_bitmaps:
  "unpackBitmaps \<lparr>packed = sample_wire, pos = 4\<rparr> = Inr ([1, 7, 11, 70], \<lparr>packed = sample_wire, pos = 36\<rparr>)"
  by code_simp

theorem Unpack_inverts_Pack_witness:
  "\<exists>gs. Unpack sample_wire = Inr (''0800'', gs) \<and> map_of gs = map_of sample_fields"
  by (rule Unpack_inverts_Pack [OF sample_Pack]) (simp add: sample_fields_def)

text \<open>C22: \<open>Pack\<close> inverts \<open>Unpack\<close>. A wire that unpacks packs back to the very same characters,
  provided a secondary bitmap, when announced, holds at least one field.\<close>

theorem Pack_inverts_Unpack:
  assumes "Unpack wire = Inr (mti, fs)"
    and "unpackBitmaps \<lparr>packed = wire, pos = 4\<rparr> = Inr (ns, t2)"
    and "hd ns = 1 \<longrightarrow> (\<exists>n \<in> set ns. n > 64)"
  shows "Pack mti fs = Inr wire"
  by (rule Pack_Unpack [OF assms])

theorem Pack_inverts_Unpack_witness:
  "Pack ''0800'' [(7, ''0131142010''), (11, ''000042''), (70, ''301'')] = Inr sample_wire"
proof (rule Pack_inverts_Unpack)
  show "Unpack sample_wire = Inr (''0800'', [(7, ''0131142010''), (11, ''000042''), (70, ''301'')])"
    by code_simp
qed (rule sample_bitmaps, simp)

text \<open>C29: the packed message does not depend on the iteration order of the Go map: two
  duplicate-free lists with the same entries pack to the same result, errors included.\<close>

theorem Pack_order_independent:
  assumes "map_of fs = map_of gs" "distinct (map fst fs)" "distinct (map fst gs)"
  shows "Pack mti fs = Pack mti gs"
  by (rule Pack_map_of [OF assms])

theorem Pack_order_independent_witness:
  "Pack ''0800'' [(11, ''000042''), (70, ''301'')] = Pack ''0800'' [(70, ''301''), (11, ''000042'')]"
  by (rule Pack_order_independent) auto

text \<open>C30: the lab's segmented decoder returns exactly what \<open>Unpack\<close> returns, errors included, and
  on success its segments, in order, concatenate to the whole wire: no character is lost or shown twice.\<close>

theorem UnpackSegmented_agrees:
  "case UnpackSegmented wire of
     Inl e \<Rightarrow> Unpack wire = Inl e
   | Inr (mti, fs, segs) \<Rightarrow> Unpack wire = Inr (mti, fs) \<and> concat (map seg_Text segs) = wire"
  using UnpackSegmented_plain [of wire] UnpackSegmented_text [of wire]
  by (auto split: sum.splits)

text \<open>C31: the wire format is prefix free. A message that unpacks, followed by any further
  characters, is rejected as \<open>TRAILING_DATA\<close> with the number of surplus characters; so no proper
  prefix of an accepted message is accepted.\<close>

theorem Unpack_prefix_free:
  assumes "Unpack wire = Inr (mti, fs)" "x \<noteq> []"
  shows "Unpack (wire @ x) = Inl (cerr ''TRAILING_DATA'' 0 (itoa (int (length x)) @ '' chars after last field''))"
  by (rule Unpack_extend [OF assms])

theorem Unpack_prefix_free_witness:
  "Unpack (sample_wire @ ''99'') = Inl (cerr ''TRAILING_DATA'' 0 ''2 chars after last field'')"
proof -
  have "Unpack sample_wire = Inr (''0800'', [(7, ''0131142010''), (11, ''000042''), (70, ''301'')])"
    by code_simp
  moreover have "itoa (int (length ''99'')) = ''2''" by code_simp
  ultimately show ?thesis using Unpack_prefix_free [of sample_wire _ _ "''99''"] by simp
qed



end
