(* ===== verification/Isonet.thy ===== *)
theory Isonet
  imports Iso_Codec
begin

text \<open>
  The transport helpers of \<open>src/gateway-go/internal/isonet\<close>: the length-prefixed framer
  (\<open>framer.go\<close>), the reconnect backoff (\<open>backoff.go\<close>), the latency window behind p99
  (\<open>latency.go\<close>) and the STAN counter of \<open>mux.go\<close>. A writer is a record of what has been
  written and a script of the coming \<open>Write\<close> results, so that every error branch is reachable.
\<close>

section \<open>Framer\<close>

type_synonym bytes = "8 word list"

definition maxFrameSize :: nat where "maxFrameSize = 4096"

text \<open>\<open>Some k\<close> in the script: the next \<open>Write\<close> stores only \<open>k\<close> bytes and fails.\<close>

record writer =
  wr_out :: bytes
  wr_script :: "nat option list"

definition io_Write :: "writer \<Rightarrow> bytes \<Rightarrow> bool \<times> writer" where
  "io_Write w b =
     (case wr_script w of
        Some k # rest \<Rightarrow> (False, w\<lparr>wr_out := wr_out w @ take k b, wr_script := rest\<rparr>)
      | None # rest \<Rightarrow> (True, w\<lparr>wr_out := wr_out w @ b, wr_script := rest\<rparr>)
      | [] \<Rightarrow> (True, w\<lparr>wr_out := wr_out w @ b\<rparr>))"

text \<open>\<open>io.ReadFull\<close> on the rest of a stream that ends after its last byte.\<close>

definition io_ReadFull :: "bytes \<Rightarrow> nat \<Rightarrow> (bytes \<times> bytes) option" where
  "io_ReadFull r n = (if n \<le> length r then Some (take n r, drop n r) else None)"

definition PutUint16 :: "16 word \<Rightarrow> bytes" where
  "PutUint16 v = [ucast (drop_bit 8 v), ucast v]"

definition Uint16 :: "bytes \<Rightarrow> 16 word" where
  "Uint16 b = push_bit 8 (ucast (b ! 0)) OR ucast (b ! 1)"

datatype frame_error = FrameTooLarge nat | FrameHeader | FramePayload

definition WriteFrame :: "writer \<Rightarrow> bytes \<Rightarrow> frame_error option \<times> writer" where
  "WriteFrame w payload =
     (if length payload > maxFrameSize then (Some (FrameTooLarge (length payload)), w)
      else let (ok, w1) = io_Write w (PutUint16 (of_nat (length payload))) in
        if \<not> ok then (Some FrameHeader, w1)
        else let (ok2, w2) = io_Write w1 payload in
          if \<not> ok2 then (Some FramePayload, w2) else (None, w2))"

definition ReadFrame :: "bytes \<Rightarrow> frame_error + (bytes \<times> bytes)" where
  "ReadFrame r =
     (case io_ReadFull r 2 of
        None \<Rightarrow> Inl FrameHeader
      | Some (header, r1) \<Rightarrow>
          let sz = unat (Uint16 header) in
          if sz > maxFrameSize then Inl (FrameTooLarge sz)
          else (case io_ReadFull r1 sz of
                  None \<Rightarrow> Inl FramePayload
                | Some (payload, r2) \<Rightarrow> Inr (payload, r2)))"

section \<open>Backoff\<close>

text \<open>\<open>time.Duration\<close> is an \<open>int64\<close>: doubling wraps around.\<close>

definition wrap64 :: "int \<Rightarrow> int" where
  "wrap64 n = (n + 2 ^ 63) mod 2 ^ 64 - 2 ^ 63"

record Backoff =
  bo_Base :: int
  bo_Cap :: int

fun ceiling_loop :: "Backoff \<Rightarrow> nat \<Rightarrow> int \<Rightarrow> int" where
  "ceiling_loop b 0 d = d"
| "ceiling_loop b (Suc i) d =
     (let d' = wrap64 (d * 2) in if d' \<ge> bo_Cap b then bo_Cap b else ceiling_loop b i d')"

definition ceiling :: "Backoff \<Rightarrow> int \<Rightarrow> int" where
  "ceiling b attempt = ceiling_loop b (nat attempt) (bo_Base b)"

text \<open>\<open>rand\<close> stands for \<open>rand.Int64N\<close>, which returns a number in \<open>[0, n)\<close> for a positive \<open>n\<close>.\<close>

definition Delay :: "(int \<Rightarrow> int) \<Rightarrow> Backoff \<Rightarrow> int \<Rightarrow> int" where
  "Delay rand b attempt =
     (let c = ceiling b attempt in if c \<le> 0 then 0 else rand c)"

section \<open>Latency window\<close>

definition latencyWindowSize :: nat where "latencyWindowSize = 1000"

record latencyWindow =
  lw_samples :: "int list"
  lw_next :: nat
  lw_count :: nat

definition empty_window :: latencyWindow where
  "empty_window = \<lparr>lw_samples = replicate latencyWindowSize 0, lw_next = 0, lw_count = 0\<rparr>"

definition lw_add :: "latencyWindow \<Rightarrow> int \<Rightarrow> latencyWindow" where
  "lw_add w d =
     w\<lparr>lw_samples := (lw_samples w)[lw_next w := d],
       lw_next := (lw_next w + 1) mod latencyWindowSize,
       lw_count := min (lw_count w + 1) latencyWindowSize\<rparr>"

text \<open>\<open>Duration.Milliseconds\<close> divides nanoseconds, truncating towards zero.\<close>

definition Milliseconds :: "int \<Rightarrow> int" where
  "Milliseconds d = (if d < 0 then - ((- d) div 1000000) else d div 1000000)"

definition p99Ms :: "latencyWindow \<Rightarrow> int option" where
  "p99Ms w =
     (let sorted = sort (take (lw_count w) (lw_samples w)) in
      if length sorted = 0 then None
      else let rank = (length sorted * 99 + 99) div 100 in Some (Milliseconds (sorted ! (rank - 1))))"

section \<open>STAN counter\<close>

text \<open>The counter is an \<open>atomic.Int64\<close>; Go's remainder keeps the sign of the dividend.\<close>

definition go_rem :: "int \<Rightarrow> int \<Rightarrow> int" where
  "go_rem a b = (if a < 0 then - ((- a) mod b) else a mod b)"

definition NextSTAN :: "int \<Rightarrow> string \<times> int" where
  "NextSTAN stan = (let s = wrap64 (stan + 1) in (fmt_0d 6 (go_rem s 1000000), s))"

section \<open>Framer lemmas\<close>

lemma Uint16_PutUint16: "Uint16 (PutUint16 v) = v"
  by (rule bit_word_eqI) (auto simp: Uint16_def PutUint16_def bit_simps)

lemma length_PutUint16 [simp]: "length (PutUint16 v) = 2"
  by (simp add: PutUint16_def)

lemma ReadFrame_frame:
  assumes "length p \<le> maxFrameSize"
  shows "ReadFrame (PutUint16 (of_nat (length p)) @ p @ rest) = Inr (p, rest)"
proof -
  have "unat (of_nat (length p) :: 16 word) = length p"
    using assms by (simp add: maxFrameSize_def unat_of_nat take_bit_nat_eq_self)
  with assms show ?thesis
    by (simp add: ReadFrame_def io_ReadFull_def Uint16_PutUint16 Let_def)
qed

lemma WriteFrame_None:
  "WriteFrame w p = (None, w') \<Longrightarrow>
   length p \<le> maxFrameSize \<and> wr_out w' = wr_out w @ PutUint16 (of_nat (length p)) @ p"
  by (auto simp: WriteFrame_def io_Write_def Let_def split: if_splits list.splits option.splits)

fun write_frames :: "writer \<Rightarrow> bytes list \<Rightarrow> frame_error option \<times> writer" where
  "write_frames w [] = (None, w)"
| "write_frames w (p # ps) =
     (case WriteFrame w p of (Some e, w1) \<Rightarrow> (Some e, w1) | (None, w1) \<Rightarrow> write_frames w1 ps)"

fun read_frames :: "nat \<Rightarrow> bytes \<Rightarrow> frame_error + (bytes list \<times> bytes)" where
  "read_frames 0 r = Inr ([], r)"
| "read_frames (Suc n) r =
     (case ReadFrame r of
        Inl e \<Rightarrow> Inl e
      | Inr (p, r1) \<Rightarrow> (case read_frames n r1 of Inl e \<Rightarrow> Inl e | Inr (ps, r2) \<Rightarrow> Inr (p # ps, r2)))"

lemma read_write_frames:
  "write_frames w ps = (None, w') \<Longrightarrow>
   \<exists>s. wr_out w' = wr_out w @ s \<and> read_frames (length ps) (s @ rest) = Inr (ps, rest)"
proof (induction ps arbitrary: w)
  case (Cons p ps)
  then obtain w1 where w1: "WriteFrame w p = (None, w1)" "write_frames w1 ps = (None, w')"
    by (auto split: prod.splits option.splits)
  from Cons.IH [OF w1(2)] obtain s where s: "wr_out w' = wr_out w1 @ s" "read_frames (length ps) (s @ rest) = Inr (ps, rest)"
    by blast
  from WriteFrame_None [OF w1(1)] s ReadFrame_frame [of p "s @ rest"] show ?case
    by (intro exI [of _ "PutUint16 (of_nat (length p)) @ p @ s"]) simp
qed simp

section \<open>Backoff lemmas\<close>

lemma wrap64_id: "- (2 ^ 63) \<le> n \<Longrightarrow> n < 2 ^ 63 \<Longrightarrow> wrap64 n = n"
  by (simp add: wrap64_def)

lemma ceiling_loop_min:
  "0 < d \<Longrightarrow> d \<le> bo_Cap b \<Longrightarrow> bo_Cap b < 2 ^ 62 \<Longrightarrow> ceiling_loop b n d = min (bo_Cap b) (d * 2 ^ n)"
proof (induction n arbitrary: d)
  case (Suc n)
  then have w: "wrap64 (d * 2) = d * 2" by (simp add: wrap64_id)
  show ?case
  proof (cases "bo_Cap b \<le> d * 2")
    case True
    have "d * 2 * 1 \<le> d * 2 * 2 ^ n" using Suc.prems(1) by (intro mult_left_mono) auto
    then have "d * 2 \<le> d * (2 * 2 ^ n)" by simp
    with True w show ?thesis by (simp add: min_def)
  next
    case False
    with Suc w show ?thesis by (simp add: mult.assoc)
  qed
qed simp

section \<open>Latency window lemmas\<close>

text \<open>The abstract window is the list of the newest \<open>latencyWindowSize\<close> samples; the ring buffer
  holds exactly these.\<close>

definition newest :: "int list \<Rightarrow> int list" where
  "newest hist = drop (length hist - latencyWindowSize) hist"

definition ring_of :: "int list \<Rightarrow> latencyWindow \<Rightarrow> bool" where
  "ring_of hist w \<longleftrightarrow>
     length (lw_samples w) = latencyWindowSize \<and> lw_count w = min (length hist) latencyWindowSize \<and>
     lw_next w = length hist mod latencyWindowSize \<and>
     (\<forall>k < length hist. length hist - k \<le> latencyWindowSize \<longrightarrow>
        lw_samples w ! (k mod latencyWindowSize) = hist ! k)"

lemma window_pos [simp]: "0 < latencyWindowSize"
  by (simp add: latencyWindowSize_def)

lemma ring_of_empty: "ring_of [] empty_window"
  by (simp add: ring_of_def empty_window_def)

lemma mod_window_inj:
  fixes x y N :: nat
  assumes "x mod N = y mod N" "x < y + N" "y < x + N"
  shows "x = y"
proof -
  have "u = v" if "u \<le> v" "v < u + N" "u mod N = v mod N" for u v :: nat
  proof -
    have "N dvd v - u" using that by (metis mod_eq_dvd_iff_nat)
    moreover have "v - u < N" using that by linarith
    ultimately have "v - u = 0" using nat_dvd_not_less by blast
    with that show ?thesis by simp
  qed
  with assms show ?thesis by (metis nat_le_linear)
qed

lemma ring_of_add:
  assumes "ring_of hist w"
  shows "ring_of (hist @ [d]) (lw_add w d)"
proof -
  let ?N = latencyWindowSize and ?n = "length hist"
  from assms have r: "length (lw_samples w) = ?N" "lw_count w = min ?n ?N" "lw_next w = ?n mod ?N"
    "\<And>k. k < ?n \<Longrightarrow> ?n - k \<le> ?N \<Longrightarrow> lw_samples w ! (k mod ?N) = hist ! k"
    by (auto simp: ring_of_def)
  have slot: "(lw_samples w)[?n mod ?N := d] ! (k mod ?N) = (hist @ [d]) ! k"
    if k: "k < Suc ?n" "Suc ?n - k \<le> ?N" for k
  proof (cases "k = ?n")
    case True
    then show ?thesis using r(1) by simp
  next
    case False
    with k have lt: "k < ?n" "?n - k < ?N" by auto
    have "k mod ?N \<noteq> ?n mod ?N"
      using mod_window_inj [of k ?N ?n] lt by linarith
    with r(4) [of k] lt show ?thesis by (simp add: nth_append)
  qed
  show ?thesis
    using r slot by (auto simp: ring_of_def lw_add_def mod_Suc_eq)
qed

lemma ring_of_fold: "ring_of hist (foldl lw_add empty_window hist)"
  by (induction hist rule: rev_induct) (simp_all add: ring_of_empty ring_of_add)

lemma ring_of_mset:
  assumes "ring_of hist w"
  shows "mset (take (lw_count w) (lw_samples w)) = mset (newest hist)"
proof -
  let ?N = latencyWindowSize and ?n = "length hist"
  from assms have r: "length (lw_samples w) = ?N" "lw_count w = min ?n ?N"
    "\<And>k. k < ?n \<Longrightarrow> ?n - k \<le> ?N \<Longrightarrow> lw_samples w ! (k mod ?N) = hist ! k"
    by (auto simp: ring_of_def)
  show ?thesis
  proof (cases "?n \<le> ?N")
    case True
    have "take ?n (lw_samples w) = hist"
    proof (rule nth_equalityI)
      fix i assume "i < length (take ?n (lw_samples w))"
      with True r(1) have "i < ?n" "i mod ?N = i" by auto
      with r(3) [of i] True show "take ?n (lw_samples w) ! i = hist ! i" by simp
    qed (use True r(1) in simp)
    with True r(2) show ?thesis by (simp add: newest_def min_absorb1)
  next
    case False
    define a where "a = ?n - ?N"
    have "newest hist = map ((!) hist) [a..<a + ?N]"
      using False by (intro nth_equalityI) (auto simp: newest_def a_def)
    also have "\<dots> = map (\<lambda>k. lw_samples w ! (k mod ?N)) [a..<a + ?N]"
      using r(3) False by (intro map_cong) (auto simp: a_def)
    also have "mset \<dots> = image_mset ((!) (lw_samples w)) (mset (map (\<lambda>k. k mod ?N) [a..<a + ?N]))"
      by (simp add: multiset.map_comp comp_def)
    also have "mset (map (\<lambda>k. k mod ?N) [a..<a + ?N]) = mset [0..<?N]"
    proof (rule set_eq_iff_mset_eq_distinct [THEN iffD1])
      show d: "distinct (map (\<lambda>k. k mod ?N) [a..<a + ?N])"
      proof -
        have "inj_on (\<lambda>k. k mod ?N) {a..<a + ?N}"
        proof (rule inj_onI)
          fix x y assume "x \<in> {a..<a + ?N}" "y \<in> {a..<a + ?N}" "x mod ?N = y mod ?N"
          then show "x = y" by (intro mod_window_inj [of x ?N y]) auto
        qed
        then show ?thesis by (simp add: distinct_map)
      qed
      show "distinct [0..<?N]" by simp
      have "set (map (\<lambda>k. k mod ?N) [a..<a + ?N]) \<subseteq> set [0..<?N]" by auto
      moreover have "card (set (map (\<lambda>k. k mod ?N) [a..<a + ?N])) = card (set [0..<?N])"
        using d by (simp only: distinct_card length_map length_upt distinct_upt)
      ultimately show "set (map (\<lambda>k. k mod ?N) [a..<a + ?N]) = set [0..<?N]"
        by (intro card_subset_eq) auto
    qed
    also have "image_mset ((!) (lw_samples w)) (mset [0..<?N]) = mset (lw_samples w)"
      by (metis map_nth mset_map r(1))
    finally show ?thesis using r(1,2) False by simp
  qed
qed

lemma sorted_rank:
  assumes "sorted xs" "r < length xs"
  shows "length (filter (\<lambda>x. x \<le> xs ! r) xs) \<ge> Suc r" and "length (filter (\<lambda>x. x < xs ! r) xs) \<le> r"
proof -
  have split: "xs = take (Suc r) xs @ drop (Suc r) xs" "xs = take r xs @ drop r xs" by simp_all
  have "filter (\<lambda>x. x \<le> xs ! r) (take (Suc r) xs) = take (Suc r) xs"
    using assms by (auto simp: filter_id_conv set_conv_nth sorted_iff_nth_mono)
  then have "Suc r \<le> length (filter (\<lambda>x. x \<le> xs ! r) (take (Suc r) xs))" using assms(2) by simp
  also have "\<dots> \<le> length (filter (\<lambda>x. x \<le> xs ! r) xs)"
    by (subst (3) split(1)) (simp del: append_take_drop_id)
  finally show "length (filter (\<lambda>x. x \<le> xs ! r) xs) \<ge> Suc r" .
  have "filter (\<lambda>x. x < xs ! r) (drop r xs) = []"
    using assms by (auto simp: filter_empty_conv set_conv_nth sorted_iff_nth_mono not_less)
  then have "length (filter (\<lambda>x. x < xs ! r) xs) = length (filter (\<lambda>x. x < xs ! r) (take r xs))"
    by (subst (2) split(2)) (simp del: append_take_drop_id)
  also have "\<dots> \<le> r" using length_filter_le [of _ "take r xs"] by (metis le_trans length_take min.cobounded2)
  finally show "length (filter (\<lambda>x. x < xs ! r) xs) \<le> r" .
qed

lemma p99Ms_rank:
  assumes "ring_of hist w" "hist \<noteq> []"
  shows "\<exists>v. p99Ms w = Some (Milliseconds v) \<and> v \<in> set (newest hist) \<and>
     99 * length (newest hist) \<le> 100 * length (filter (\<lambda>x. x \<le> v) (newest hist)) \<and>
     100 * length (filter (\<lambda>x. x < v) (newest hist)) < 99 * length (newest hist)"
proof -
  define xs where "xs = sort (take (lw_count w) (lw_samples w))"
  define n where "n = length (newest hist)"
  have ms: "mset xs = mset (newest hist)" using ring_of_mset [OF assms(1)] by (simp add: xs_def)
  then have len: "length xs = n" by (metis n_def size_mset)
  have n: "0 < n" using assms(2) by (simp add: n_def newest_def)
  define r where "r = (n * 99 + 99) div 100 - 1"
  have r: "r < n" "99 * n \<le> 100 * Suc r" "100 * r < 99 * n" using n by (auto simp: r_def)
  have filt: "length (filter P xs) = length (filter P (newest hist))" for P
    using ms by (metis mset_filter size_mset)
  have "p99Ms w = Some (Milliseconds (xs ! r))"
    unfolding p99Ms_def xs_def [symmetric] using len n by (auto simp: Let_def r_def)
  moreover have "xs ! r \<in> set (newest hist)" using r(1) len ms by (metis nth_mem set_mset_mset)
  moreover have "Suc r \<le> length (filter (\<lambda>x. x \<le> xs ! r) (newest hist))"
    "length (filter (\<lambda>x. x < xs ! r) (newest hist)) \<le> r"
    using sorted_rank [of xs r] r(1) len by (simp_all add: filt xs_def [symmetric] sorted_sort) (simp_all add: xs_def)
  ultimately show ?thesis using r(2,3) by (intro exI [of _ "xs ! r"]) (auto simp: n_def)
qed

section \<open>STAN lemmas\<close>

fun issue_stans :: "nat \<Rightarrow> int \<Rightarrow> string list" where
  "issue_stans 0 s = []"
| "issue_stans (Suc n) s = (let (x, s') = NextSTAN s in x # issue_stans n s')"

lemma NextSTAN_eq:
  assumes "0 \<le> s" "s < 2 ^ 63 - 1"
  shows "NextSTAN s = (pad_left 6 (Itoa ((s + 1) mod 1000000)), s + 1)"
proof -
  have "\<not> (s + 1) mod 1000000 < 0" by (simp add: not_less)
  with assms show ?thesis by (simp add: NextSTAN_def wrap64_id go_rem_def fmt_0d_def Let_def)
qed

lemma issue_stans_eq:
  "0 \<le> s \<Longrightarrow> s + int n < 2 ^ 63 \<Longrightarrow>
   issue_stans n s = map (\<lambda>k. pad_left 6 (Itoa ((s + int k + 1) mod 1000000))) [0..<n]"
proof (induction n arbitrary: s)
  case (Suc n)
  have "map (\<lambda>k. pad_left 6 (Itoa ((s + 1 + int k + 1) mod 1000000))) [0..<n]
      = map (\<lambda>k. pad_left 6 (Itoa ((s + int k + 1) mod 1000000))) [1..<Suc n]"
    by (simp only: map_Suc_upt [symmetric] One_nat_def map_map comp_def of_nat_Suc) (simp add: algebra_simps)
  with Suc show ?case by (simp add: NextSTAN_eq upt_conv_Cons del: upt_Suc)
qed simp

lemma pad6_inject:
  "0 \<le> a \<Longrightarrow> a < 1000000 \<Longrightarrow> 0 \<le> b \<Longrightarrow> b < 1000000 \<Longrightarrow> pad_left 6 (Itoa a) = pad_left 6 (Itoa b) \<Longrightarrow> a = b"
  by (metis Atoi_Itoa Atoi_pad_left)

lemma pad6_shape:
  "0 \<le> a \<Longrightarrow> a < 1000000 \<Longrightarrow> length (pad_left 6 (Itoa a)) = 6 \<and> list_all is_digit (pad_left 6 (Itoa a))"
  using length_Itoa [of a 6] by simp

lemma issue_stans_distinct:
  assumes "0 \<le> s" "s + int n < 2 ^ 63" "n \<le> 1000000"
  shows "distinct (issue_stans n s)"
proof -
  have "inj_on (\<lambda>k. pad_left 6 (Itoa ((s + int k + 1) mod 1000000))) {0..<n}"
  proof (rule inj_onI)
    fix i j assume ij: "i \<in> {0..<n}" "j \<in> {0..<n}"
      "pad_left 6 (Itoa ((s + int i + 1) mod 1000000)) = pad_left 6 (Itoa ((s + int j + 1) mod 1000000))"
    then have "(s + int i + 1) mod 1000000 = (s + int j + 1) mod 1000000"
      by (intro pad6_inject) auto
    then have "1000000 dvd (s + int i + 1) - (s + int j + 1)" by (simp add: mod_eq_dvd_iff)
    then have "1000000 dvd int i - int j" by simp
    moreover have "\<bar>int i - int j\<bar> < 1000000" using ij assms(3) by auto
    ultimately show "i = j" using zdvd_not_zless [of "\<bar>int i - int j\<bar>" 1000000] by auto
  qed
  then show ?thesis using assms by (simp add: issue_stans_eq distinct_map)
qed

section \<open>Properties of the transport helpers\<close>

text \<open>C33: any number of frames written without an error is read back in order, each payload intact,
  and the reader stops exactly at the bytes that follow the last frame.\<close>

theorem frames_roundtrip:
  assumes "write_frames w ps = (None, w')"
  shows "\<exists>s. wr_out w' = wr_out w @ s \<and> read_frames (length ps) (s @ rest) = Inr (ps, rest)"
  by (rule read_write_frames [OF assms])

theorem frames_roundtrip_witness:
  "\<exists>s. wr_out (snd (write_frames \<lparr>wr_out = [], wr_script = []\<rparr> [[48, 56], []])) = [] @ s \<and>
       read_frames 2 (s @ [1, 2, 3]) = Inr ([[48, 56], []], [1, 2, 3])"
proof -
  have "write_frames \<lparr>wr_out = [], wr_script = []\<rparr> [[48, 56], []]
      = (None, snd (write_frames \<lparr>wr_out = [], wr_script = []\<rparr> [[48, 56], []]))"
    by (simp add: WriteFrame_def io_Write_def maxFrameSize_def Let_def)
  from frames_roundtrip [OF this, of "[1, 2, 3]"] show ?thesis by (simp add: numeral_2_eq_2)
qed

text \<open>C34: with a positive base not above the cap, and a cap below \<open>2 ^ 62\<close> nanoseconds, the jitter
  ceiling is \<open>min cap (base * 2 ^ attempt)\<close>: the doubling never wraps and the loop never exceeds the
  cap; the delay is drawn below it.\<close>

theorem backoff_ceiling:
  assumes "0 < bo_Base b" "bo_Base b \<le> bo_Cap b" "bo_Cap b < 2 ^ 62" "\<forall>n > 0. 0 \<le> rand n \<and> rand n < n"
  shows "ceiling b attempt = min (bo_Cap b) (bo_Base b * 2 ^ nat attempt) \<and>
     0 \<le> Delay rand b attempt \<and> Delay rand b attempt < min (bo_Cap b) (bo_Base b * 2 ^ nat attempt)"
proof -
  have c: "ceiling b attempt = min (bo_Cap b) (bo_Base b * 2 ^ nat attempt)"
    unfolding ceiling_def by (rule ceiling_loop_min) (use assms in auto)
  have "0 < min (bo_Cap b) (bo_Base b * 2 ^ nat attempt)" using assms by auto
  with assms(4) c show ?thesis
    by (simp add: Delay_def Let_def del: min_less_iff_conj)
qed

theorem backoff_ceiling_witness:
  "ceiling \<lparr>bo_Base = 1000000000, bo_Cap = 30000000000\<rparr> 7 = 30000000000 \<and>
   Delay (\<lambda>n. n - 1) \<lparr>bo_Base = 1000000000, bo_Cap = 30000000000\<rparr> 2 < 4000000000"
  using backoff_ceiling [of "\<lparr>bo_Base = 1000000000, bo_Cap = 30000000000\<rparr>" "\<lambda>n. n - 1" 7]
    backoff_ceiling [of "\<lparr>bo_Base = 1000000000, bo_Cap = 30000000000\<rparr>" "\<lambda>n. n - 1" 2]
  by simp

text \<open>C35: the ring buffer behind \<open>p99LatencyMs\<close> refines the list of the newest 1000 samples, and the
  reported figure is their nearest-rank 99th percentile: a sample such that at least 99% of the
  window is at most it and less than 99% is below it.\<close>

theorem p99_nearest_rank:
  assumes "hist \<noteq> []"
  shows "\<exists>v. p99Ms (foldl lw_add empty_window hist) = Some (Milliseconds v) \<and> v \<in> set (newest hist) \<and>
     99 * length (newest hist) \<le> 100 * length (filter (\<lambda>x. x \<le> v) (newest hist)) \<and>
     100 * length (filter (\<lambda>x. x < v) (newest hist)) < 99 * length (newest hist)"
  by (rule p99Ms_rank [OF ring_of_fold assms])

theorem p99_nearest_rank_witness:
  "\<exists>v. p99Ms (foldl lw_add empty_window [5000000, 9000000]) = Some (Milliseconds v) \<and> v \<in> {5000000, 9000000}"
proof -
  have "newest [5000000, 9000000] = [5000000, 9000000]" by (simp add: newest_def latencyWindowSize_def)
  then show ?thesis using p99_nearest_rank [of "[5000000, 9000000]"] by auto
qed

text \<open>Within one cycle of a million, no STAN is issued twice, and every STAN is six digits.\<close>

theorem stans_distinct:
  assumes "0 \<le> s" "s + int n < 2 ^ 63" "n \<le> 1000000"
  shows "distinct (issue_stans n s) \<and> (\<forall>x \<in> set (issue_stans n s). length x = 6 \<and> list_all is_digit x)"
proof
  show "distinct (issue_stans n s)" by (rule issue_stans_distinct [OF assms])
  show "\<forall>x \<in> set (issue_stans n s). length x = 6 \<and> list_all is_digit x"
    unfolding issue_stans_eq [OF assms(1,2)] using pad6_shape by auto
qed

theorem stans_distinct_witness: "distinct (issue_stans 3 999998)"
  using stans_distinct [of 999998 3] by simp

text \<open>The counter does issue the STAN \<open>000000\<close>, right after \<open>999999\<close>; the interface
  specification's sequence is \<open>000001\<close> to \<open>999999\<close>.\<close>

theorem stan_zero_issued: "issue_stans 3 999998 = [''999999'', ''000000'', ''000001'']"
  by code_simp

end
