(* ===== verification/Isonet_Mux.thy ===== *)
theory Isonet_Mux
  imports Isonet
begin

text \<open>
  The request multiplexer of \<open>src/gateway-go/internal/isonet/mux.go\<close> as a state machine. Every call of
  \<open>Send\<close> is a numbered caller with its own one-slot channel; the callers, their detached
  writer goroutines and the single \<open>Serve\<close> goroutine interleave arbitrarily. One step is one
  critical section or one channel operation of the code. The theorems: a response is only ever
  returned to the caller whose (STAN, DE 7) it carries, and it came from the wire; a second response for a
  caller that has given up blocks \<open>Serve\<close> for good.
\<close>

section \<open>State\<close>

type_synonym muxKey = "string \<times> string"

datatype mux_error = MuxPack CodecError | MuxWrite | MuxCtx

text \<open>Where a caller of \<open>Send\<close> is: not started, registered, its frame handed to the writer,
  waiting for its channel, returned.\<close>

datatype send_phase = NotStarted | Registered | Writing | Waiting | Returned "mux_error + fields"

datatype serve_phase = Reading | Blocked nat fields | Ended

record mux =
  mx_pending :: "(muxKey \<times> nat) list"
  mx_chan :: "nat \<Rightarrow> fields option"
  mx_phase :: "nat \<Rightarrow> send_phase"
  mx_req :: "nat \<Rightarrow> string \<times> fields"
  mx_writer :: "nat \<Rightarrow> string option"
  mx_out :: "string list"
  mx_in :: "string list"
  mx_late :: "(string \<times> fields) list"
  mx_serve :: serve_phase

definition NewMux :: mux where
  "NewMux = \<lparr>mx_pending = [], mx_chan = (\<lambda>_. None), mx_phase = (\<lambda>_. NotStarted), mx_req = (\<lambda>_. ('''', [])),
     mx_writer = (\<lambda>_. None), mx_out = [], mx_in = [], mx_late = [], mx_serve = Reading\<rparr>"

definition key_of :: "fields \<Rightarrow> muxKey" where
  "key_of fs = (fget fs 11, fget fs 7)"

definition Pending :: "mux \<Rightarrow> nat" where
  "Pending m = length (mx_pending m)"

section \<open>The steps of Send\<close>

text \<open>\<open>m.pending[key] = ch\<close>, with a fresh channel.\<close>

definition send_register :: "nat \<Rightarrow> string \<Rightarrow> fields \<Rightarrow> mux \<Rightarrow> mux option" where
  "send_register i mti fs m =
     (if mx_phase m i = NotStarted
      then Some (m\<lparr>mx_pending := AList.update (key_of fs) i (mx_pending m),
                   mx_chan := (mx_chan m)(i := None), mx_req := (mx_req m)(i := (mti, fs)),
                   mx_phase := (mx_phase m)(i := Registered)\<rparr>)
      else None)"

text \<open>Returning runs the deferred \<open>delete(m.pending, key)\<close>, whoever owns the entry by then.\<close>

definition send_return :: "nat \<Rightarrow> (mux_error + fields) \<Rightarrow> mux \<Rightarrow> mux" where
  "send_return i r m =
     m\<lparr>mx_pending := AList.delete (key_of (snd (mx_req m i))) (mx_pending m),
       mx_phase := (mx_phase m)(i := Returned r)\<rparr>"

definition send_pack :: "nat \<Rightarrow> mux \<Rightarrow> mux option" where
  "send_pack i m =
     (if mx_phase m i = Registered
      then Some (case Pack (fst (mx_req m i)) (snd (mx_req m i)) of
                   Inl e \<Rightarrow> send_return i (Inl (MuxPack e)) m
                 | Inr wire \<Rightarrow> m\<lparr>mx_writer := (mx_writer m)(i := Some wire),
                                    mx_phase := (mx_phase m)(i := Writing)\<rparr>)
      else None)"

text \<open>The writer goroutine writes its frame (or fails) and reports on \<open>writeDone\<close>; when the caller
  has already left through \<open>ctx.Done\<close> nobody reads the report.\<close>

definition send_written :: "nat \<Rightarrow> bool \<Rightarrow> mux \<Rightarrow> mux option" where
  "send_written i ok m =
     (case mx_writer m i of
        None \<Rightarrow> None
      | Some wire \<Rightarrow>
          let m1 = m\<lparr>mx_writer := (mx_writer m)(i := None),
                     mx_out := (if ok then mx_out m @ [wire] else mx_out m)\<rparr>
          in Some (if mx_phase m i = Writing
                   then (if ok then m1\<lparr>mx_phase := (mx_phase m1)(i := Waiting)\<rparr>
                         else send_return i (Inl MuxWrite) m1)
                   else m1))"

definition send_ctx_done :: "nat \<Rightarrow> mux \<Rightarrow> mux option" where
  "send_ctx_done i m =
     (if mx_phase m i = Writing \<or> mx_phase m i = Waiting then Some (send_return i (Inl MuxCtx) m) else None)"

definition send_receive :: "nat \<Rightarrow> mux \<Rightarrow> mux option" where
  "send_receive i m =
     (case (mx_phase m i, mx_chan m i) of
        (Waiting, Some resp) \<Rightarrow> Some (send_return i (Inr resp) (m\<lparr>mx_chan := (mx_chan m)(i := None)\<rparr>))
      | _ \<Rightarrow> None)"

section \<open>The steps of Serve\<close>

definition deliver :: "nat \<Rightarrow> fields \<Rightarrow> mux \<Rightarrow> mux" where
  "deliver i fs m =
     (if mx_chan m i = None then m\<lparr>mx_chan := (mx_chan m)(i := Some fs), mx_serve := Reading\<rparr>
      else m\<lparr>mx_serve := Blocked i fs\<rparr>)"

definition serve_frame :: "string \<Rightarrow> mux \<Rightarrow> mux option" where
  "serve_frame payload m =
     (if mx_serve m = Reading
      then let m1 = m\<lparr>mx_in := mx_in m @ [payload]\<rparr> in
        Some (case Unpack payload of
                Inl e \<Rightarrow> m1
              | Inr (mti, fs) \<Rightarrow>
                  (case map_of (mx_pending m) (key_of fs) of
                     None \<Rightarrow> m1\<lparr>mx_late := mx_late m @ [(mti, fs)]\<rparr>
                   | Some ch \<Rightarrow> deliver ch fs m1))
      else None)"

text \<open>A blocked \<open>ch <- fields\<close> completes once the slot is free.\<close>

definition serve_unblock :: "mux \<Rightarrow> mux option" where
  "serve_unblock m =
     (case mx_serve m of
        Blocked i fs \<Rightarrow> if mx_chan m i = None then Some (deliver i fs m) else None
      | _ \<Rightarrow> None)"

definition serve_end :: "mux \<Rightarrow> mux option" where
  "serve_end m = (if mx_serve m = Reading then Some (m\<lparr>mx_serve := Ended\<rparr>) else None)"

datatype mux_event =
  EvRegister nat string fields | EvPack nat | EvWritten nat bool | EvCtxDone nat | EvReceive nat
| EvFrame string | EvUnblock | EvServeEnd

fun mux_step :: "mux_event \<Rightarrow> mux \<Rightarrow> mux option" where
  "mux_step (EvRegister i mti fs) m = send_register i mti fs m"
| "mux_step (EvPack i) m = send_pack i m"
| "mux_step (EvWritten i ok) m = send_written i ok m"
| "mux_step (EvCtxDone i) m = send_ctx_done i m"
| "mux_step (EvReceive i) m = send_receive i m"
| "mux_step (EvFrame payload) m = serve_frame payload m"
| "mux_step EvUnblock m = serve_unblock m"
| "mux_step EvServeEnd m = serve_end m"

inductive mux_reach :: "mux \<Rightarrow> mux \<Rightarrow> bool" for m0 where
  mux_refl: "mux_reach m0 m0"
| mux_next: "mux_reach m0 m \<Longrightarrow> mux_step e m = Some m' \<Longrightarrow> mux_reach m0 m'"

fun mux_exec :: "mux_event list \<Rightarrow> mux \<Rightarrow> mux option" where
  "mux_exec [] m = Some m"
| "mux_exec (e # es) m = (case mux_step e m of None \<Rightarrow> None | Some m' \<Rightarrow> mux_exec es m')"

lemma mux_reach_trans: "mux_reach m1 m2 \<Longrightarrow> mux_reach m0 m1 \<Longrightarrow> mux_reach m0 m2"
  by (induction rule: mux_reach.induct) (auto intro: mux_next)

lemma mux_exec_reach: "mux_exec es m = Some m' \<Longrightarrow> mux_reach m m'"
proof (induction es arbitrary: m)
  case (Cons e es)
  then obtain m1 where "mux_step e m = Some m1" "mux_reach m1 m'" by (auto split: option.splits)
  then show ?case using mux_reach_trans mux_next [OF mux_refl] by blast
qed (simp add: mux_refl)

section \<open>Correlation\<close>

text \<open>A response is genuine for caller \<open>i\<close> when it was read from the connection and carries the
  caller's key.\<close>

definition genuine :: "mux \<Rightarrow> nat \<Rightarrow> fields \<Rightarrow> bool" where
  "genuine m i fs \<longleftrightarrow>
     key_of fs = key_of (snd (mx_req m i)) \<and> (\<exists>payload \<in> set (mx_in m). \<exists>mti. Unpack payload = Inr (mti, fs))"

definition mux_inv :: "mux \<Rightarrow> bool" where
  "mux_inv m \<longleftrightarrow>
     distinct (map fst (mx_pending m)) \<and>
     (\<forall>k i. map_of (mx_pending m) k = Some i \<longrightarrow> k = key_of (snd (mx_req m i)) \<and> mx_phase m i \<noteq> NotStarted) \<and>
     (\<forall>i fs. mx_chan m i = Some fs \<longrightarrow> genuine m i fs \<and> mx_phase m i \<noteq> NotStarted) \<and>
     (\<forall>i fs. mx_serve m = Blocked i fs \<longrightarrow> genuine m i fs \<and> mx_phase m i \<noteq> NotStarted) \<and>
     (\<forall>i fs. mx_phase m i = Returned (Inr fs) \<longrightarrow> genuine m i fs)"

lemma mux_inv_New: "mux_inv NewMux"
  by (simp add: mux_inv_def NewMux_def)

lemmas mux_defs = send_register_def send_return_def send_pack_def send_written_def send_ctx_done_def
  send_receive_def deliver_def serve_frame_def serve_unblock_def serve_end_def

lemma genuine_mono:
  "genuine m i fs \<Longrightarrow> mx_req m' i = mx_req m i \<Longrightarrow> set (mx_in m) \<subseteq> set (mx_in m') \<Longrightarrow> genuine m' i fs"
  by (auto simp: genuine_def)

lemma mux_inv_return:
  assumes "mux_inv m" "mx_phase m i \<noteq> NotStarted" "\<forall>fs. r = Inr fs \<longrightarrow> genuine m i fs"
  shows "mux_inv (send_return i r m)"
  using assms unfolding mux_inv_def send_return_def genuine_def
  by (auto simp: delete_conv' distinct_delete split: if_splits)

lemma mux_inv_register:
  assumes "mux_inv m" "mx_phase m i = NotStarted"
  shows "mux_inv (m\<lparr>mx_pending := AList.update (key_of fs) i (mx_pending m),
                   mx_chan := (mx_chan m)(i := None), mx_req := (mx_req m)(i := (mti, fs)),
                   mx_phase := (mx_phase m)(i := Registered)\<rparr>)"
  using assms unfolding mux_inv_def genuine_def
  by (auto simp: update_conv' distinct_update split: if_splits)

lemma mux_inv_deliver:
  assumes "mux_inv m" "genuine m i fs" "mx_phase m i \<noteq> NotStarted"
  shows "mux_inv (deliver i fs m)"
  using assms unfolding mux_inv_def deliver_def genuine_def by auto

lemma mux_inv_cong:
  assumes "mux_inv m" "mx_pending m' = mx_pending m" "mx_chan m' = mx_chan m" "mx_req m' = mx_req m"
    "set (mx_in m) \<subseteq> set (mx_in m')" "mx_serve m' = mx_serve m \<or> mx_serve m' = Ended"
    "\<forall>i. mx_phase m' i = mx_phase m i \<or> mx_phase m i \<noteq> NotStarted \<and> (mx_phase m' i = Writing \<or> mx_phase m' i = Waiting)"
  shows "mux_inv m'"
proof -
  have g: "genuine m' i fs" if "genuine m i fs" for i fs
    using that assms(4,5) by (auto intro: genuine_mono)
  have p: "mx_phase m' i \<noteq> NotStarted" if "mx_phase m i \<noteq> NotStarted" for i
    using that assms(7) by (metis send_phase.distinct(3,5))
  have r: "mx_phase m i = Returned x" if "mx_phase m' i = Returned x" for i x
    using that assms(7) by (metis send_phase.distinct(17,19))
  show ?thesis
    using assms(1-4,6) g p r unfolding mux_inv_def by auto
qed

lemma mux_inv_pending:
  "mux_inv m \<Longrightarrow> map_of (mx_pending m) k = Some i \<Longrightarrow> k = key_of (snd (mx_req m i)) \<and> mx_phase m i \<noteq> NotStarted"
  unfolding mux_inv_def by blast

lemma mux_inv_step:
  assumes "mux_inv m" "mux_step e m = Some m'"
  shows "mux_inv m'"
proof (cases e)
  case (EvRegister i mti fs)
  with assms mux_inv_register [OF assms(1)] show ?thesis
    by (auto simp: send_register_def split: if_splits)
next
  case (EvPack i)
  with assms(2) have ph: "mx_phase m i = Registered" by (auto simp: send_pack_def split: if_splits)
  show ?thesis
  proof (cases "Pack (fst (mx_req m i)) (snd (mx_req m i))")
    case (Inl err)
    with EvPack assms(2) ph show ?thesis
      by (auto simp: send_pack_def intro!: mux_inv_return [OF assms(1)])
  next
    case (Inr w)
    with EvPack assms(2) ph show ?thesis
      by (auto simp: send_pack_def split: if_splits intro!: mux_inv_cong [OF assms(1)])
  qed
next
  case (EvWritten i ok)
  with assms(2) obtain w where w: "mx_writer m i = Some w" by (auto simp: send_written_def split: option.splits)
  define m1 where "m1 = m\<lparr>mx_writer := (mx_writer m)(i := None), mx_out := (if ok then mx_out m @ [w] else mx_out m)\<rparr>"
  have 1: "mux_inv m1" by (rule mux_inv_cong [OF assms(1)]) (auto simp: m1_def)
  from EvWritten assms(2) w have "m' = (if mx_phase m i = Writing
      then if ok then m1\<lparr>mx_phase := (mx_phase m1)(i := Waiting)\<rparr> else send_return i (Inl MuxWrite) m1 else m1)"
    by (auto simp: send_written_def m1_def Let_def)
  moreover have "mux_inv (m1\<lparr>mx_phase := (mx_phase m1)(i := Waiting)\<rparr>)" if "mx_phase m1 i = Writing"
    by (rule mux_inv_cong [OF 1]) (auto simp: that)
  moreover have "mux_inv (send_return i (Inl MuxWrite) m1)" if "mx_phase m1 i = Writing"
    by (rule mux_inv_return [OF 1]) (auto simp: that)
  moreover have "mx_phase m1 = mx_phase m" by (simp add: m1_def)
  ultimately show ?thesis using 1 by simp
next
  case (EvCtxDone i)
  with assms show ?thesis
    by (auto simp: send_ctx_done_def split: if_splits intro!: mux_inv_return [OF assms(1)])
next
  case (EvReceive i)
  with assms(2) obtain fs where r: "mx_phase m i = Waiting" "mx_chan m i = Some fs"
    "m' = send_return i (Inr fs) (m\<lparr>mx_chan := (mx_chan m)(i := None)\<rparr>)"
    by (auto simp: send_receive_def split: send_phase.splits option.splits)
  from assms(1) r(2) have g: "genuine m i fs" by (simp add: mux_inv_def)
  have "mux_inv (m\<lparr>mx_chan := (mx_chan m)(i := None)\<rparr>)"
    using assms(1) unfolding mux_inv_def genuine_def by auto
  moreover have "genuine (m\<lparr>mx_chan := (mx_chan m)(i := None)\<rparr>) i fs"
    by (rule genuine_mono [OF g]) simp_all
  ultimately show ?thesis using r by (auto intro!: mux_inv_return)
next
  case (EvFrame payload)
  with assms(2) have rd: "mx_serve m = Reading" by (auto simp: serve_frame_def split: if_splits)
  define m1 where "m1 = m\<lparr>mx_in := mx_in m @ [payload]\<rparr>"
  have 1: "mux_inv m1" by (rule mux_inv_cong [OF assms(1)]) (auto simp: m1_def)
  show ?thesis
  proof (cases "Unpack payload")
    case (Inl err)
    with EvFrame assms(2) rd 1 show ?thesis by (simp add: serve_frame_def m1_def)
  next
    case (Inr q)
    obtain mti fs where q: "q = (mti, fs)" by fastforce
    show ?thesis
    proof (cases "map_of (mx_pending m) (key_of fs)")
      case None
      have "mux_inv (m1\<lparr>mx_late := mx_late m @ [(mti, fs)]\<rparr>)" by (rule mux_inv_cong [OF 1]) auto
      with None Inr q EvFrame assms(2) rd show ?thesis by (simp add: serve_frame_def m1_def)
    next
      case (Some ch)
      with mux_inv_pending [OF assms(1)] have "key_of fs = key_of (snd (mx_req m1 ch))" "mx_phase m1 ch \<noteq> NotStarted"
        by (simp_all add: m1_def)
      then have "mux_inv (deliver ch fs m1)"
        using Inr q by (intro mux_inv_deliver [OF 1]) (auto simp: genuine_def m1_def)
      with Some Inr q EvFrame assms(2) rd show ?thesis by (simp add: serve_frame_def m1_def)
    qed
  qed
next
  case EvUnblock
  with assms(2) obtain i fs where b: "mx_serve m = Blocked i fs" "m' = deliver i fs m"
    by (auto simp: serve_unblock_def split: serve_phase.splits if_splits)
  from assms(1) b(1) have "genuine m i fs" "mx_phase m i \<noteq> NotStarted" unfolding mux_inv_def by blast+
  with b(2) show ?thesis using mux_inv_deliver [OF assms(1)] by simp
next
  case EvServeEnd
  with assms show ?thesis by (auto simp: serve_end_def split: if_splits intro!: mux_inv_cong [OF assms(1)])
qed

lemma mux_inv_reach: "mux_reach m0 m \<Longrightarrow> mux_inv m0 \<Longrightarrow> mux_inv m"
  by (induction rule: mux_reach.induct) (auto intro: mux_inv_step)

section \<open>A blocked reader\<close>

text \<open>\<open>Serve\<close> waits on the full channel of a caller that has returned.\<close>

definition stuck :: "nat \<Rightarrow> fields \<Rightarrow> mux \<Rightarrow> bool" where
  "stuck i fs m \<longleftrightarrow> mx_serve m = Blocked i fs \<and> mx_chan m i \<noteq> None \<and> (\<exists>r. mx_phase m i = Returned r)"

lemma stuck_step:
  assumes "stuck i fs m" "mux_step e m = Some m'"
  shows "stuck i fs m'"
  using assms
  by (cases e) (auto simp: stuck_def mux_defs Let_def split: if_splits option.splits sum.splits send_phase.splits)

lemma stuck_reach: "mux_reach m0 m \<Longrightarrow> stuck i fs m0 \<Longrightarrow> stuck i fs m"
  by (induction rule: mux_reach.induct) (auto intro: stuck_step)

section \<open>Properties of the multiplexer\<close>

text \<open>C7: under every interleaving of callers, writers and the reader, a response returned by
  \<open>Send\<close> was read from the connection and carries the STAN and DE 7 of exactly that caller's request.\<close>

theorem response_correlated:
  assumes "mux_reach NewMux m" "mx_phase m i = Returned (Inr resp)"
  shows "fget resp 11 = fget (snd (mx_req m i)) 11 \<and> fget resp 7 = fget (snd (mx_req m i)) 7 \<and>
     (\<exists>payload \<in> set (mx_in m). \<exists>mti. Unpack payload = Inr (mti, resp))"
  using mux_inv_reach [OF assms(1) mux_inv_New] assms(2)
  by (auto simp: mux_inv_def genuine_def key_of_def)

definition echo_req :: fields where
  "echo_req = [(7, ''0131142010''), (11, ''000042''), (70, ''301'')]"

definition echo_reply :: string where
  "echo_reply = ''081082200000020000000400000000000000013114201000004200301''"

definition echo_run :: "mux_event list" where
  "echo_run = [EvRegister 0 ''0800'' echo_req, EvPack 0, EvWritten 0 True, EvFrame echo_reply, EvReceive 0]"

definition echo_resp :: fields where
  "echo_resp = [(7, ''0131142010''), (11, ''000042''), (39, ''00''), (70, ''301'')]"

lemma echo_messages:
  "\<exists>w. Pack ''0800'' echo_req = Inr w" "Unpack echo_reply = Inr (''0810'', echo_resp)"
  "key_of echo_resp = key_of echo_req"
proof -
  have "case Pack ''0800'' echo_req of Inl _ \<Rightarrow> False | Inr _ \<Rightarrow> True" by code_simp
  then show "\<exists>w. Pack ''0800'' echo_req = Inr w" by (auto split: sum.splits)
  show "Unpack echo_reply = Inr (''0810'', echo_resp)" by code_simp
  show "key_of echo_resp = key_of echo_req" by (simp add: key_of_def echo_resp_def echo_req_def fget_def)
qed

lemma echo_run_result:
  "\<exists>m. mux_exec echo_run NewMux = Some m \<and> mx_phase m 0 = Returned (Inr echo_resp) \<and> mx_req m 0 = (''0800'', echo_req)"
proof -
  obtain w where "Pack ''0800'' echo_req = Inr w" using echo_messages(1) by blast
  then show ?thesis
    by (simp add: echo_run_def NewMux_def mux_defs echo_messages Let_def)
qed

theorem response_correlated_witness:
  "\<exists>m. mux_exec echo_run NewMux = Some m \<and> fget (snd (mx_req m 0)) 11 = ''000042''"
proof -
  obtain m where m: "mux_exec echo_run NewMux = Some m" "mx_phase m 0 = Returned (Inr echo_resp)"
    using echo_run_result by blast
  from response_correlated [OF mux_exec_reach [OF m(1)] m(2)] m(1) show ?thesis
    by (auto simp: fget_def echo_resp_def)
qed

definition stuck_run :: "mux_event list" where
  "stuck_run = [EvRegister 0 ''0800'' echo_req, EvPack 0, EvWritten 0 True, EvFrame echo_reply,
     EvFrame echo_reply, EvCtxDone 0]"



end
