(* ===== verification/Gateway_Time.thy ===== *)
theory Gateway_Time
  imports Gateway_Prelude
begin

text \<open>
  Instants, dates and their wire formats, with \<open>src/gateway-go/internal/bizdate\<close> and
  \<open>purchase/rrn.go\<close>. An instant is an integer number of nanoseconds since the Unix epoch in UTC; a
  date (a midnight UTC value in the code) is its number of days since the epoch; a location is
  a fixed offset from UTC. The theorems: the business date open at an instant is the unique
  one whose opening interval contains it, and an RRN determines the hour prefix and the STAN.
\<close>

section \<open>Instants and civil dates\<close>

type_synonym time = int
type_synonym date = int
type_synonym location = int

definition second_ns :: int where "second_ns = 1000000000"
definition day_ns :: int where "day_ns = 86400 * second_ns"

definition day_of :: "time \<Rightarrow> date" where "day_of t = t div day_ns"
definition time_of_day :: "time \<Rightarrow> int" where "time_of_day t = t mod day_ns"

text \<open>Years, months and days of a day number in the proleptic Gregorian calendar. The year is found by
  correcting an estimate; the search ends because a correction never overshoots.\<close>

definition january_first :: "int \<Rightarrow> date" where
  "january_first y = (let p = y - 1 in 365 * p + p div 4 - p div 100 + p div 400 - 719162)"

lemma div_step: "0 < k \<Longrightarrow> (p + 1) div k = p div k + (if k dvd p + 1 then 1 else 0)" for p k :: int
proof (cases "k dvd p + 1")
  case True
  assume k: "0 < k"
  from True obtain q where q: "p + 1 = k * q" by blast
  then have "p = k * (q - 1) + (k - 1)" by (simp add: algebra_simps)
  moreover have "((k - 1) + k * (q - 1)) div k = q - 1"
    using k by (subst div_mult_self2) (auto simp: div_pos_pos_trivial)
  ultimately have "p div k = q - 1" by (simp add: add.commute)
  with q k True show ?thesis by simp
next
  case False
  assume k: "0 < k"
  have r: "p mod k + 1 < k \<or> p mod k + 1 = k" using pos_mod_bound [OF k, of p] by linarith
  have e: "p + 1 = k * (p div k) + (p mod k + 1)" by (simp add: mult_div_mod_eq [symmetric])
  have "p mod k + 1 \<noteq> k"
  proof
    assume "p mod k + 1 = k"
    then have "p + 1 = k * (p div k) + k" using e by metis
    then have "p + 1 = k * (p div k + 1)" by (simp add: distrib_left)
    with False show False by simp
  qed
  with r have "p mod k + 1 < k" by simp
  moreover have "0 \<le> p mod k + 1" using pos_mod_sign [OF k, of p] by linarith
  ultimately have "(p mod k + 1 + k * (p div k)) div k = p div k"
    using k by (subst div_mult_self2) (auto simp: div_pos_pos_trivial)
  then have "(p + 1) div k = p div k" using e by (metis add.commute)
  with False show ?thesis by simp
qed

lemma january_first_gap:
  "365 \<le> january_first (y + 1) - january_first y" "january_first (y + 1) - january_first y \<le> 366"
proof -
  let ?b = "\<lambda>k :: int. if k dvd y then 1 else 0 :: int"
  have "y = y - 1 + 1" by simp
  then have s: "y div k = (y - 1) div k + ?b k" if "0 < k" for k
    using div_step [OF that, of "y - 1"] by simp
  have "january_first (y + 1) - january_first y = 365 + ?b 4 - ?b 100 + ?b 400"
    unfolding january_first_def Let_def using s [of 4] s [of 100] s [of 400] by simp
  moreover have "400 dvd y \<Longrightarrow> 100 dvd y" "100 dvd y \<Longrightarrow> 4 dvd y"
    by (auto elim!: dvd_trans [rotated])
  ultimately show "365 \<le> january_first (y + 1) - january_first y" "january_first (y + 1) - january_first y \<le> 366"
    by (auto split: if_splits)
qed

function year_search :: "int \<Rightarrow> date \<Rightarrow> int" where
  "year_search y d =
     (if d < january_first y then year_search (y - 1) d
      else if d \<ge> january_first (y + 1) then year_search (y + 1) d
      else y)"
  by pat_completeness auto
termination
proof (relation "measure (\<lambda>(y, d). if d < january_first y then nat (january_first y - d)
    else if d \<ge> january_first (y + 1) then nat (d - january_first (y + 1)) + 1 else 0)", goal_cases)
  case 1
  show ?case by simp
next
  case (2 y d)
  with january_first_gap(1) [of "y - 1"] show ?case by auto
next
  case (3 y d)
  with january_first_gap(1) [of "y + 1"] show ?case by (auto simp: add.assoc)
qed

declare year_search.simps [simp del]

definition is_leap :: "int \<Rightarrow> bool" where
  "is_leap y \<longleftrightarrow> y mod 4 = 0 \<and> (y mod 100 \<noteq> 0 \<or> y mod 400 = 0)"

definition month_lengths :: "int \<Rightarrow> int list" where
  "month_lengths y = [31, if is_leap y then 29 else 28, 31, 30, 31, 30, 31, 31, 30, 31, 30, 31]"

fun month_day :: "int list \<Rightarrow> int \<Rightarrow> int \<Rightarrow> int \<times> int" where
  "month_day [] m doy = (m, doy + 1)"
| "month_day (l # ls) m doy = (if doy < l \<or> ls = [] then (m, doy + 1) else month_day ls (m + 1) (doy - l))"

definition civil_of :: "date \<Rightarrow> int \<times> int \<times> int" where
  "civil_of d = (let y = year_search (1970 + d div 365) d in (y, month_day (month_lengths y) 1 (d - january_first y)))"

text \<open>The zero \<open>time.Time\<close>: 1 January of the year 1.\<close>

definition zeroTime :: time where "zeroTime = january_first 1 * day_ns"

definition Year :: "time \<Rightarrow> int" where "Year t = fst (civil_of (day_of t))"

definition YearDay :: "time \<Rightarrow> int" where
  "YearDay t = day_of t - january_first (Year t) + 1"

definition Hour :: "time \<Rightarrow> int" where "Hour t = time_of_day t div (3600 * second_ns)"

text \<open>\<open>t.In(loc)\<close>: the same instant read on the wall clock of \<open>loc\<close>.\<close>

definition in_loc :: "location \<Rightarrow> time \<Rightarrow> time" where "in_loc loc t = t + loc"

text \<open>The layouts \<open>0102\<close>, \<open>150405\<close>, \<open>0102150405\<close> and \<open>2006-01-02\<close>.\<close>

definition format_0102 :: "time \<Rightarrow> string" where
  "format_0102 t = (case civil_of (day_of t) of (y, m, d) \<Rightarrow> fmt_0d 2 m @ fmt_0d 2 d)"

definition format_150405 :: "time \<Rightarrow> string" where
  "format_150405 t =
     (let s = time_of_day t div second_ns
      in fmt_0d 2 (s div 3600) @ fmt_0d 2 (s div 60 mod 60) @ fmt_0d 2 (s mod 60))"

definition format_0102150405 :: "time \<Rightarrow> string" where
  "format_0102150405 t = format_0102 t @ format_150405 t"

definition format_DateOnly :: "time \<Rightarrow> string" where
  "format_DateOnly t =
     (case civil_of (day_of t) of (y, m, d) \<Rightarrow> fmt_0d 4 y @ ''-'' @ fmt_0d 2 m @ ''-'' @ fmt_0d 2 d)"

text \<open>\<open>Asia/Ho_Chi_Minh\<close> has been UTC+7 without daylight saving since 1975.\<close>

definition terminalLocation :: location where "terminalLocation = 7 * 3600 * second_ns"

section \<open>Business dates\<close>

record ClockCalendar =
  cal_cutover :: int
  cal_loc :: location

definition NewClockCalendar :: "int \<Rightarrow> location \<Rightarrow> ClockCalendar" where
  "NewClockCalendar cutover loc = \<lparr>cal_cutover = cutover, cal_loc = loc\<rparr>"

definition Current :: "ClockCalendar \<Rightarrow> time \<Rightarrow> date" where
  "Current c now =
     (let local = in_loc (cal_loc c) now;
          midnight = day_of local * day_ns;
          d = day_of local
      in if local - midnight \<ge> cal_cutover c then d + 1 else d)"

definition Previous :: "date \<Rightarrow> date" where "Previous d = d - 1"

definition OpenedAt :: "ClockCalendar \<Rightarrow> date \<Rightarrow> time" where
  "OpenedAt c d = (let prev = d - 1 in prev * day_ns - cal_loc c + cal_cutover c)"

definition MMDD :: "date \<Rightarrow> string" where "MMDD d = format_0102 (d * day_ns)"
definition Format :: "date \<Rightarrow> string" where "Format d = format_DateOnly (d * day_ns)"

section \<open>RRN\<close>

definition BuildRRN :: "time \<Rightarrow> string \<Rightarrow> string" where
  "BuildRRN now stan =
     Itoa (Year now mod 10) @ fmt_0d 3 (YearDay now) @ fmt_0d 2 (Hour now) @ stan"

section \<open>Lemmas\<close>

lemma day_ns_pos [simp]: "0 < day_ns" "day_ns \<noteq> 0"
  by (simp_all add: day_ns_def second_ns_def)

lemma Current_interval:
  assumes "0 \<le> cal_cutover c" "cal_cutover c \<le> day_ns"
  shows "OpenedAt c (Current c now) \<le> now" "now < OpenedAt c (Current c now + 1)"
proof -
  define l where "l = now + cal_loc c"
  have l: "l = l div day_ns * day_ns + l mod day_ns" "0 \<le> l mod day_ns" "l mod day_ns < day_ns" by simp_all
  let ?d = "l div day_ns"
  have cur: "Current c now = (if l mod day_ns \<ge> cal_cutover c then ?d + 1 else ?d)"
    by (simp add: Current_def in_loc_def day_of_def l_def minus_div_mult_eq_mod)
  have now: "now = ?d * day_ns + l mod day_ns - cal_loc c" using l(1) l_def by linarith
  have step: "(?d - 1) * day_ns = ?d * day_ns - day_ns" "(?d + 1) * day_ns = ?d * day_ns + day_ns"
    by (simp_all add: algebra_simps)
  have o: "OpenedAt c (Current c now) = (if l mod day_ns \<ge> cal_cutover c then ?d * day_ns else ?d * day_ns - day_ns) - cal_loc c + cal_cutover c"
    "OpenedAt c (Current c now + 1) = (if l mod day_ns \<ge> cal_cutover c then ?d * day_ns + day_ns else ?d * day_ns) - cal_loc c + cal_cutover c"
    unfolding OpenedAt_def cur using step by simp_all
  show "OpenedAt c (Current c now) \<le> now" "now < OpenedAt c (Current c now + 1)"
  proof (atomize (full), cases "l mod day_ns \<ge> cal_cutover c")
    case True
    with o have "OpenedAt c (Current c now) = ?d * day_ns - cal_loc c + cal_cutover c"
      "OpenedAt c (Current c now + 1) = ?d * day_ns + day_ns - cal_loc c + cal_cutover c" by simp_all
    with now l(2,3) True assms show "OpenedAt c (Current c now) \<le> now \<and> now < OpenedAt c (Current c now + 1)" by linarith
  next
    case False
    with o have "OpenedAt c (Current c now) = ?d * day_ns - day_ns - cal_loc c + cal_cutover c"
      "OpenedAt c (Current c now + 1) = ?d * day_ns - cal_loc c + cal_cutover c" by simp_all
    with now l(2,3) False assms show "OpenedAt c (Current c now) \<le> now \<and> now < OpenedAt c (Current c now + 1)" by linarith
  qed
qed

lemma OpenedAt_mono: "d \<le> d' \<Longrightarrow> OpenedAt c d \<le> OpenedAt c d'"
  by (simp add: OpenedAt_def mult_right_mono less_imp_le [OF day_ns_pos(1)])

lemma Current_unique:
  assumes "0 \<le> cal_cutover c" "cal_cutover c \<le> day_ns" "OpenedAt c d \<le> now" "now < OpenedAt c (d + 1)"
  shows "Current c now = d"
proof (rule ccontr)
  assume "Current c now \<noteq> d"
  then consider "Current c now < d" | "d < Current c now" by linarith
  then show False
  proof cases
    case 1
    then have "OpenedAt c (Current c now + 1) \<le> OpenedAt c d"
      by (intro OpenedAt_mono) simp
    with Current_interval [OF assms(1,2), of now] assms(3) show False by simp
  next
    case 2
    then have "OpenedAt c (d + 1) \<le> OpenedAt c (Current c now)"
      by (intro OpenedAt_mono) simp
    with Current_interval [OF assms(1,2), of now] assms(4) show False by simp
  qed
qed

lemma year_search_correct:
  "january_first (year_search y d) \<le> d \<and> d < january_first (year_search y d + 1)"
proof (induction y d rule: year_search.induct)
  case (1 y d)
  then show ?case by (subst (1 2) year_search.simps) (auto simp: year_search.simps [of y d])
qed

lemma YearDay_range: "1 \<le> YearDay t \<and> YearDay t \<le> 366"
proof -
  have "Year t = year_search (1970 + day_of t div 365) (day_of t)" by (simp add: Year_def civil_of_def Let_def)
  with year_search_correct [of "1970 + day_of t div 365" "day_of t"] january_first_gap(2) [of "Year t"]
  show ?thesis by (simp add: YearDay_def)
qed

lemma Hour_range: "0 \<le> Hour t \<and> Hour t < 24"
proof -
  have p: "0 \<le> time_of_day t" "time_of_day t < 24 * (3600 * second_ns)"
    by (simp_all add: time_of_day_def day_ns_def second_ns_def)
  then have "time_of_day t div 3600000000000 < 24" "0 \<le> time_of_day t div 3600000000000"
    unfolding second_ns_def by linarith+
  then show ?thesis by (simp add: Hour_def second_ns_def)
qed

text \<open>The hour prefix of an RRN has six digits.\<close>

definition rrn_prefix :: "time \<Rightarrow> string" where
  "rrn_prefix now = Itoa (Year now mod 10) @ fmt_0d 3 (YearDay now) @ fmt_0d 2 (Hour now)"

lemma BuildRRN_prefix: "BuildRRN now stan = rrn_prefix now @ stan"
  by (simp add: BuildRRN_def rrn_prefix_def)

lemma fmt_0d_shape:
  assumes "0 \<le> n" "n < 10 ^ w" "0 < w"
  shows "length (fmt_0d w n) = w \<and> list_all is_digit (fmt_0d w n)"
  using assms length_Itoa [of n w] by (simp add: fmt_0d_def)

lemma fmt_0d_value: "0 \<le> n \<Longrightarrow> Atoi_digits (fmt_0d w n) = n"
  by (simp add: fmt_0d_def)

lemma rrn_prefix_shape: "length (rrn_prefix now) = 6 \<and> list_all is_digit (rrn_prefix now)"
proof -
  have y: "0 \<le> Year now mod 10" "Year now mod 10 < 10" by simp_all
  have "length (Itoa (Year now mod 10)) = 1"
    using y by (simp add: Itoa_def digits_in.simps)
  then show ?thesis
    using fmt_0d_shape [of "YearDay now" 3] fmt_0d_shape [of "Hour now" 2] YearDay_range [of now] Hour_range [of now] y
    by (simp add: rrn_prefix_def)
qed

lemma BuildRRN_inject:
  assumes "length a = 6" "length b = 6"
  shows "BuildRRN t a = BuildRRN u b \<longleftrightarrow> rrn_prefix t = rrn_prefix u \<and> a = b"
  using rrn_prefix_shape [of t] rrn_prefix_shape [of u] by (simp add: BuildRRN_prefix)

section \<open>Properties\<close>





end
