(* ===== verification/Store.thy ===== *)
theory Store
  imports Gateway_Time Iso_Codec
begin

text \<open>
  The acquirer's database, \<open>src/gateway-go/internal/store\<close>: the tables \<open>tran_log\<close>,
  \<open>tran_state_history\<close>, \<open>saf_queue\<close>, \<open>idempotency_record\<close>, \<open>terminal\<close> and \<open>merchant\<close>, and the
  repository operations of \<open>tranlog.go\<close>, \<open>safqueue.go\<close> and \<open>terminal.go\<close>. A SQL statement (or a
  transaction) is one function on the database; NULL text columns are the empty string, as the
  repositories read them. A call of an operation takes the next item of a schedule: what other
  sessions did to the database before it, and whether it succeeds, fails without effect, or
  takes effect while the caller sees an error.
\<close>

section \<open>Errors\<close>

text \<open>A Go error is the list of the sentinels \<open>errors.Is\<close> finds in it: wrapping keeps the list,
  \<open>errors.Join\<close> appends.\<close>

datatype sentinel =
  ErrNotFound | ErrNotReversible | ErrNotCompletable | ErrExceedsHold | ErrIdempotencyKeyMismatch
| ErrIdempotencyInProgress | InProgressError string time | ErrReservationLost | ErrStateMoved | ErrAfterSend
| ErrUnknownCardToken | ErrUnknownTerminal | ErrNeverSent | ErrNotSignedOn | ErrNoLiveLink | ErrInvalidCursor
| ErrDeadline | ErrDatabase | ErrHsm | ErrDecode | ErrPack CodecError | ErrNotServing | ErrRotationInProgress | ErrRotationNotFound

type_synonym goerror = "sentinel list"

definition errors_Is :: "goerror \<Rightarrow> sentinel \<Rightarrow> bool" where
  "errors_Is e s \<longleftrightarrow> s \<in> set e
     \<or> s = ErrIdempotencyInProgress \<and> list_ex (\<lambda>x. case x of InProgressError _ _ \<Rightarrow> True | _ \<Rightarrow> False) e"

section \<open>Rows\<close>

record Money =
  mo_Amount :: int
  mo_Currency :: string

record TranLogRow =
  tl_ID :: int
  tl_RRN :: string
  tl_Type :: string
  tl_Status :: string
  tl_Amount :: int
  tl_Currency :: string
  tl_MaskedPAN :: string
  tl_TerminalID :: string
  tl_MerchantID :: string
  tl_MerchantName :: string
  tl_NetworkSTAN :: string
  tl_ResponseCode :: string
  tl_AuthCode :: string
  tl_CreatedAt :: time
  tl_LateResponseCode :: string
  tl_LateResponseAt :: "time option"
  tl_MTI :: string
  tl_ProcessingCode :: string
  tl_POSEntryMode :: string
  tl_SentAt :: "time option"
  tl_RespondedAt :: "time option"
  tl_CardToken :: string
  tl_ApprovedAmount :: "int option"
  tl_Balance :: "Money option"
  tl_OriginalRRN :: string
  tl_TraceID :: string
  tl_ReversalReasonCode :: string
  tl_CompletedBy :: string
  tl_BusinessDate :: "date option"

text \<open>The zero value of the Go struct.\<close>

definition TranLogRow_zero :: TranLogRow where
  "TranLogRow_zero = \<lparr>tl_ID = 0, tl_RRN = '''', tl_Type = '''', tl_Status = '''', tl_Amount = 0, tl_Currency = '''',
     tl_MaskedPAN = '''', tl_TerminalID = '''', tl_MerchantID = '''', tl_MerchantName = '''', tl_NetworkSTAN = '''',
     tl_ResponseCode = '''', tl_AuthCode = '''', tl_CreatedAt = zeroTime, tl_LateResponseCode = '''', tl_LateResponseAt = None,
     tl_MTI = '''', tl_ProcessingCode = '''', tl_POSEntryMode = '''', tl_SentAt = None, tl_RespondedAt = None,
     tl_CardToken = '''', tl_ApprovedAmount = None, tl_Balance = None, tl_OriginalRRN = '''', tl_TraceID = '''',
     tl_ReversalReasonCode = '''', tl_CompletedBy = '''', tl_BusinessDate = None\<rparr>"

record StateTransition =
  st_TranID :: int
  st_FromStatus :: string
  st_ToStatus :: string
  st_At :: time

text \<open>What one \<open>saf_queue\<close> row carries (\<open>saf/advice.go\<close>), and its stored bytes: the JSON text is
  represented by the advice it encodes, plain or sealed under a key.\<close>

record advice =
  adv_Fields :: fields
  adv_CardToken :: string

datatype payload = PayloadEmpty | PayloadJSON advice | PayloadSealed string advice

record SafRow =
  sf_ID :: int
  sf_TranID :: int
  sf_MTI :: string
  sf_Payload :: payload
  sf_Status :: string
  sf_Attempts :: int
  sf_MaxAttempts :: int
  sf_NextRetryAt :: time
  sf_LastError :: goerror
  sf_CreatedAt :: time
  sf_AckedAt :: "time option"

text \<open>The API's \<open>Transaction\<close>, with the fields of both services' types.\<close>

record Transaction =
  tx_RRN :: string
  tx_STAN :: string
  tx_Type :: string
  tx_Status :: string
  tx_ResponseCode :: string
  tx_ResponseLabel :: "string option"
  tx_Amount :: Money
  tx_ApprovedAmount :: "Money option"
  tx_Balance :: "Money option"
  tx_MaskedPAN :: string
  tx_TerminalID :: string
  tx_MerchantName :: string
  tx_LatencyMs :: "int option"
  tx_CreatedAt :: time
  tx_ReversalReason :: string
  tx_AuthCode :: string
  tx_OriginalRRN :: string
  tx_BusinessDate :: string
  tx_TraceID :: string

definition Transaction_zero :: Transaction where
  "Transaction_zero = \<lparr>tx_RRN = '''', tx_STAN = '''', tx_Type = '''', tx_Status = '''', tx_ResponseCode = '''',
     tx_ResponseLabel = None, tx_Amount = \<lparr>mo_Amount = 0, mo_Currency = ''''\<rparr>, tx_ApprovedAmount = None,
     tx_Balance = None, tx_MaskedPAN = '''', tx_TerminalID = '''', tx_MerchantName = '''', tx_LatencyMs = None,
     tx_CreatedAt = zeroTime, tx_ReversalReason = '''', tx_AuthCode = '''', tx_OriginalRRN = '''', tx_BusinessDate = '''',
     tx_TraceID = ''''\<rparr>"

record StoredResponse =
  sr_Status :: int
  sr_Body :: "Transaction option"

record IdempotencyRow =
  id_Key :: string
  id_Route :: string
  id_RequestHash :: string
  id_Response :: StoredResponse
  id_CreatedAt :: time
  id_RRN :: string
  id_Token :: "nat option"

text \<open>A key of \<open>key_store\<close>. The hex cryptogram is represented by what it decrypts to under the LMK
  that sealed it; \<open>KeyGarbled\<close> is a column that is not hex or not a cryptogram.\<close>

datatype keyblob = KeySealed string "8 word list" | KeyGarbled

record KeyRow =
  ke_ID :: int
  ke_KeyType :: string
  ke_OwnerRef :: string
  ke_KeyUnderLMKHex :: keyblob
  ke_KCV :: string
  ke_Status :: string
  ke_ActivatedAt :: "time option"
  ke_RetiredAt :: "time option"
  ke_CreatedAt :: time

text \<open>A row of \<open>link_state\<close> and of \<open>network_event\<close> (\<open>store/links.go\<close>), and of \<open>key_rotation\<close> and \<open>audit_log\<close>
  (\<open>rotation/repository.go\<close>).\<close>

record Link =
  lk_Endpoint :: string
  lk_Status :: string
  lk_LastEchoAt :: "time option"
  lk_LastEchoLatencyMs :: "int option"
  lk_P99LatencyMs :: "int option"
  lk_InFlight :: int

record NetworkEvent =
  ne_ID :: int
  ne_OccurredAt :: time
  ne_Code :: string
  ne_Severity :: string
  ne_EasyText :: string
  ne_TechnicalText :: string

record Step =
  stp_Name :: string
  stp_Status :: string
  stp_CompletedAt :: "time option"

record RotationRow =
  ro_ID :: int
  ro_KeyType :: string
  ro_Status :: string
  ro_Steps :: "Step list"
  ro_NewKCV :: "string option"
  ro_NewKeyID :: "int option"
  ro_CreatedAt :: time
  ro_UpdatedAt :: time

record AuditRow =
  au_EventType :: string
  au_RotationID :: int
  au_Step :: string
  au_Status :: string
  au_Error :: "goerror option"

record Merchant =
  me_MID :: string
  me_Name :: string
  me_MCC :: string

record db =
  db_now :: time
  db_merchant :: "Merchant list"
  db_terminal :: "(string \<times> string) list"
  db_tran :: "TranLogRow list"
  db_tran_seq :: int
  db_history :: "StateTransition list"
  db_saf :: "SafRow list"
  db_saf_seq :: int
  db_idem :: "IdempotencyRow list"
  db_uuid :: nat
  db_keys :: "KeyRow list"
  db_key_seq :: int
  db_links :: "Link list"
  db_events :: "NetworkEvent list"
  db_event_seq :: int
  db_rotations :: "RotationRow list"
  db_rotation_seq :: int
  db_audit :: "AuditRow list"

type_synonym 'a dbop = "db \<Rightarrow> (goerror + 'a) \<times> db"

section \<open>Calls and their schedule\<close>

datatype fault = NoFault | Lost | Unacked

record sched_item =
  sc_env :: "db \<Rightarrow> db"
  sc_fault :: fault

record world =
  w_db :: db
  w_sched :: "sched_item list"

definition call :: "'a dbop \<Rightarrow> 'z world_scheme \<Rightarrow> (goerror + 'a) \<times> 'z world_scheme" where
  "call op w =
     (case w_sched w of
        [] \<Rightarrow> (case op (w_db w) of (r, d) \<Rightarrow> (r, w\<lparr>w_db := d\<rparr>))
      | s # rest \<Rightarrow>
          let d0 = sc_env s (w_db w) in
          (case sc_fault s of
             NoFault \<Rightarrow> (case op d0 of (r, d) \<Rightarrow> (r, w\<lparr>w_db := d, w_sched := rest\<rparr>))
           | Lost \<Rightarrow> (Inl [ErrDatabase], w\<lparr>w_db := d0, w_sched := rest\<rparr>)
           | Unacked \<Rightarrow> (case op d0 of (r, d) \<Rightarrow> (Inl [ErrDatabase], w\<lparr>w_db := d, w_sched := rest\<rparr>))))"

section \<open>The transaction log\<close>

definition update_tran :: "(TranLogRow \<Rightarrow> bool) \<Rightarrow> (TranLogRow \<Rightarrow> TranLogRow) \<Rightarrow> db \<Rightarrow> db" where
  "update_tran P f d = d\<lparr>db_tran := map (\<lambda>r. if P r then f r else r) (db_tran d)\<rparr>"

definition affected :: "(TranLogRow \<Rightarrow> bool) \<Rightarrow> db \<Rightarrow> nat" where
  "affected P d = length (filter P (db_tran d))"

definition insertTranLog :: "TranLogRow \<Rightarrow> db \<Rightarrow> int \<times> db" where
  "insertTranLog row d =
     (let newid = db_tran_seq d + 1;
          stored = TranLogRow_zero\<lparr>tl_ID := newid, tl_RRN := tl_RRN row, tl_Type := tl_Type row, tl_Status := tl_Status row,
            tl_Amount := tl_Amount row, tl_Currency := tl_Currency row, tl_MaskedPAN := tl_MaskedPAN row,
            tl_TerminalID := tl_TerminalID row, tl_MerchantID := tl_MerchantID row, tl_NetworkSTAN := tl_NetworkSTAN row,
            tl_ResponseCode := tl_ResponseCode row, tl_AuthCode := tl_AuthCode row, tl_CreatedAt := db_now d,
            tl_MTI := tl_MTI row, tl_ProcessingCode := tl_ProcessingCode row, tl_POSEntryMode := tl_POSEntryMode row,
            tl_SentAt := tl_SentAt row, tl_CardToken := tl_CardToken row, tl_OriginalRRN := tl_OriginalRRN row,
            tl_TraceID := tl_TraceID row,
            tl_BusinessDate := Some (case tl_BusinessDate row of Some b \<Rightarrow> b | None \<Rightarrow> day_of (db_now d))\<rparr>
      in (newid, d\<lparr>db_tran := db_tran d @ [stored], db_tran_seq := newid\<rparr>))"

definition Insert :: "TranLogRow \<Rightarrow> int dbop" where
  "Insert row d = (case insertTranLog row d of (i, d1) \<Rightarrow> (Inr i, d1))"

definition completable :: "string \<Rightarrow> TranLogRow \<Rightarrow> bool" where
  "completable preAuthRRN r \<longleftrightarrow>
     tl_RRN r = preAuthRRN \<and> tl_Type r = ''PREAUTH'' \<and> tl_Status r = ''APPROVED'' \<and> tl_CompletedBy r = ''''"

definition InsertCompletion :: "TranLogRow \<Rightarrow> string \<Rightarrow> int dbop" where
  "InsertCompletion completion preAuthRRN d =
     (if affected (completable preAuthRRN) d = 0 then (Inl [ErrNotCompletable], d)
      else case insertTranLog completion
                  (update_tran (completable preAuthRRN) (\<lambda>r. r\<lparr>tl_CompletedBy := tl_RRN completion\<rparr>) d) of
             (i, d1) \<Rightarrow> (Inr i, d1))"

definition UpdateStatus :: "int \<Rightarrow> string \<Rightarrow> string \<Rightarrow> string \<Rightarrow> unit dbop" where
  "UpdateStatus i status responseCode authCode d =
     (Inr (), update_tran (\<lambda>r. tl_ID r = i)
        (\<lambda>r. r\<lparr>tl_Status := status, tl_ResponseCode := responseCode, tl_AuthCode := authCode,
               tl_RespondedAt := Some (db_now d)\<rparr>) d)"

definition UpdateStatusFrom :: "int \<Rightarrow> string \<Rightarrow> string \<Rightarrow> string \<Rightarrow> string \<Rightarrow> unit dbop" where
  "UpdateStatusFrom i from status responseCode authCode d =
     (if affected (\<lambda>r. tl_ID r = i \<and> tl_Status r = from) d = 0 then (Inl [ErrStateMoved], d)
      else (Inr (), update_tran (\<lambda>r. tl_ID r = i \<and> tl_Status r = from)
        (\<lambda>r. r\<lparr>tl_Status := status, tl_ResponseCode := responseCode, tl_AuthCode := authCode,
               tl_RespondedAt := Some (db_now d)\<rparr>) d))"

definition UpdateAmounts :: "int \<Rightarrow> int option \<Rightarrow> Money option \<Rightarrow> unit dbop" where
  "UpdateAmounts i approvedAmount balance d =
     (Inr (), update_tran (\<lambda>r. tl_ID r = i) (\<lambda>r. r\<lparr>tl_ApprovedAmount := approvedAmount, tl_Balance := balance\<rparr>) d)"

definition UpdateLateResponse :: "string \<Rightarrow> string \<Rightarrow> unit dbop" where
  "UpdateLateResponse rrn responseCode d =
     (Inr (), update_tran (\<lambda>r. tl_RRN r = rrn)
        (\<lambda>r. r\<lparr>tl_LateResponseCode := responseCode, tl_LateResponseAt := Some (db_now d)\<rparr>) d)"

definition add_history :: "int \<Rightarrow> string \<Rightarrow> string \<Rightarrow> db \<Rightarrow> db" where
  "add_history i from to d =
     d\<lparr>db_history := db_history d @ [\<lparr>st_TranID = i, st_FromStatus = from, st_ToStatus = to, st_At = db_now d\<rparr>]\<rparr>"

definition RecordStateTransition :: "int \<Rightarrow> string \<Rightarrow> string \<Rightarrow> unit dbop" where
  "RecordStateTransition i from to d = (Inr (), add_history i from to d)"

definition ListStateHistory :: "int \<Rightarrow> StateTransition list dbop" where
  "ListStateHistory i d = (Inr (sort_key st_At (filter (\<lambda>s. st_TranID s = i) (db_history d))), d)"

text \<open>\<open>JOIN merchant m ON m.mid = t.mid\<close>: a row whose merchant is unknown is not selected.\<close>

definition select_tran :: "db \<Rightarrow> TranLogRow list" where
  "select_tran d = List.map_filter (\<lambda>r. map_option (\<lambda>m. r\<lparr>tl_MerchantName := me_Name m\<rparr>)
     (find (\<lambda>m. me_MID m = tl_MerchantID r) (db_merchant d))) (db_tran d)"

definition Get :: "string \<Rightarrow> TranLogRow dbop" where
  "Get rrn d =
     ((case find (\<lambda>r. tl_RRN r = rrn) (select_tran d) of Some r \<Rightarrow> Inr r | None \<Rightarrow> Inl [ErrNotFound]), d)"

definition ReleaseCompletion :: "string \<Rightarrow> string \<Rightarrow> unit dbop" where
  "ReleaseCompletion preAuthRRN completionRRN d =
     (Inr (), update_tran (\<lambda>r. tl_RRN r = preAuthRRN \<and> tl_CompletedBy r \<noteq> '''' \<and> tl_CompletedBy r = completionRRN)
        (\<lambda>r. r\<lparr>tl_CompletedBy := ''''\<rparr>) d)"

definition has_saf :: "db \<Rightarrow> int \<Rightarrow> bool" where
  "has_saf d i \<longleftrightarrow> list_ex (\<lambda>s. sf_TranID s = i) (db_saf d)"

definition orphan :: "db \<Rightarrow> TranLogRow \<Rightarrow> bool" where
  "orphan d r \<longleftrightarrow>
     tl_Status r = ''SENT''
     \<or> tl_Status r = ''TIMED_OUT'' \<and> tl_Type r \<noteq> ''BALANCE'' \<and> \<not> has_saf d (tl_ID r)
     \<or> tl_Status r = ''DECLINED'' \<and> tl_ResponseCode r = ''96'' \<and> tl_Type r \<notin> {''BALANCE'', ''COMPLETION''}
       \<and> \<not> has_saf d (tl_ID r)"

definition FindOrphans :: "time \<Rightarrow> nat \<Rightarrow> TranLogRow list dbop" where
  "FindOrphans sentBefore limit d =
     (Inr (take limit (sort_key tl_ID (filter (\<lambda>r.
        (case tl_SentAt r of None \<Rightarrow> False | Some s \<Rightarrow> s < sentBefore) \<and> orphan d r) (select_tran d)))), d)"

definition MarkTimedOut :: "int \<Rightarrow> bool dbop" where
  "MarkTimedOut i d =
     (if affected (\<lambda>r. tl_ID r = i \<and> tl_Status r = ''SENT'') d = 0 then (Inr False, d)
      else (Inr True, add_history i ''SENT'' ''TIMED_OUT''
              (update_tran (\<lambda>r. tl_ID r = i \<and> tl_Status r = ''SENT'') (\<lambda>r. r\<lparr>tl_Status := ''TIMED_OUT''\<rparr>) d)))"

text \<open>\<open>substring(rrn FROM 7 FOR 6)::int\<close> over the twelve-digit RRNs of a prefix.\<close>

definition is_prefix :: "string \<Rightarrow> string \<Rightarrow> bool" where
  "is_prefix p s \<longleftrightarrow> take (length p) s = p"

definition LastSTANInRRNPrefix :: "string \<Rightarrow> int dbop" where
  "LastSTANInRRNPrefix p d =
     (Inr (fold max (map (\<lambda>r. Atoi_digits (take 6 (drop 6 (tl_RRN r))))
        (filter (\<lambda>r. is_prefix p (tl_RRN r) \<and> length (tl_RRN r) = 12 \<and> list_all is_digit (tl_RRN r)) (db_tran d))) 0), d)"

section \<open>Reversal reasons\<close>

definition reversalReasonByCode :: "(string \<times> string) list" where
  "reversalReasonByCode = [(''17'', ''CUSTOMER_CANCELLATION''), (''68'', ''TIMEOUT''), (''06'', ''MAC_FAILURE'')]"

definition ReversalReasonOf :: "string \<Rightarrow> string" where
  "ReversalReasonOf code =
     (if code = '''' then ''''
      else case map_of reversalReasonByCode code of Some reason \<Rightarrow> reason | None \<Rightarrow> ''SEND_FAILURE'')"

section \<open>Idempotency records\<close>

definition idempotencyTTL :: int where "idempotencyTTL = 24 * 3600 * second_ns"
definition pendingStatus :: int where "pendingStatus = 0"

definition idem_match :: "string \<Rightarrow> string \<Rightarrow> IdempotencyRow \<Rightarrow> bool" where
  "idem_match key route r \<longleftrightarrow> id_Key r = key \<and> id_Route r = route"

definition update_idem :: "(IdempotencyRow \<Rightarrow> bool) \<Rightarrow> (IdempotencyRow \<Rightarrow> IdempotencyRow) \<Rightarrow> db \<Rightarrow> db" where
  "update_idem P f d = d\<lparr>db_idem := map (\<lambda>r. if P r then f r else r) (db_idem d)\<rparr>"

definition pending_response :: StoredResponse where
  "pending_response = \<lparr>sr_Status = pendingStatus, sr_Body = None\<rparr>"

text \<open>The first statement of \<open>Reserve\<close>: insert, or claim afresh a record past its TTL; no token when a
  live record exists.\<close>

definition reserve_insert :: "string \<Rightarrow> string \<Rightarrow> string \<Rightarrow> nat option dbop" where
  "reserve_insert key route requestHash d =
     (let tok = db_uuid d;
          fresh = \<lparr>id_Key = key, id_Route = route, id_RequestHash = requestHash, id_Response = pending_response,
                   id_CreatedAt = db_now d, id_RRN = '''', id_Token = Some tok\<rparr>
      in case find (idem_match key route) (db_idem d) of
           None \<Rightarrow> (Inr (Some tok), d\<lparr>db_idem := db_idem d @ [fresh], db_uuid := tok + 1\<rparr>)
         | Some r \<Rightarrow>
             if id_CreatedAt r < db_now d - idempotencyTTL
             then (Inr (Some tok), (update_idem (idem_match key route) (\<lambda>_. fresh) d)\<lparr>db_uuid := tok + 1\<rparr>)
             else (Inr None, d))"

definition reserve_select :: "string \<Rightarrow> string \<Rightarrow> IdempotencyRow option dbop" where
  "reserve_select key route d = (Inr (find (idem_match key route) (db_idem d)), d)"

definition Reserve ::
  "string \<Rightarrow> string \<Rightarrow> string \<Rightarrow> 'z world_scheme \<Rightarrow> (goerror + (StoredResponse option \<times> nat option)) \<times> 'z world_scheme" where
  "Reserve key route requestHash w =
     (case call (reserve_insert key route requestHash) w of
        (Inl e, w1) \<Rightarrow> (Inl e, w1)
      | (Inr (Some token), w1) \<Rightarrow> (Inr (None, Some token), w1)
      | (Inr None, w1) \<Rightarrow>
          (case call (reserve_select key route) w1 of
             (Inl e, w2) \<Rightarrow> (Inl e, w2)
           | (Inr None, w2) \<Rightarrow> (Inl [ErrIdempotencyInProgress], w2)
           | (Inr (Some r), w2) \<Rightarrow>
               if id_RequestHash r \<noteq> requestHash then (Inl [ErrIdempotencyKeyMismatch], w2)
               else if sr_Status (id_Response r) = pendingStatus
               then (Inl [InProgressError (id_RRN r) (id_CreatedAt r)], w2)
               else (Inr (Some (id_Response r), None), w2)))"

definition Store_response :: "string \<Rightarrow> string \<Rightarrow> string \<Rightarrow> int \<Rightarrow> Transaction \<Rightarrow> unit dbop" where
  "Store_response key route requestHash status body d =
     (let resp = \<lparr>sr_Status = status, sr_Body = Some body\<rparr>
      in (Inr (), case find (idem_match key route) (db_idem d) of
           None \<Rightarrow> d\<lparr>db_idem := db_idem d @ [\<lparr>id_Key = key, id_Route = route, id_RequestHash = requestHash,
                     id_Response = resp, id_CreatedAt = db_now d, id_RRN = '''', id_Token = None\<rparr>]\<rparr>
         | Some _ \<Rightarrow> update_idem (idem_match key route)
                     (\<lambda>r. r\<lparr>id_RequestHash := requestHash, id_Response := resp\<rparr>) d))"

definition holds_token :: "string \<Rightarrow> string \<Rightarrow> nat \<Rightarrow> IdempotencyRow \<Rightarrow> bool" where
  "holds_token key route token r \<longleftrightarrow>
     idem_match key route r \<and> sr_Status (id_Response r) = pendingStatus \<and> id_Token r = Some token"

definition idem_AttachRRN :: "string \<Rightarrow> string \<Rightarrow> nat \<Rightarrow> string \<Rightarrow> unit dbop" where
  "idem_AttachRRN key route token rrn d =
     (if \<not> list_ex (holds_token key route token) (db_idem d) then (Inl [ErrReservationLost], d)
      else (Inr (), update_idem (holds_token key route token) (\<lambda>r. r\<lparr>id_RRN := rrn\<rparr>) d))"

definition Release :: "string \<Rightarrow> string \<Rightarrow> nat \<Rightarrow> unit dbop" where
  "Release key route token d =
     (Inr (), d\<lparr>db_idem := filter (\<lambda>r. \<not> holds_token key route token r) (db_idem d)\<rparr>)"

definition reclaimable :: "string \<Rightarrow> string \<Rightarrow> string \<Rightarrow> time \<Rightarrow> IdempotencyRow \<Rightarrow> bool" where
  "reclaimable key route requestHash before r \<longleftrightarrow>
     idem_match key route r \<and> id_RequestHash r = requestHash \<and> sr_Status (id_Response r) = pendingStatus
     \<and> id_RRN r = '''' \<and> id_CreatedAt r < before"

definition Reclaim :: "string \<Rightarrow> string \<Rightarrow> string \<Rightarrow> int \<Rightarrow> nat option dbop" where
  "Reclaim key route requestHash stale d =
     (let P = reclaimable key route requestHash (db_now d - stale); tok = db_uuid d
      in if \<not> list_ex P (db_idem d) then (Inr None, d)
         else (Inr (Some tok),
               (update_idem P (\<lambda>r. r\<lparr>id_CreatedAt := db_now d, id_Token := Some tok\<rparr>) d)\<lparr>db_uuid := tok + 1\<rparr>))"

section \<open>The store-and-forward queue\<close>

definition mtiReversalAdvice :: string where "mtiReversalAdvice = ''0420''"
definition mtiCompletionAdvice :: string where "mtiCompletionAdvice = ''0220''"

definition insert_saf :: "int \<Rightarrow> string \<Rightarrow> payload \<Rightarrow> db \<Rightarrow> db" where
  "insert_saf tranID mti pl d =
     (let newid = db_saf_seq d + 1 in
      d\<lparr>db_saf := db_saf d @ [\<lparr>sf_ID = newid, sf_TranID = tranID, sf_MTI = mti, sf_Payload = pl, sf_Status = ''PENDING'',
           sf_Attempts = 0, sf_MaxAttempts = 20, sf_NextRetryAt = db_now d, sf_LastError = [], sf_CreatedAt = db_now d,
           sf_AckedAt = None\<rparr>], db_saf_seq := newid\<rparr>)"

text \<open>\<open>saf_queue.tran_id\<close> references \<open>tran_log(id)\<close>.\<close>

definition Enqueue :: "int \<Rightarrow> string \<Rightarrow> payload \<Rightarrow> int dbop" where
  "Enqueue tranID mti pl d =
     (if affected (\<lambda>r. tl_ID r = tranID) d = 0 then (Inl [ErrDatabase], d)
      else (Inr (db_saf_seq d + 1), insert_saf tranID mti pl d))"

definition update_saf :: "(SafRow \<Rightarrow> bool) \<Rightarrow> (SafRow \<Rightarrow> SafRow) \<Rightarrow> db \<Rightarrow> db" where
  "update_saf P f d = d\<lparr>db_saf := map (\<lambda>s. if P s then f s else s) (db_saf d)\<rparr>"

definition due :: "time \<Rightarrow> SafRow \<Rightarrow> bool" where
  "due now s \<longleftrightarrow> sf_Status s \<in> {''PENDING'', ''IN_FLIGHT''} \<and> sf_NextRetryAt s \<le> now"

text \<open>One statement: the due rows in id order, at most \<open>limit\<close>, become \<open>IN_FLIGHT\<close> with a lease.\<close>

definition ClaimDue :: "nat \<Rightarrow> int \<Rightarrow> SafRow list dbop" where
  "ClaimDue limit lease d =
     (let ids = map sf_ID (take limit (sort_key sf_ID (filter (due (db_now d)) (db_saf d))));
          claim = (\<lambda>s. s\<lparr>sf_Status := ''IN_FLIGHT'', sf_NextRetryAt := db_now d + lease\<rparr>);
          mine = (\<lambda>s. sf_ID s \<in> set ids)
      in (Inr (map claim (filter mine (db_saf d))), update_saf mine claim d))"

definition UpdatePayload :: "int \<Rightarrow> payload \<Rightarrow> unit dbop" where
  "UpdatePayload i pl d = (Inr (), update_saf (\<lambda>s. sf_ID s = i) (\<lambda>s. s\<lparr>sf_Payload := pl\<rparr>) d)"

definition MarkInFlight :: "int \<Rightarrow> int \<Rightarrow> time \<Rightarrow> goerror \<Rightarrow> unit dbop" where
  "MarkInFlight i attempts nextRetryAt lastError d =
     (Inr (), update_saf (\<lambda>s. sf_ID s = i)
        (\<lambda>s. s\<lparr>sf_Status := ''IN_FLIGHT'', sf_Attempts := attempts, sf_NextRetryAt := nextRetryAt,
               sf_LastError := lastError\<rparr>) d)"

definition MarkDead :: "int \<Rightarrow> goerror \<Rightarrow> unit dbop" where
  "MarkDead i lastError d =
     (Inr (), update_saf (\<lambda>s. sf_ID s = i) (\<lambda>s. s\<lparr>sf_Status := ''DEAD'', sf_LastError := lastError\<rparr>) d)"

definition FindReversal :: "int \<Rightarrow> SafRow dbop" where
  "FindReversal tranID d =
     ((case newest_by sf_ID (filter (\<lambda>s. sf_TranID s = tranID \<and> sf_MTI s = mtiReversalAdvice) (db_saf d)) of
         None \<Rightarrow> Inl [ErrNotFound] | Some s \<Rightarrow> Inr s), d)"

definition finishOnAck :: "int \<Rightarrow> string \<Rightarrow> string \<Rightarrow> (TranLogRow \<Rightarrow> TranLogRow) \<Rightarrow> db \<Rightarrow> db" where
  "finishOnAck tranID from to upd d =
     (let P = (\<lambda>r. tl_ID r = tranID \<and> tl_Status r = from)
      in if affected P d = 0 then d else add_history tranID from to (update_tran P upd d))"

definition MarkAcked :: "int \<Rightarrow> unit dbop" where
  "MarkAcked i d =
     (case find (\<lambda>s. sf_ID s = i) (db_saf d) of
        None \<Rightarrow> (Inl [ErrDatabase], d)
      | Some s \<Rightarrow>
          let d1 = update_saf (\<lambda>s. sf_ID s = i) (\<lambda>s. s\<lparr>sf_Status := ''ACKED'', sf_AckedAt := Some (db_now d)\<rparr>) d
          in (Inr (),
              if sf_MTI s = mtiReversalAdvice
              then finishOnAck (sf_TranID s) ''REVERSAL_PENDING'' ''REVERSED'' (\<lambda>r. r\<lparr>tl_Status := ''REVERSED''\<rparr>) d1
              else if sf_MTI s = mtiCompletionAdvice
              then finishOnAck (sf_TranID s) ''TIMED_OUT'' ''APPROVED''
                     (\<lambda>r. r\<lparr>tl_Status := ''APPROVED'', tl_ResponseCode := ''00'', tl_RespondedAt := Some (db_now d)\<rparr>) d1
              else d1))"

definition TranRRN :: "int \<Rightarrow> string dbop" where
  "TranRRN i d =
     ((case find (\<lambda>s. sf_ID s = i) (db_saf d) of
         None \<Rightarrow> Inl [ErrNotFound]
       | Some s \<Rightarrow> (case find (\<lambda>r. tl_ID r = sf_TranID s) (db_tran d) of
                      None \<Rightarrow> Inl [ErrNotFound] | Some r \<Rightarrow> Inr (tl_RRN r))), d)"

definition owed :: "SafRow \<Rightarrow> bool" where
  "owed s \<longleftrightarrow> sf_Status s \<in> {''PENDING'', ''IN_FLIGHT''}"

definition ListPending :: "(SafRow list \<times> nat) dbop" where
  "ListPending d =
     (Inr (sort_key sf_ID (filter owed (db_saf d)), length (filter (\<lambda>s. sf_Status s = ''DEAD'') (db_saf d))), d)"

record SafItemRow =
  si_ID :: int
  si_MTI :: string
  si_RRN :: string
  si_AmountMinor :: int
  si_Currency :: string
  si_Attempts :: int
  si_Status :: string
  si_NextRetryAt :: time
  si_LastError :: goerror

record SafSnapshot =
  sn_Items :: "SafItemRow list"
  sn_Depth :: nat
  sn_DeadCount :: nat

definition SafItemsCap :: nat where "SafItemsCap = 200"

definition saf_item :: "db \<Rightarrow> SafRow \<Rightarrow> SafItemRow option" where
  "saf_item d s =
     map_option (\<lambda>t. \<lparr>si_ID = sf_ID s, si_MTI = sf_MTI s, si_RRN = tl_RRN t, si_AmountMinor = tl_Amount t,
         si_Currency = tl_Currency t, si_Attempts = sf_Attempts s, si_Status = sf_Status s,
         si_NextRetryAt = sf_NextRetryAt s, si_LastError = sf_LastError s\<rparr>)
       (find (\<lambda>t. tl_ID t = sf_TranID s) (db_tran d))"

definition saf_counts :: "(nat \<times> nat) dbop" where
  "saf_counts d = (Inr (length (filter owed (db_saf d)), length (filter (\<lambda>s. sf_Status s = ''DEAD'') (db_saf d))), d)"

definition saf_items :: "SafItemRow list dbop" where
  "saf_items d =
     (let items = List.map_filter (saf_item d) (filter (\<lambda>s. owed s \<or> sf_Status s = ''DEAD'') (db_saf d))
      in (Inr (take SafItemsCap (sort_key (\<lambda>i. si_Status i = ''DEAD'') (sort_key si_ID items))), d))"

definition ListItems :: "'z world_scheme \<Rightarrow> (goerror + SafSnapshot) \<times> 'z world_scheme" where
  "ListItems w =
     (case call saf_counts w of
        (Inl e, w1) \<Rightarrow> (Inl e, w1)
      | (Inr (depth, dead), w1) \<Rightarrow>
          (case call saf_items w1 of
             (Inl e, w2) \<Rightarrow> (Inl e, w2)
           | (Inr items, w2) \<Rightarrow> (Inr \<lparr>sn_Items = items, sn_Depth = depth, sn_DeadCount = dead\<rparr>, w2)))"

section \<open>Terminals and merchants\<close>

definition Merchant_of :: "string \<Rightarrow> Merchant dbop" where
  "Merchant_of tid d =
     ((case map_of (db_terminal d) tid of
         None \<Rightarrow> Inl [ErrUnknownTerminal]
       | Some mid \<Rightarrow> (case find (\<lambda>m. me_MID m = mid) (db_merchant d) of
                        None \<Rightarrow> Inl [ErrUnknownTerminal] | Some m \<Rightarrow> Inr m)), d)"

record FixtureTerminal =
  ft_TerminalID :: string
  ft_MerchantID :: string
  ft_MerchantName :: string
  ft_MCC :: string

definition upsert_merchant :: "Merchant \<Rightarrow> Merchant list \<Rightarrow> Merchant list" where
  "upsert_merchant m ms =
     (if list_ex (\<lambda>x. me_MID x = me_MID m) ms then map (\<lambda>x. if me_MID x = me_MID m then m else x) ms else ms @ [m])"

definition upsert_fixture :: "FixtureTerminal \<Rightarrow> db \<Rightarrow> db" where
  "upsert_fixture t d =
     d\<lparr>db_merchant := upsert_merchant \<lparr>me_MID = ft_MerchantID t, me_Name = ft_MerchantName t, me_MCC = ft_MCC t\<rparr> (db_merchant d),
       db_terminal := AList.update (ft_TerminalID t) (ft_MerchantID t) (db_terminal d)\<rparr>"

definition UpsertFromFixture :: "FixtureTerminal list \<Rightarrow> unit dbop" where
  "UpsertFromFixture ts d = (Inr (), fold upsert_fixture ts d)"

section \<open>Lemmas: updates and calls\<close>

lemma update_tran_simps [simp]:
  "db_tran (update_tran P f d) = map (\<lambda>r. if P r then f r else r) (db_tran d)"
  "db_history (update_tran P f d) = db_history d" "db_saf (update_tran P f d) = db_saf d"
  "db_idem (update_tran P f d) = db_idem d" "db_now (update_tran P f d) = db_now d"
  "db_tran_seq (update_tran P f d) = db_tran_seq d" "db_saf_seq (update_tran P f d) = db_saf_seq d"
  "db_merchant (update_tran P f d) = db_merchant d" "db_terminal (update_tran P f d) = db_terminal d"
  "db_uuid (update_tran P f d) = db_uuid d"
  by (simp_all add: update_tran_def)

lemma add_history_simps [simp]:
  "db_tran (add_history i a b d) = db_tran d" "db_saf (add_history i a b d) = db_saf d"
  "db_idem (add_history i a b d) = db_idem d" "db_now (add_history i a b d) = db_now d"
  "db_tran_seq (add_history i a b d) = db_tran_seq d" "db_saf_seq (add_history i a b d) = db_saf_seq d"
  "db_merchant (add_history i a b d) = db_merchant d" "db_terminal (add_history i a b d) = db_terminal d"
  "db_uuid (add_history i a b d) = db_uuid d"
  by (simp_all add: add_history_def)

lemma insert_saf_simps [simp]:
  "db_tran (insert_saf i m p d) = db_tran d" "db_history (insert_saf i m p d) = db_history d"
  "db_idem (insert_saf i m p d) = db_idem d" "db_now (insert_saf i m p d) = db_now d"
  "db_tran_seq (insert_saf i m p d) = db_tran_seq d" "db_uuid (insert_saf i m p d) = db_uuid d"
  by (simp_all add: insert_saf_def Let_def)

lemma update_saf_simps [simp]:
  "db_saf (update_saf P f d) = map (\<lambda>s. if P s then f s else s) (db_saf d)"
  "db_tran (update_saf P f d) = db_tran d" "db_history (update_saf P f d) = db_history d"
  "db_idem (update_saf P f d) = db_idem d" "db_now (update_saf P f d) = db_now d"
  "db_tran_seq (update_saf P f d) = db_tran_seq d" "db_saf_seq (update_saf P f d) = db_saf_seq d"
  by (simp_all add: update_saf_def)

lemma affected_0: "affected P d = 0 \<longleftrightarrow> (\<forall>r \<in> set (db_tran d). \<not> P r)"
  by (simp add: affected_def filter_empty_conv)

text \<open>The three ways a call can go, for case analysis: the operation applied to the database the
  environment left, its result reported or lost, or nothing done.\<close>

lemma call_cases:
  obtains (ok) d0 where "d0 = w_db w \<or> (\<exists>s \<in> set (w_sched w). d0 = sc_env s (w_db w))"
      "fst (call op w) = fst (op d0)" "w_db (snd (call op w)) = snd (op d0)"
  | (unacked) s where "s \<in> set (w_sched w)" "fst (call op w) = Inl [ErrDatabase]"
      "w_db (snd (call op w)) = snd (op (sc_env s (w_db w)))"
  | (lost) s where "s \<in> set (w_sched w)" "fst (call op w) = Inl [ErrDatabase]"
      "w_db (snd (call op w)) = sc_env s (w_db w)"
proof (cases "w_sched w")
  case Nil
  with ok [of "w_db w"] show ?thesis by (auto simp: call_def split: prod.splits)
next
  case (Cons s rest)
  then have "s \<in> set (w_sched w)" by simp
  with Cons show ?thesis
    by (cases "sc_fault s") (auto simp: call_def Let_def split: prod.splits intro: ok [of "sc_env s (w_db w)"] unacked lost)
qed

end
