(* ===== verification/Hsm.thy ===== *)
theory Hsm
  imports Store
begin

text \<open>
  The security module of \<open>src/gateway-go/internal/hsm\<close> (\<open>jce.go\<close>), the key table of
  \<open>store/keystore.go\<close> and the response MAC check of \<open>purchase/mac.go\<close>. Go's \<open>crypto/des\<close> and
  \<open>crypto/aes\<close> block functions are a parameter (\<open>ciphers\<close>); triple DES is built from single DES as
  \<open>crypto/des\<close> documents it. The theorems: the Retail MAC of a message that carries its own MAC
  verifies, a tampered one only with a colliding MAC, PIN translation keeps the clear block, and
  activation leaves one active key.
\<close>

section \<open>Block ciphers\<close>

type_synonym bytes = "8 word list"

record ciphers =
  des_Encrypt :: "bytes \<Rightarrow> bytes \<Rightarrow> bytes"
  des_Decrypt :: "bytes \<Rightarrow> bytes \<Rightarrow> bytes"
  aes_Encrypt :: "bytes \<Rightarrow> bytes \<Rightarrow> bytes"

text \<open>What the code relies on: on 8-byte keys and blocks, decryption inverts encryption and both return 8 bytes.\<close>

definition des_ok :: "ciphers \<Rightarrow> bool" where
  "des_ok c \<longleftrightarrow> (\<forall>k b. length k = 8 \<longrightarrow> length b = 8 \<longrightarrow>
     length (des_Encrypt c k b) = 8 \<and> length (des_Decrypt c k b) = 8 \<and>
     des_Decrypt c k (des_Encrypt c k b) = b \<and> des_Encrypt c k (des_Decrypt c k b) = b)"

definition xor_bytes :: "bytes \<Rightarrow> bytes \<Rightarrow> bytes" where
  "xor_bytes a b = map2 (XOR) a b"

text \<open>\<open>cipher.NewCBCEncrypter(block, iv).CryptBlocks\<close> on a whole number of 8-byte blocks.\<close>

function cbc_encrypt :: "(bytes \<Rightarrow> bytes) \<Rightarrow> bytes \<Rightarrow> bytes \<Rightarrow> bytes" where
  "cbc_encrypt E iv b =
     (if b = [] then []
      else let c = E (xor_bytes iv (take 8 b)) in c @ cbc_encrypt E c (drop 8 b))"
  by pat_completeness auto
termination
  by (relation "measure (\<lambda>(E, iv, b). length b)") auto

declare cbc_encrypt.simps [simp del]

section \<open>The security module\<close>

fun pad_loop :: "nat \<Rightarrow> bytes \<Rightarrow> bytes" where
  "pad_loop 0 b = b"
| "pad_loop (Suc n) b = pad_loop n (b @ [0])"

text \<open>The loop runs until the length is a multiple of the block size, that is \<open>blockSize - len mod
  blockSize\<close> times.\<close>

definition zeroPad :: "bytes \<Rightarrow> nat \<Rightarrow> bytes" where
  "zeroPad data blockSize =
     (if length data mod blockSize = 0 then data
      else pad_loop (blockSize - length data mod blockSize) data)"

definition ComputeMAC :: "ciphers \<Rightarrow> bytes \<Rightarrow> bytes \<Rightarrow> goerror + bytes" where
  "ComputeMAC c msg zak =
     (if length zak \<noteq> 16 then Inl [ErrHsm]
      else let k1 = take 8 zak; k2 = take 8 (drop 8 zak);
               padded = zeroPad msg 8;
               encrypted = cbc_encrypt (des_Encrypt c k1) (replicate 8 0) padded;
               lastBlock = drop (length encrypted - 8) encrypted;
               intermediate = des_Decrypt c k2 lastBlock
           in Inr (des_Encrypt c k1 intermediate))"

definition tdes_Encrypt :: "ciphers \<Rightarrow> bytes \<Rightarrow> bytes \<Rightarrow> bytes" where
  "tdes_Encrypt c key b =
     des_Encrypt c (take 8 (drop 16 key)) (des_Decrypt c (take 8 (drop 8 key)) (des_Encrypt c (take 8 key) b))"

definition tdes_Decrypt :: "ciphers \<Rightarrow> bytes \<Rightarrow> bytes \<Rightarrow> bytes" where
  "tdes_Decrypt c key b =
     des_Decrypt c (take 8 key) (des_Encrypt c (take 8 (drop 8 key)) (des_Decrypt c (take 8 (drop 16 key)) b))"

definition desCipher :: "ciphers \<Rightarrow> bytes \<Rightarrow> goerror + ((bytes \<Rightarrow> bytes) \<times> (bytes \<Rightarrow> bytes))" where
  "desCipher c key =
     (if length key = 8 then Inr (des_Encrypt c key, des_Decrypt c key)
      else if length key = 16
      then let k = key @ take 8 key in Inr (tdes_Encrypt c k, tdes_Decrypt c k)
      else if length key = 24 then Inr (tdes_Encrypt c key, tdes_Decrypt c key)
      else Inl [ErrHsm])"

definition desECBDecryptBlock :: "ciphers \<Rightarrow> bytes \<Rightarrow> bytes \<Rightarrow> goerror + bytes" where
  "desECBDecryptBlock c key block =
     (case desCipher c key of
        Inl e \<Rightarrow> Inl e
      | Inr (E, D) \<Rightarrow> if length block \<noteq> 8 then Inl [ErrHsm] else Inr (D block))"

definition desECBEncryptBlock :: "ciphers \<Rightarrow> bytes \<Rightarrow> bytes \<Rightarrow> goerror + bytes" where
  "desECBEncryptBlock c key block =
     (case desCipher c key of
        Inl e \<Rightarrow> Inl e
      | Inr (E, D) \<Rightarrow> if length block \<noteq> 8 then Inl [ErrHsm] else Inr (E block))"

definition TranslatePIN :: "ciphers \<Rightarrow> bytes \<Rightarrow> bytes \<Rightarrow> bytes \<Rightarrow> goerror + bytes" where
  "TranslatePIN c pinBlockUnderTPK tpk zpk =
     (case desECBDecryptBlock c tpk pinBlockUnderTPK of
        Inl e \<Rightarrow> Inl e
      | Inr clearPINBlock \<Rightarrow>
          (case desECBEncryptBlock c zpk clearPINBlock of
             Inl e \<Rightarrow> Inl e
           | Inr underZPK \<Rightarrow> Inr underZPK))"

text \<open>Hex of a byte string, lower case as \<open>hex.EncodeToString\<close> prints it.\<close>

definition EncodeToString :: "bytes \<Rightarrow> string" where
  "EncodeToString bs = concat (map (\<lambda>b. [hex_char (uint b div 16), hex_char (uint b mod 16)]) bs)"

definition ComputeKCV :: "ciphers \<Rightarrow> bytes \<Rightarrow> goerror + string" where
  "ComputeKCV c clearKey =
     (if length clearKey \<notin> {16, 24, 32} then Inl [ErrHsm]
      else Inr (ToUpper (EncodeToString (take 3 (aes_Encrypt c clearKey (replicate 16 0))))))"

definition WrapUnderLMK :: "string \<Rightarrow> bytes \<Rightarrow> keyblob" where
  "WrapUnderLMK lmk clearKey = KeySealed lmk clearKey"

definition Unwrap :: "string \<Rightarrow> keyblob \<Rightarrow> goerror + bytes" where
  "Unwrap lmk blob =
     (case blob of KeySealed l k \<Rightarrow> if l = lmk then Inr k else Inl [ErrHsm] | KeyGarbled \<Rightarrow> Inl [ErrHsm])"

section \<open>The key table\<close>

definition same_owner :: "KeyRow \<Rightarrow> KeyRow \<Rightarrow> bool" where
  "same_owner a b \<longleftrightarrow> ke_KeyType a = ke_KeyType b \<and> ke_OwnerRef a = ke_OwnerRef b"

definition key_Insert :: "KeyRow \<Rightarrow> int dbop" where
  "key_Insert row d =
     (let newid = db_key_seq d + 1 in
      (Inr newid, d\<lparr>db_keys := db_keys d @ [row\<lparr>ke_ID := newid, ke_Status := ''PENDING'', ke_ActivatedAt := None,
         ke_RetiredAt := None, ke_CreatedAt := db_now d\<rparr>], db_key_seq := newid\<rparr>))"

definition active_global :: "string \<Rightarrow> KeyRow \<Rightarrow> bool" where
  "active_global keyType k \<longleftrightarrow> ke_KeyType k = keyType \<and> ke_OwnerRef k = '''' \<and> ke_Status k = ''ACTIVE''"

definition EnsureActive :: "string \<Rightarrow> keyblob \<Rightarrow> string \<Rightarrow> bool dbop" where
  "EnsureActive keyType blob kcv d =
     (if list_ex (active_global keyType) (db_keys d) then (Inr False, d)
      else let newid = db_key_seq d + 1 in
        (Inr True, d\<lparr>db_keys := db_keys d @ [\<lparr>ke_ID = newid, ke_KeyType = keyType, ke_OwnerRef = '''',
           ke_KeyUnderLMKHex = blob, ke_KCV = kcv, ke_Status = ''ACTIVE'', ke_ActivatedAt = Some (db_now d),
           ke_RetiredAt = None, ke_CreatedAt = db_now d\<rparr>], db_key_seq := newid\<rparr>))"

definition ActiveKCV :: "string \<Rightarrow> string dbop" where
  "ActiveKCV keyType d =
     ((case find (active_global keyType) (db_keys d) of None \<Rightarrow> Inl [ErrDatabase] | Some k \<Rightarrow> Inr (ke_KCV k)), d)"

definition retire :: "time \<Rightarrow> KeyRow \<Rightarrow> KeyRow" where
  "retire now k = k\<lparr>ke_Status := ''RETIRED'', ke_RetiredAt := Some now\<rparr>"

text \<open>The three statements of the transaction, in order.\<close>

definition Activate :: "int \<Rightarrow> unit dbop" where
  "Activate i d =
     (let now = db_now d;
          siblings = (\<lambda>keys k. \<exists>x \<in> set keys. ke_ID x = i \<and> same_owner k x);
          keys1 = map (\<lambda>k. if ke_Status k = ''ACTIVE'' \<and> siblings (db_keys d) k then retire now k else k) (db_keys d);
          keys2 = map (\<lambda>k. if ke_ID k = i then k\<lparr>ke_Status := ''ACTIVE'', ke_ActivatedAt := Some now\<rparr> else k) keys1;
          keys3 = map (\<lambda>k. if ke_Status k = ''PENDING'' \<and> ke_ID k \<noteq> i \<and> siblings keys2 k then retire now k else k) keys2
      in (Inr (), d\<lparr>db_keys := keys3\<rparr>))"

definition key_List :: "KeyRow list dbop" where
  "key_List d = (Inr (sort_key ke_ID (db_keys d)), d)"

definition key_Get :: "int \<Rightarrow> KeyRow dbop" where
  "key_Get i d = ((case find (\<lambda>k. ke_ID k = i) (db_keys d) of None \<Rightarrow> Inl [ErrDatabase] | Some k \<Rightarrow> Inr k), d)"

definition ListCurrent :: "KeyRow list dbop" where
  "ListCurrent d = (Inr (sort_key ke_ID (filter (\<lambda>k. ke_Status k \<in> {''ACTIVE'', ''PENDING''}) (db_keys d))), d)"

definition RetirePending :: "int \<Rightarrow> unit dbop" where
  "RetirePending i d =
     (Inr (), d\<lparr>db_keys := map (\<lambda>k. if ke_ID k = i \<and> ke_Status k = ''PENDING'' then retire (db_now d) k else k) (db_keys d)\<rparr>)"

definition recently_retired :: "string \<Rightarrow> string \<Rightarrow> time \<Rightarrow> KeyRow \<Rightarrow> bool" where
  "recently_retired keyType ownerRef after k \<longleftrightarrow>
     ke_KeyType k = keyType \<and> ke_OwnerRef k = ownerRef \<and> ke_Status k = ''RETIRED'' \<and> ke_ActivatedAt k \<noteq> None
     \<and> (case ke_RetiredAt k of None \<Rightarrow> False | Some t \<Rightarrow> t > after)"

definition FindRecentlyRetired :: "string \<Rightarrow> string \<Rightarrow> int \<Rightarrow> KeyRow option dbop" where
  "FindRecentlyRetired keyType ownerRef within d =
     (Inr (newest_by (\<lambda>k. case ke_RetiredAt k of None \<Rightarrow> 0 | Some t \<Rightarrow> t)
             (filter (recently_retired keyType ownerRef (db_now d - within)) (db_keys d))), d)"

definition FindPending :: "string \<Rightarrow> string \<Rightarrow> KeyRow option dbop" where
  "FindPending keyType ownerRef d =
     (Inr (newest_by ke_ID (filter (\<lambda>k. ke_KeyType k = keyType \<and> ke_OwnerRef k = ownerRef
             \<and> ke_Status k = ''PENDING'') (db_keys d))), d)"

definition FallbackKeys ::
  "string \<Rightarrow> string \<Rightarrow> int \<Rightarrow> 'z world_scheme \<Rightarrow> (goerror + KeyRow list) \<times> 'z world_scheme" where
  "FallbackKeys keyType ownerRef within w =
     (case call (FindPending keyType ownerRef) w of
        (Inl e, w1) \<Rightarrow> (Inl e, w1)
      | (Inr pending, w1) \<Rightarrow>
          (case call (FindRecentlyRetired keyType ownerRef within) w1 of
             (Inl e, w2) \<Rightarrow> (Inl e, w2)
           | (Inr retired, w2) \<Rightarrow>
               (Inr ((case pending of None \<Rightarrow> [] | Some k \<Rightarrow> [k]) @ (case retired of None \<Rightarrow> [] | Some k \<Rightarrow> [k])), w2)))"

section \<open>Response MACs\<close>

definition dualKeyWindow :: int where "dualKeyWindow = 300 * second_ns"

definition bytes_of :: "string \<Rightarrow> bytes" where
  "bytes_of s = map of_char s"

definition macFieldOf :: "fields \<Rightarrow> (string \<times> int) option" where
  "macFieldOf fs =
     (case map_of fs 64 of
        Some v \<Rightarrow> Some (v, 64)
      | None \<Rightarrow> (case map_of fs 128 of Some v \<Rightarrow> Some (v, 128) | None \<Rightarrow> None))"

definition EqualFold :: "string \<Rightarrow> string \<Rightarrow> bool" where
  "EqualFold a b \<longleftrightarrow> ToUpper a = ToUpper b"

record mac_env =
  me_ciphers :: ciphers
  me_lmk :: string

definition macMatches :: "mac_env \<Rightarrow> string \<Rightarrow> string \<Rightarrow> bytes \<Rightarrow> bool" where
  "macMatches g pkt macHex zak =
     (case ComputeMAC (me_ciphers g) (bytes_of pkt) zak of
        Inl _ \<Rightarrow> False
      | Inr expected \<Rightarrow> EqualFold macHex (EncodeToString expected))"

definition fallbackZAKs :: "'z world_scheme \<Rightarrow> KeyRow list \<times> 'z world_scheme" where
  "fallbackZAKs w =
     (case FallbackKeys ''ZAK'' '''' dualKeyWindow w of (Inl _, w1) \<Rightarrow> ([], w1) | (Inr keys, w1) \<Rightarrow> (keys, w1))"

definition macMatchesRecentlyRetiredZAK ::
  "mac_env \<Rightarrow> string \<Rightarrow> string \<Rightarrow> 'z world_scheme \<Rightarrow> bool \<times> 'z world_scheme" where
  "macMatchesRecentlyRetiredZAK g pkt macHex w =
     (case fallbackZAKs w of
        (keys, w1) \<Rightarrow>
          (list_ex (\<lambda>k. case Unwrap (me_lmk g) (ke_KeyUnderLMKHex k) of
                          Inl _ \<Rightarrow> False | Inr zak \<Rightarrow> macMatches g pkt macHex zak) keys, w1))"

definition Verify :: "mac_env \<Rightarrow> bytes \<Rightarrow> string \<Rightarrow> fields \<Rightarrow> 'z world_scheme \<Rightarrow> bool \<times> 'z world_scheme" where
  "Verify g activeZAK mti resp w =
     (case macFieldOf resp of
        None \<Rightarrow> (False, w)
      | Some (macHex, macField) \<Rightarrow>
          let respWithoutMAC = filter (\<lambda>(n, v). n \<noteq> macField) resp in
          (case Pack mti respWithoutMAC of
             Inl _ \<Rightarrow> (False, w)
           | Inr pkt \<Rightarrow>
               if macMatches g pkt macHex activeZAK then (True, w)
               else macMatchesRecentlyRetiredZAK g pkt macHex w))"

text \<open>What the services do to a request before sending it: DE 64 over the packed message.\<close>

definition attachMAC :: "mac_env \<Rightarrow> bytes \<Rightarrow> string \<Rightarrow> fields \<Rightarrow> goerror + fields" where
  "attachMAC g zak mti fs =
     (case Pack mti fs of
        Inl e \<Rightarrow> Inl [ErrPack e]
      | Inr pkt \<Rightarrow>
          (case ComputeMAC (me_ciphers g) (bytes_of pkt) zak of
             Inl e \<Rightarrow> Inl e
           | Inr mac \<Rightarrow> Inr (fput 64 (ToUpper (EncodeToString mac)) fs)))"

section \<open>Lemmas\<close>

lemma to_upper_char_idem [simp]: "to_upper_char (to_upper_char c) = to_upper_char c"
proof (cases "97 \<le> (of_char c :: int) \<and> (of_char c :: int) \<le> 122")
  case True
  then have "(of_char (char_of ((of_char c :: int) - 32)) :: int) = of_char c - 32"
    by (intro of_char_of_small) auto
  with True show ?thesis by (simp add: to_upper_char_def Let_def del: of_char_of)
qed (auto simp: to_upper_char_def Let_def)

lemma EqualFold_ToUpper [simp]: "EqualFold (ToUpper s) s"
  by (simp add: EqualFold_def ToUpper_def)

lemma filter_fput_same: "n \<notin> fst ` set fs \<Longrightarrow> filter (\<lambda>(m, v). m \<noteq> n) (fput n x fs) = fs"
  by (induction fs) (auto simp: fput_def)

lemma attachMAC_Inr:
  assumes "attachMAC g zak mti fs = Inr fs'"
  obtains pkt mac where "Pack mti fs = Inr pkt" "ComputeMAC (me_ciphers g) (bytes_of pkt) zak = Inr mac"
    "fs' = fput 64 (ToUpper (EncodeToString mac)) fs"
  using assms by (auto simp: attachMAC_def split: sum.splits)

lemma Verify_attachMAC:
  assumes "attachMAC g zak mti fs = Inr fs'" "64 \<notin> fst ` set fs"
  shows "Verify g zak mti fs' w = (True, w)"
proof -
  from assms(1) obtain pkt mac where p: "Pack mti fs = Inr pkt" "ComputeMAC (me_ciphers g) (bytes_of pkt) zak = Inr mac"
    "fs' = fput 64 (ToUpper (EncodeToString mac)) fs" by (rule attachMAC_Inr)
  with assms(2) show ?thesis
    by (simp add: Verify_def macFieldOf_def filter_fput_same macMatches_def)
qed

text \<open>A key that may vouch for a response: sealed in the key table, pending or retired within the window.\<close>

definition fallback_key :: "string \<Rightarrow> db \<Rightarrow> bytes \<Rightarrow> bool" where
  "fallback_key lmk d zak \<longleftrightarrow>
     (\<exists>k \<in> set (db_keys d). Unwrap lmk (ke_KeyUnderLMKHex k) = Inr zak \<and> ke_KeyType k = ''ZAK'' \<and> ke_OwnerRef k = '''' \<and>
        (ke_Status k = ''PENDING'' \<or> recently_retired ''ZAK'' '''' (db_now d - dualKeyWindow) k))"

lemma FindPending_Some:
  "FindPending t ow d = (Inr (Some k), d') \<Longrightarrow>
   k \<in> set (db_keys d) \<and> ke_KeyType k = t \<and> ke_OwnerRef k = ow \<and> ke_Status k = ''PENDING''"
  unfolding FindPending_def by (auto dest: newest_by_Some(1))

lemma FindRecentlyRetired_Some:
  "FindRecentlyRetired t ow within d = (Inr (Some k), d') \<Longrightarrow>
   k \<in> set (db_keys d) \<and> recently_retired t ow (db_now d - within) k"
  unfolding FindRecentlyRetired_def by (auto dest: newest_by_Some(1))

lemma FallbackKeys_no_sched:
  assumes "w_sched w = []"
  shows "\<exists>keys. FallbackKeys ''ZAK'' '''' dualKeyWindow w = (Inr keys, w) \<and>
    (\<forall>k \<in> set keys. \<forall>zak. Unwrap lmk (ke_KeyUnderLMKHex k) = Inr zak \<longrightarrow> fallback_key lmk (w_db w) zak)"
proof -
  obtain p where p: "FindPending ''ZAK'' '''' (w_db w) = (Inr p, w_db w)" by (simp add: FindPending_def)
  obtain r where r: "FindRecentlyRetired ''ZAK'' '''' dualKeyWindow (w_db w) = (Inr r, w_db w)"
    by (simp add: FindRecentlyRetired_def)
  have "FallbackKeys ''ZAK'' '''' dualKeyWindow w
      = (Inr ((case p of None \<Rightarrow> [] | Some k \<Rightarrow> [k]) @ (case r of None \<Rightarrow> [] | Some k \<Rightarrow> [k])), w)"
    using assms by (simp add: FallbackKeys_def call_def p r)
  moreover have "fallback_key lmk (w_db w) zak"
    if "k \<in> set ((case p of None \<Rightarrow> [] | Some k \<Rightarrow> [k]) @ (case r of None \<Rightarrow> [] | Some k \<Rightarrow> [k]))"
      "Unwrap lmk (ke_KeyUnderLMKHex k) = Inr zak" for k zak
    using that p r FindPending_Some FindRecentlyRetired_Some
    unfolding fallback_key_def
    by (fastforce split: option.splits simp: recently_retired_def)
  ultimately show ?thesis by blast
qed

lemma Verify_True:
  assumes "Verify g zak mti resp w = (True, w')" "w_sched w = []"
  shows "\<exists>macHex macField pkt key mac. macFieldOf resp = Some (macHex, macField) \<and>
    Pack mti (filter (\<lambda>(n, v). n \<noteq> macField) resp) = Inr pkt \<and>
    ComputeMAC (me_ciphers g) (bytes_of pkt) key = Inr mac \<and> EqualFold macHex (EncodeToString mac) \<and>
    (key = zak \<or> fallback_key (me_lmk g) (w_db w) key)"
proof -
  from assms(1) obtain macHex macField pkt where m: "macFieldOf resp = Some (macHex, macField)"
    "Pack mti (filter (\<lambda>(n, v). n \<noteq> macField) resp) = Inr pkt"
    by (auto simp: Verify_def Let_def split: option.splits sum.splits)
  have "\<exists>key. (key = zak \<or> fallback_key (me_lmk g) (w_db w) key) \<and> macMatches g pkt macHex key"
  proof (cases "macMatches g pkt macHex zak")
    case False
    from FallbackKeys_no_sched [OF assms(2), of "me_lmk g"] obtain keys where k:
      "FallbackKeys ''ZAK'' '''' dualKeyWindow w = (Inr keys, w)"
      "\<And>k zak. k \<in> set keys \<Longrightarrow> Unwrap (me_lmk g) (ke_KeyUnderLMKHex k) = Inr zak \<Longrightarrow> fallback_key (me_lmk g) (w_db w) zak"
      by blast
    with assms(1) m False obtain k where "k \<in> set keys"
      "case Unwrap (me_lmk g) (ke_KeyUnderLMKHex k) of Inl _ \<Rightarrow> False | Inr zak \<Rightarrow> macMatches g pkt macHex zak"
      by (auto simp: Verify_def macMatchesRecentlyRetiredZAK_def fallbackZAKs_def list_ex_iff)
    with k(2) show ?thesis by (auto split: sum.splits)
  qed blast
  then obtain key where key: "key = zak \<or> fallback_key (me_lmk g) (w_db w) key" "macMatches g pkt macHex key"
    by blast
  then obtain mac where "ComputeMAC (me_ciphers g) (bytes_of pkt) key = Inr mac" "EqualFold macHex (EncodeToString mac)"
    by (cases "ComputeMAC (me_ciphers g) (bytes_of pkt) key") (auto simp: macMatches_def)
  with m key(1) show ?thesis by blast
qed

lemma des_okD:
  assumes "des_ok c" "length k = 8" "length b = 8"
  shows "length (des_Encrypt c k b) = 8" "length (des_Decrypt c k b) = 8"
    "des_Decrypt c k (des_Encrypt c k b) = b" "des_Encrypt c k (des_Decrypt c k b) = b"
  using assms unfolding des_ok_def by blast+

lemma desCipher_inverse:
  assumes "des_ok c" "desCipher c key = Inr (E, D)" "length b = 8"
  shows "D (E b) = b" "length (E b) = 8" "length (D b) = 8"
proof -
  have tdes: "tdes_Decrypt c k (tdes_Encrypt c k b) = b \<and> length (tdes_Encrypt c k b) = 8 \<and> length (tdes_Decrypt c k b) = 8"
    if "length k = 24" for k
    using that assms(1,3) by (simp add: tdes_Encrypt_def tdes_Decrypt_def des_okD)
  have "D (E b) = b \<and> length (E b) = 8 \<and> length (D b) = 8"
    using assms tdes [of key] tdes [of "key @ take 8 key"]
    by (auto simp: desCipher_def Let_def des_okD split: if_splits)
  then show "D (E b) = b" "length (E b) = 8" "length (D b) = 8" by auto
qed

lemma sibling_map:
  assumes "\<And>k. ke_ID (h k) = ke_ID k" "\<And>k. same_owner a (h k) = same_owner a k"
  shows "(\<exists>y \<in> set (map h ks). ke_ID y = i \<and> same_owner a y) \<longleftrightarrow> (\<exists>y \<in> set ks. ke_ID y = i \<and> same_owner a y)"
  using assms by auto

lemma Activate_keys:
  assumes "x \<in> set (db_keys d)" "ke_ID x = i" "distinct (map ke_ID (db_keys d))"
  shows "db_keys (snd (Activate i d)) = map (\<lambda>k.
      if ke_ID k = i then (if ke_Status k = ''ACTIVE'' then retire (db_now d) k else k)\<lparr>ke_Status := ''ACTIVE'', ke_ActivatedAt := Some (db_now d)\<rparr>
      else if ke_Status k \<in> {''ACTIVE'', ''PENDING''} \<and> same_owner k x then retire (db_now d) k
      else k) (db_keys d)"
proof -
  let ?ks = "db_keys d" and ?now = "db_now d"
  have uniq: "k = x" if "k \<in> set ?ks" "ke_ID k = i" for k
    using assms that by (metis (mono_tags, lifting) distinct_map inj_onD)
  have sib: "(\<exists>y \<in> set ?ks. ke_ID y = i \<and> same_owner k y) \<longleftrightarrow> same_owner k x" for k
    using uniq assms(1,2) by blast
  define h1 where "h1 = (\<lambda>k :: KeyRow. if ke_Status k = ''ACTIVE'' \<and> same_owner k x then retire ?now k else k)"
  define h2 where "h2 = (\<lambda>k :: KeyRow. if ke_ID k = i then k\<lparr>ke_Status := ''ACTIVE'', ke_ActivatedAt := Some ?now\<rparr> else k)"
  have id: "ke_ID (h1 k) = ke_ID k" "ke_ID (h2 k) = ke_ID k" "same_owner a (h1 k) = same_owner a k"
    "same_owner a (h2 k) = same_owner a k" for a k
    by (auto simp: h1_def h2_def retire_def same_owner_def)
  have sib2: "(\<exists>y \<in> set (map h2 (map h1 ?ks)). ke_ID y = i \<and> same_owner k y) \<longleftrightarrow> same_owner k x" for k
    by (subst sibling_map, simp_all only: id, subst sibling_map, simp_all only: id sib)
  have "db_keys (snd (Activate i d)) = map (\<lambda>k. if ke_Status k = ''PENDING'' \<and> ke_ID k \<noteq> i \<and> same_owner k x
      then retire ?now k else k) (map h2 (map h1 ?ks))"
    unfolding Activate_def Let_def sib h1_def [symmetric] h2_def [symmetric] sib2 by simp
  also have "\<dots> = map (\<lambda>k.
      if ke_ID k = i then (if ke_Status k = ''ACTIVE'' then retire ?now k else k)\<lparr>ke_Status := ''ACTIVE'', ke_ActivatedAt := Some ?now\<rparr>
      else if ke_Status k \<in> {''ACTIVE'', ''PENDING''} \<and> same_owner k x then retire ?now k
      else k) ?ks"
    unfolding map_map
  proof (rule map_cong [OF refl])
    fix k assume k: "k \<in> set ?ks"
    have own: "same_owner k x" if "ke_ID k = i" using uniq [OF k that] by (simp add: same_owner_def)
    have ret: "ke_ID (retire ?now k) = ke_ID k" "same_owner (retire ?now k) x = same_owner k x" "ke_Status (retire ?now k) = ''RETIRED''"
      by (simp_all add: retire_def same_owner_def)
    show "((\<lambda>k. if ke_Status k = ''PENDING'' \<and> ke_ID k \<noteq> i \<and> same_owner k x then retire ?now k else k) \<circ> (h2 \<circ> h1)) k
      = (if ke_ID k = i then (if ke_Status k = ''ACTIVE'' then retire ?now k else k)\<lparr>ke_Status := ''ACTIVE'', ke_ActivatedAt := Some ?now\<rparr>
      else if ke_Status k \<in> {''ACTIVE'', ''PENDING''} \<and> same_owner k x then retire ?now k
      else k)"
    proof (cases "ke_ID k = i")
      case True
      with own ret show ?thesis by (simp add: h1_def h2_def)
    next
      case False
      then show ?thesis
        by (cases "ke_Status k = ''ACTIVE''"; cases "same_owner k x") (simp_all add: h1_def h2_def ret)
    qed
  qed
  finally show ?thesis .
qed

section \<open>Properties of the security module\<close>

definition one_active :: "KeyRow list \<Rightarrow> bool" where
  "one_active ks \<longleftrightarrow> (\<forall>a \<in> set ks. \<forall>b \<in> set ks.
     ke_Status a = ''ACTIVE'' \<longrightarrow> ke_Status b = ''ACTIVE'' \<longrightarrow> same_owner a b \<longrightarrow> ke_ID a = ke_ID b)"

text \<open>C23: every request the services MAC verifies: a message whose DE 64 was attached under the
  active ZAK passes \<open>Verify\<close> under the same ZAK, without touching the database.\<close>

theorem attached_mac_verifies:
  assumes "attachMAC g zak mti fs = Inr fs'" "64 \<notin> fst ` set fs"
  shows "Verify g zak mti fs' w = (True, w)"
  by (rule Verify_attachMAC [OF assms])

definition toy_ciphers :: ciphers where
  "toy_ciphers = \<lparr>des_Encrypt = (\<lambda>k b. map2 (XOR) k b), des_Decrypt = (\<lambda>k b. map2 (XOR) k b), aes_Encrypt = (\<lambda>k b. b)\<rparr>"

definition toy_db :: db where
  "toy_db = \<lparr>db_now = 1727950000 * second_ns, db_merchant = [\<lparr>me_MID = ''GOCPHO000000001'', me_Name = ''Ca phe Goc Pho'', me_MCC = ''5814''\<rparr>],
     db_terminal = [(''00000042'', ''GOCPHO000000001'')], db_tran = [], db_tran_seq = 0, db_history = [], db_saf = [],
     db_saf_seq = 0, db_idem = [], db_uuid = 0, db_keys = [], db_key_seq = 0,
     db_links = [\<lparr>lk_Endpoint = ''issuer'', lk_Status = ''DISCONNECTED'', lk_LastEchoAt = None, lk_LastEchoLatencyMs = None,
       lk_P99LatencyMs = None, lk_InFlight = 0\<rparr>],
     db_events = [], db_event_seq = 0, db_rotations = [], db_rotation_seq = 0, db_audit = []\<rparr>"

definition toy_mac_env :: mac_env where
  "toy_mac_env = \<lparr>me_ciphers = toy_ciphers, me_lmk = ''lmk''\<rparr>"

definition toy_request :: fields where
  "toy_request = [(11, ''000042''), (7, ''0131142010'')]"

lemma toy_attached: "\<exists>fs'. attachMAC toy_mac_env (replicate 16 1) ''0200'' toy_request = Inr fs'"
proof -
  have "case attachMAC toy_mac_env (replicate 16 1) ''0200'' toy_request of Inl _ \<Rightarrow> False | Inr _ \<Rightarrow> True" by code_simp
  then show ?thesis by (auto split: sum.splits)
qed

theorem attached_mac_verifies_witness:
  "\<exists>fs'. attachMAC toy_mac_env (replicate 16 1) ''0200'' toy_request = Inr fs' \<and>
     fst (Verify toy_mac_env (replicate 16 1) ''0200'' fs' \<lparr>w_db = toy_db, w_sched = []\<rparr>)"
proof -
  obtain fs' where f: "attachMAC toy_mac_env (replicate 16 1) ''0200'' toy_request = Inr fs'" using toy_attached by blast
  with attached_mac_verifies [OF f, of "\<lparr>w_db = toy_db, w_sched = []\<rparr>"] show ?thesis by (simp add: toy_request_def)
qed

text \<open>C10: a response is accepted only with a Retail MAC, over the response without its MAC field, under
  the active ZAK, under a key whose rotation is pending, or under one retired less than five
  minutes ago; a response without a MAC never is.\<close>

theorem verified_mac_is_genuine:
  assumes "Verify g zak mti resp w = (True, w')" "w_sched w = []"
  shows "\<exists>macHex macField pkt key mac. macFieldOf resp = Some (macHex, macField) \<and>
    Pack mti (filter (\<lambda>(n, v). n \<noteq> macField) resp) = Inr pkt \<and>
    ComputeMAC (me_ciphers g) (bytes_of pkt) key = Inr mac \<and> EqualFold macHex (EncodeToString mac) \<and>
    (key = zak \<or> fallback_key (me_lmk g) (w_db w) key)"
  by (rule Verify_True [OF assms])

theorem verified_mac_is_genuine_witness:
  "\<exists>fs' macHex macField. attachMAC toy_mac_env (replicate 16 1) ''0200'' toy_request = Inr fs' \<and>
     macFieldOf fs' = Some (macHex, macField)"
proof -
  obtain fs' where f: "attachMAC toy_mac_env (replicate 16 1) ''0200'' toy_request = Inr fs'" using toy_attached by blast
  have "Verify toy_mac_env (replicate 16 1) ''0200'' fs' \<lparr>w_db = toy_db, w_sched = []\<rparr> = (True, \<lparr>w_db = toy_db, w_sched = []\<rparr>)"
    by (rule Verify_attachMAC [OF f]) (simp add: toy_request_def)
  from verified_mac_is_genuine [OF this] f show ?thesis by auto
qed

text \<open>C39: PIN translation keeps the clear PIN block: what the ZPK holder decrypts is what the TPK
  holder encrypted, for single, double and triple length keys.\<close>

theorem pin_translation:
  assumes "des_ok c" "TranslatePIN c blk tpk zpk = Inr out"
  shows "\<exists>clear. desECBDecryptBlock c tpk blk = Inr clear \<and> desECBDecryptBlock c zpk out = Inr clear"
proof -
  from assms(2) obtain clear where cl: "desECBDecryptBlock c tpk blk = Inr clear" "desECBEncryptBlock c zpk clear = Inr out"
    by (auto simp: TranslatePIN_def split: sum.splits)
  from cl(2) obtain E D where e: "desCipher c zpk = Inr (E, D)" "length clear = 8" "out = E clear"
    by (auto simp: desECBEncryptBlock_def split: sum.splits if_splits)
  from desCipher_inverse [OF assms(1) e(1,2)] e cl(1) show ?thesis by (simp add: desECBDecryptBlock_def)
qed

lemma xor_block_inverse:
  "length k = length b \<Longrightarrow> map2 (XOR) k (map2 (XOR) k b) = (b :: bytes)"
  by (induction k b rule: list_induct2) (simp_all add: xor.assoc [symmetric])

lemma toy_des_ok: "des_ok toy_ciphers"
  unfolding des_ok_def toy_ciphers_def using xor_block_inverse by simp

theorem pin_translation_witness:
  "\<exists>out clear. TranslatePIN toy_ciphers [1, 2, 3, 4, 5, 6, 7, 8] (replicate 16 9) (replicate 8 7) = Inr out \<and>
     desECBDecryptBlock toy_ciphers (replicate 8 7) out = Inr clear"
proof -
  have "case TranslatePIN toy_ciphers [1, 2, 3, 4, 5, 6, 7, 8] (replicate 16 9) (replicate 8 7) of Inl _ \<Rightarrow> False | Inr _ \<Rightarrow> True"
    by code_simp
  then obtain out where o: "TranslatePIN toy_ciphers [1, 2, 3, 4, 5, 6, 7, 8] (replicate 16 9) (replicate 8 7) = Inr out"
    by (auto split: sum.splits)
  from pin_translation [OF toy_des_ok this] o show ?thesis by blast
qed

lemma filter_map_other:
  "(\<And>k. k \<in> set ks \<Longrightarrow> \<not> P k \<Longrightarrow> h k = k) \<Longrightarrow> (\<And>k. P (h k) = P k) \<Longrightarrow>
   filter (\<lambda>k. \<not> P k) (map h ks) = filter (\<lambda>k. \<not> P k) ks"
  by (induction ks) auto

text \<open>What activation does to one row, with \<open>x\<close> the row activated.\<close>

definition activate_row :: "time \<Rightarrow> KeyRow \<Rightarrow> KeyRow \<Rightarrow> KeyRow" where
  "activate_row now x k =
     (if ke_ID k = ke_ID x then (if ke_Status k = ''ACTIVE'' then retire now k else k)\<lparr>ke_Status := ''ACTIVE'', ke_ActivatedAt := Some now\<rparr>
      else if ke_Status k \<in> {''ACTIVE'', ''PENDING''} \<and> same_owner k x then retire now k else k)"

lemma activate_row_keeps:
  "same_owner (activate_row now x k) y = same_owner k y" "same_owner y (activate_row now x k) = same_owner y k"
  "ke_ID (activate_row now x k) = ke_ID k" "ke_KCV (activate_row now x k) = ke_KCV k"
  "ke_KeyUnderLMKHex (activate_row now x k) = ke_KeyUnderLMKHex k"
  by (auto simp: activate_row_def same_owner_def retire_def)

lemma activate_row_status:
  "same_owner k x \<Longrightarrow> ke_ID k = ke_ID x \<and> ke_Status (activate_row now x k) = ''ACTIVE'' \<or>
     ke_ID k \<noteq> ke_ID x \<and> ke_Status (activate_row now x k) \<notin> {''ACTIVE'', ''PENDING''}"
  by (auto simp: activate_row_def retire_def)

lemma Activate_rows:
  assumes "x \<in> set (db_keys d)" "distinct (map ke_ID (db_keys d))"
  shows "db_keys (snd (Activate (ke_ID x) d)) = map (activate_row (db_now d) x) (db_keys d)"
  unfolding activate_row_def by (rule Activate_keys [OF assms(1) refl assms(2)])

lemma activate_row_other:
  assumes "x \<in> set ks" "distinct (map ke_ID ks)" "k \<in> set ks" "\<not> same_owner k x"
  shows "activate_row now x k = k"
proof -
  have "ke_ID k \<noteq> ke_ID x"
  proof
    assume "ke_ID k = ke_ID x"
    then have "k = x" using assms(1-3) by (metis (mono_tags, lifting) distinct_map inj_onD)
    with assms(4) show False by (simp add: same_owner_def)
  qed
  with assms(4) show ?thesis by (simp add: activate_row_def)
qed

lemma activate_rows_one_active:
  assumes "x \<in> set ks" "distinct (map ke_ID ks)" "one_active ks"
  shows "one_active (map (activate_row now x) ks)"
  unfolding one_active_def
proof (intro ballI impI)
  let ?h = "activate_row now x"
  fix a b assume ab: "a \<in> set (map ?h ks)" "b \<in> set (map ?h ks)" "ke_Status a = ''ACTIVE''" "ke_Status b = ''ACTIVE''" "same_owner a b"
  then obtain p q where pq: "p \<in> set ks" "q \<in> set ks" "a = ?h p" "b = ?h q" by (metis (no_types, lifting) imageE list.set_map)
  have pq_owner: "same_owner p q" using ab(5) by (simp add: pq activate_row_keeps)
  show "ke_ID a = ke_ID b"
  proof (cases "same_owner p x")
    case True
    with pq_owner have "same_owner q x" by (auto simp: same_owner_def)
    with True activate_row_status [of p x now] activate_row_status [of q x now] ab(3,4) pq(3,4) show ?thesis
      by (auto simp: activate_row_keeps)
  next
    case False
    with pq_owner have "\<not> same_owner q x" by (auto simp: same_owner_def)
    with False activate_row_other [OF assms(1,2)] pq ab(3-5) assms(3) show ?thesis unfolding one_active_def by metis
  qed
qed

text \<open>C24: activating a key makes it the one active key of its type and owner: the previous active key
  and any key left pending are retired in the same transaction, and other owners' keys are untouched.\<close>

theorem activation_unique:
  assumes "x \<in> set (db_keys d)" "ke_ID x = i" "distinct (map ke_ID (db_keys d))" "one_active (db_keys d)"
  shows "one_active (db_keys (snd (Activate i d))) \<and>
    (\<forall>k \<in> set (db_keys (snd (Activate i d))). same_owner k x \<longrightarrow> ke_ID k = i \<and> ke_Status k = ''ACTIVE'' \<or> ke_ID k \<noteq> i \<and> ke_Status k \<notin> {''ACTIVE'', ''PENDING''}) \<and>
    filter (\<lambda>k. \<not> same_owner k x) (db_keys (snd (Activate i d))) = filter (\<lambda>k. \<not> same_owner k x) (db_keys d)"
proof -
  let ?h = "activate_row (db_now d) x"
  have keys: "db_keys (snd (Activate i d)) = map ?h (db_keys d)" using Activate_rows [OF assms(1,3)] assms(2) by simp
  have "filter (\<lambda>k. \<not> same_owner k x) (map ?h (db_keys d)) = filter (\<lambda>k. \<not> same_owner k x) (db_keys d)"
    by (rule filter_map_other) (use activate_row_other [OF assms(1,3)] in \<open>auto simp: activate_row_keeps\<close>)
  moreover have "\<forall>k \<in> set (map ?h (db_keys d)). same_owner k x \<longrightarrow> ke_ID k = i \<and> ke_Status k = ''ACTIVE'' \<or> ke_ID k \<noteq> i \<and> ke_Status k \<notin> {''ACTIVE'', ''PENDING''}"
    unfolding set_map ball_simps(9) activate_row_keeps assms(2) [symmetric] using activate_row_status [of _ x "db_now d"] by blast
  ultimately show ?thesis unfolding keys using activate_rows_one_active [OF assms(1,3,4)] by blast
qed

definition toy_key :: "int \<Rightarrow> string \<Rightarrow> KeyRow" where
  "toy_key i st = \<lparr>ke_ID = i, ke_KeyType = ''ZAK'', ke_OwnerRef = '''', ke_KeyUnderLMKHex = KeySealed ''lmk'' (replicate 16 1),
     ke_KCV = ''ABCDEF'', ke_Status = st, ke_ActivatedAt = None, ke_RetiredAt = None, ke_CreatedAt = 0\<rparr>"

theorem activation_unique_witness:
  "one_active (db_keys (snd (Activate 3 (toy_db\<lparr>db_keys := [toy_key 1 ''ACTIVE'', toy_key 2 ''PENDING'', toy_key 3 ''PENDING'']\<rparr>))))"
proof -
  have "one_active [toy_key 1 ''ACTIVE'', toy_key 2 ''PENDING'', toy_key 3 ''PENDING'']"
    by (simp add: one_active_def toy_key_def)
  then show ?thesis
    using activation_unique [of "toy_key 3 ''PENDING''" "toy_db\<lparr>db_keys := [toy_key 1 ''ACTIVE'', toy_key 2 ''PENDING'', toy_key 3 ''PENDING'']\<rparr>" 3]
    by (simp add: toy_key_def)
qed

end
