(* ===== verification/Gateway_World.thy ===== *)
theory Gateway_World
  imports Hsm Isonet
begin

text \<open>
  What the services share: the gateway's configuration, its view of the issuer link, and the
  state they change (\<open>src/gateway-go/internal/purchase\<close> and \<open>saf\<close> ports). A \<open>Send\<close> takes the next item
  of a script: the result the multiplexer returns, how long it took, and what other goroutines did
  to the database meanwhile. Every message handed to the link is kept in \<open>gw_wire\<close>.
\<close>

record CardFixture =
  cf_CardToken :: string
  cf_PAN :: string
  cf_ExpiryYYMM :: string
  cf_Balance :: int
  cf_Currency :: string
  cf_CardRef :: string

record genv = mac_env +
  ge_cards :: "(string \<times> CardFixture) list"
  ge_calendar :: ClockCalendar
  ge_encKey :: string
  ge_backoff :: Backoff
  ge_rand :: "int \<Rightarrow> int"
  ge_traceID :: string
  ge_hash :: "string list \<Rightarrow> string"

record send_outcome =
  so_result :: "goerror + fields"
  so_elapsed :: int
  so_env :: "db \<Rightarrow> db"

datatype hub_event =
  HubTransaction string Transaction
| HubNetworkEvent string string string

record gw = world +
  gw_now :: time
  gw_zak :: bytes
  gw_stan :: int
  gw_links :: "bool list"
  gw_sends :: "send_outcome list"
  gw_wire :: "(string \<times> fields) list"
  gw_hub :: "hub_event list"
  gw_dups :: "bool list"
  gw_events :: "(string \<times> string \<times> string) list"
  gw_macFailures :: nat
  gw_safDead :: nat

text \<open>One look at the link: the next scripted observation, down once the script is exhausted.\<close>

definition link_up :: "gw \<Rightarrow> bool \<times> gw" where
  "link_up w = (case gw_links w of [] \<Rightarrow> (False, w) | b # rest \<Rightarrow> (b, w\<lparr>gw_links := rest\<rparr>))"

definition IsSignedOn :: "gw \<Rightarrow> bool \<times> gw" where
  "IsSignedOn w = link_up w"

definition sup_NextSTAN :: "gw \<Rightarrow> string option \<times> gw" where
  "sup_NextSTAN w =
     (case link_up w of
        (False, w1) \<Rightarrow> (None, w1)
      | (True, w1) \<Rightarrow> (case NextSTAN (gw_stan w1) of (stan, n) \<Rightarrow> (Some stan, w1\<lparr>gw_stan := n\<rparr>)))"

definition mux_Send :: "string \<Rightarrow> fields \<Rightarrow> gw \<Rightarrow> (goerror + fields) \<times> gw" where
  "mux_Send mti fs w =
     (case gw_sends w of
        [] \<Rightarrow> (Inl [ErrNotSignedOn], w)
      | s # rest \<Rightarrow>
          (so_result s,
           w\<lparr>gw_sends := rest, gw_now := gw_now w + so_elapsed s, w_db := so_env s (w_db w),
             gw_wire := (case so_result s of
                           Inl e \<Rightarrow> if errors_Is e ErrNotSignedOn then gw_wire w else gw_wire w @ [(mti, fs)]
                         | Inr _ \<Rightarrow> gw_wire w @ [(mti, fs)])\<rparr>))"

definition Broadcast :: "hub_event \<Rightarrow> gw \<Rightarrow> gw" where
  "Broadcast e w = w\<lparr>gw_hub := gw_hub w @ [e]\<rparr>"

section \<open>Cards\<close>

definition defaultCards :: "(string \<times> CardFixture) list" where
  "defaultCards =
     [(''tok_normal'', \<lparr>cf_CardToken = '''', cf_PAN = ''9704360000004417'', cf_ExpiryYYMM = ''2811'', cf_Balance = 5000000, cf_Currency = ''704'', cf_CardRef = ''crd_normal0001''\<rparr>),
      (''tok_low'', \<lparr>cf_CardToken = '''', cf_PAN = ''9704360000009021'', cf_ExpiryYYMM = ''2903'', cf_Balance = 80000, cf_Currency = ''704'', cf_CardRef = ''crd_lowbal0002''\<rparr>),
      (''tok_blocked'', \<lparr>cf_CardToken = '''', cf_PAN = ''9704360000003310'', cf_ExpiryYYMM = ''2707'', cf_Balance = 2000000, cf_Currency = ''704'', cf_CardRef = ''crd_blockd0003''\<rparr>),
      (''tok_expired'', \<lparr>cf_CardToken = '''', cf_PAN = ''9704360000007765'', cf_ExpiryYYMM = ''2608'', cf_Balance = 1500000, cf_Currency = ''704'', cf_CardRef = ''crd_expird0004''\<rparr>),
      (''tok_limit'', \<lparr>cf_CardToken = '''', cf_PAN = ''9704360000001208'', cf_ExpiryYYMM = ''2912'', cf_Balance = 50000000, cf_Currency = ''704'', cf_CardRef = ''crd_limit00005''\<rparr>),
      (''tok_second'', \<lparr>cf_CardToken = '''', cf_PAN = ''9704360000005540'', cf_ExpiryYYMM = ''3006'', cf_Balance = 200000000, cf_Currency = ''704'', cf_CardRef = ''crd_second0006''\<rparr>)]"

definition Resolve :: "(string \<times> CardFixture) list \<Rightarrow> string \<Rightarrow> CardFixture option" where
  "Resolve byToken token = map_of byToken token"

definition PAN :: "(string \<times> CardFixture) list \<Rightarrow> string \<Rightarrow> string option" where
  "PAN byToken token = map_option cf_PAN (map_of byToken token)"

definition Seeds :: "(string \<times> CardFixture) list \<Rightarrow> CardFixture list" where
  "Seeds byToken = map (\<lambda>(token, c). c\<lparr>cf_CardToken := token\<rparr>) byToken"

section \<open>PAN masking\<close>

text \<open>\<open>obs.MaskPAN\<close>: the regular expression \<open>\b\d{13,19}\b\<close> matches a maximal run of word characters that
  is 13 to 19 digits long. The text is cut into maximal runs of word characters and single others.\<close>

definition is_word_char :: "char \<Rightarrow> bool" where
  "is_word_char c \<longleftrightarrow> is_digit c \<or> (let k = (of_char c :: int) in 65 \<le> k \<and> k \<le> 90 \<or> 97 \<le> k \<and> k \<le> 122 \<or> k = 95)"

definition mask_run :: "string \<Rightarrow> string" where
  "mask_run m =
     (if 13 \<le> length m \<and> length m \<le> 19 \<and> list_all is_digit m
      then take 6 m @ replicate (length m - 10) (CHR ''*'') @ drop (length m - 4) m else m)"

function MaskPAN :: "string \<Rightarrow> string" where
  "MaskPAN [] = []"
| "MaskPAN (c # cs) =
     (if is_word_char c
      then mask_run (takeWhile is_word_char (c # cs)) @ MaskPAN (dropWhile is_word_char (c # cs))
      else c # MaskPAN cs)"
  by pat_completeness auto
termination
  by (relation "measure length") (auto simp: less_Suc_eq_le length_dropWhile_le)

section \<open>Lemmas\<close>

lemma link_up_simps [simp]:
  "w_db (snd (link_up w)) = w_db w" "w_sched (snd (link_up w)) = w_sched w" "gw_wire (snd (link_up w)) = gw_wire w"
  "gw_sends (snd (link_up w)) = gw_sends w"
  by (auto simp: link_up_def split: list.splits)

lemma sup_NextSTAN_simps [simp]:
  "w_db (snd (sup_NextSTAN w)) = w_db w" "w_sched (snd (sup_NextSTAN w)) = w_sched w"
  "gw_wire (snd (sup_NextSTAN w)) = gw_wire w" "gw_sends (snd (sup_NextSTAN w)) = gw_sends w"
  by (auto simp: sup_NextSTAN_def link_up_def split: list.splits bool.splits prod.splits)

lemma Broadcast_simps [simp]:
  "w_db (Broadcast e w) = w_db w" "w_sched (Broadcast e w) = w_sched w" "gw_wire (Broadcast e w) = gw_wire w"
  by (simp_all add: Broadcast_def)

lemma mask_run_length: "length (mask_run m) = length m"
  by (auto simp: mask_run_def)

end
