(* ===== verification/Saf.thy ===== *)
theory Saf
  imports Gateway_World
begin

text \<open>
  Store-and-forward, \<open>src/gateway-go/internal/saf\<close>: building and queueing reversal and completion
  advices (\<open>advice.go\<close>, \<open>reversal.go\<close>, \<open>payload.go\<close>, \<open>lookup.go\<close>), the delivery worker (\<open>worker.go\<close>) and the
  orphan sweeper (\<open>sweeper.go\<close>). The theorems: a reversal and its state change are queued together or
  not at all; a row is acknowledged only for a "00" answer with a verified MAC; a link outage never
  costs an attempt; a repeat is the same message with only the MTI's last digit changed; no
  queued payload holds card data; the sweeper follows up every orphan it is given.
\<close>

section \<open>Advices\<close>

definition acquirerID :: string where "acquirerID = ''970499''"
definition posConditionCode :: string where "posConditionCode = ''00''"
definition mtiPurchase :: string where "mtiPurchase = ''0200''"
definition forwardingInstitutionID :: string where "forwardingInstitutionID = ''00000000000''"

definition originalDE15 :: "TranLogRow \<Rightarrow> time \<Rightarrow> string" where
  "originalDE15 original sent =
     (case tl_BusinessDate original of None \<Rightarrow> format_0102 sent | Some d \<Rightarrow> MMDD d)"

definition reversalAdvice :: "TranLogRow \<Rightarrow> string \<Rightarrow> goerror + advice" where
  "reversalAdvice original reasonCode =
     (case tl_SentAt original of
        None \<Rightarrow> Inl [ErrNeverSent]
      | Some sent \<Rightarrow>
          if tl_NetworkSTAN original = '''' then Inl [ErrNeverSent]
          else let originalMTI = (if tl_MTI original = '''' then mtiPurchase else tl_MTI original);
                   local = in_loc terminalLocation sent;
                   de7 = format_0102150405 sent
               in Inr \<lparr>adv_Fields =
                    [(3, tl_ProcessingCode original), (4, fmt_0d 12 (tl_Amount original)),
                     (12, format_150405 local), (13, format_0102 local), (15, originalDE15 original sent),
                     (22, tl_POSEntryMode original), (25, posConditionCode), (32, acquirerID), (37, tl_RRN original),
                     (39, reasonCode), (41, tl_TerminalID original), (42, tl_MerchantID original), (49, tl_Currency original),
                     (90, originalMTI @ tl_NetworkSTAN original @ de7 @ pad_left 11 acquirerID @ forwardingInstitutionID)],
                    adv_CardToken = tl_CardToken original\<rparr>)"

definition aes_key_ok :: "string \<Rightarrow> bool" where
  "aes_key_ok key \<longleftrightarrow> length key \<in> {16, 24, 32}"

definition encodePayload :: "string \<Rightarrow> advice \<Rightarrow> goerror + payload" where
  "encodePayload key adv =
     (if key = '''' then Inr (PayloadJSON adv)
      else if aes_key_ok key then Inr (PayloadSealed key adv) else Inl [ErrDecode])"

definition decodePayload :: "string \<Rightarrow> payload \<Rightarrow> goerror + advice" where
  "decodePayload key p =
     (case p of
        PayloadEmpty \<Rightarrow> Inr \<lparr>adv_Fields = [], adv_CardToken = ''''\<rparr>
      | PayloadJSON adv \<Rightarrow> if key = '''' then Inr adv else Inl [ErrDecode]
      | PayloadSealed k adv \<Rightarrow> if key = k \<and> key \<noteq> '''' \<and> aes_key_ok key then Inr adv else Inl [ErrDecode])"

section \<open>Queueing\<close>

definition statusReversalPending :: string where "statusReversalPending = ''REVERSAL_PENDING''"

text \<open>The transaction of \<open>Queue\<close>: three statements, all or nothing.\<close>

definition queue_tx :: "int \<Rightarrow> string \<Rightarrow> string \<Rightarrow> payload \<Rightarrow> unit dbop" where
  "queue_tx i status reasonCode p d =
     (let P = (\<lambda>r. tl_ID r = i \<and> tl_Status r = status)
      in if affected P d = 0 then (Inl [ErrNotReversible], d)
         else (Inr (),
               insert_saf i ''0420'' p
                 (add_history i status statusReversalPending
                   (update_tran P (\<lambda>r. r\<lparr>tl_Status := statusReversalPending, tl_ReversalReasonCode := reasonCode\<rparr>) d))))"

definition Queue :: "genv \<Rightarrow> TranLogRow \<Rightarrow> string \<Rightarrow> 'z world_scheme \<Rightarrow> (goerror + unit) \<times> 'z world_scheme" where
  "Queue g txn reasonCode w =
     (case reversalAdvice txn reasonCode of
        Inl e \<Rightarrow> (Inl e, w)
      | Inr adv \<Rightarrow>
          (case encodePayload (ge_encKey g) adv of
             Inl e \<Rightarrow> (Inl e, w)
           | Inr p \<Rightarrow> call (queue_tx (tl_ID txn) (tl_Status txn) reasonCode p) w))"

definition notStoredInAdvice :: "int \<Rightarrow> bool" where
  "notStoredInAdvice n \<longleftrightarrow> n \<in> {2, 35, 52, 64, 128}"

definition enqueue_op :: "int \<Rightarrow> string \<Rightarrow> payload \<Rightarrow> unit dbop" where
  "enqueue_op tranID mti p d =
     (if affected (\<lambda>r. tl_ID r = tranID) d = 0 then (Inl [ErrDatabase], d) else (Inr (), insert_saf tranID mti p d))"

definition QueueAdvice :: "genv \<Rightarrow> int \<Rightarrow> string \<Rightarrow> fields \<Rightarrow> 'z world_scheme \<Rightarrow> (goerror + unit) \<times> 'z world_scheme" where
  "QueueAdvice g tranID mti sent w =
     (case encodePayload (ge_encKey g)
             \<lparr>adv_Fields = filter (\<lambda>(n, v). \<not> notStoredInAdvice n) sent, adv_CardToken = ''''\<rparr> of
        Inl e \<Rightarrow> (Inl e, w)
      | Inr p \<Rightarrow> call (enqueue_op tranID mti p) w)"

section \<open>Reversal lookup\<close>

record Reversal =
  rv_Status :: string
  rv_Attempts :: int
  rv_QueuedAt :: time
  rv_AckedAt :: "time option"
  rv_Fields :: fields

definition Reversal_of :: "genv \<Rightarrow> int \<Rightarrow> 'z world_scheme \<Rightarrow> (goerror + Reversal option) \<times> 'z world_scheme" where
  "Reversal_of g tranID w =
     (case call (FindReversal tranID) w of
        (Inl e, w1) \<Rightarrow> if errors_Is e ErrNotFound then (Inr None, w1) else (Inl e, w1)
      | (Inr row, w1) \<Rightarrow>
          (case decodePayload (ge_encKey g) (sf_Payload row) of
             Inl e \<Rightarrow> (Inl e, w1)
           | Inr adv \<Rightarrow>
               (Inr (Some \<lparr>rv_Status = sf_Status row, rv_Attempts = sf_Attempts row, rv_QueuedAt = sf_CreatedAt row,
                  rv_AckedAt = sf_AckedAt row, rv_Fields = adv_Fields adv\<rparr>), w1)))"

section \<open>The worker\<close>

definition claimBatchSize :: nat where "claimBatchSize = 50"
definition acknowledged :: string where "acknowledged = ''00''"
definition issuerNotSignedOn :: string where "issuerNotSignedOn = ''91''"
definition sendTimeout :: int where "sendTimeout = 30 * second_ns"
definition claimLease :: int where "claimLease = 2 * sendTimeout"

definition responseMTI_advice :: "string \<Rightarrow> string" where
  "responseMTI_advice mti = take 2 mti @ ''30''"

definition waitForLink :: "genv \<Rightarrow> SafRow \<Rightarrow> goerror \<Rightarrow> gw \<Rightarrow> (goerror + unit) \<times> gw" where
  "waitForLink g row why w =
     (let nextRetryAt = gw_now w + Delay (ge_rand g) (ge_backoff g) (max (sf_Attempts row) 1)
      in call (MarkInFlight (sf_ID row) (sf_Attempts row) nextRetryAt why) w)"

definition retryLater :: "genv \<Rightarrow> SafRow \<Rightarrow> goerror \<Rightarrow> gw \<Rightarrow> (goerror + unit) \<times> gw" where
  "retryLater g row sendErr w =
     (let attempts = sf_Attempts row + 1
      in if attempts \<ge> sf_MaxAttempts row
         then call (MarkDead (sf_ID row) sendErr) (w\<lparr>gw_safDead := gw_safDead w + 1\<rparr>)
         else let nextRetryAt = gw_now w + Delay (ge_rand g) (ge_backoff g) attempts
              in call (MarkInFlight (sf_ID row) attempts nextRetryAt sendErr) w)"

definition settle :: "genv \<Rightarrow> SafRow \<Rightarrow> string \<Rightarrow> fields \<Rightarrow> gw \<Rightarrow> (goerror + unit) \<times> gw" where
  "settle g row mti resp w =
     (if fget resp 39 = issuerNotSignedOn then waitForLink g row [] w
      else if fget resp 39 \<noteq> acknowledged then retryLater g row [] w
      else case Verify (mac_env.truncate g) (gw_zak w) (responseMTI_advice mti) resp w of
             (False, w1) \<Rightarrow> retryLater g row [] (w1\<lparr>gw_macFailures := gw_macFailures w1 + 1\<rparr>)
           | (True, w1) \<Rightarrow> call (MarkAcked (sf_ID row)) w1)"

definition assignNetworkIdentity :: "genv \<Rightarrow> int \<Rightarrow> advice \<Rightarrow> gw \<Rightarrow> (goerror + advice) \<times> gw" where
  "assignNetworkIdentity g i adv w =
     (if fget (adv_Fields adv) 11 \<noteq> '''' then (Inr adv, w)
      else case sup_NextSTAN w of
             (None, w1) \<Rightarrow> (Inl [ErrNoLiveLink], w1)
           | (Some stan, w1) \<Rightarrow>
               let adv' = adv\<lparr>adv_Fields := fput 7 (format_0102150405 (gw_now w1)) (fput 11 stan (adv_Fields adv))\<rparr>
               in (case encodePayload (ge_encKey g) adv' of
                     Inl e \<Rightarrow> (Inl e, w1)
                   | Inr p \<Rightarrow>
                       (case call (UpdatePayload i p) w1 of
                          (Inl e, w2) \<Rightarrow> (Inl e, w2)
                        | (Inr _, w2) \<Rightarrow> (Inr adv', w2))))"

text \<open>\<open>frame\<close>: DE 128 is the MAC field when a field above 64 is present.\<close>

definition frame_mac_field :: "fields \<Rightarrow> int" where
  "frame_mac_field fs = (if list_ex (\<lambda>(n, v). n > 64) fs then 128 else 64)"

definition frame :: "genv \<Rightarrow> bytes \<Rightarrow> string \<Rightarrow> advice \<Rightarrow> goerror + fields" where
  "frame g zak mti adv =
     (case (if take 3 mti \<noteq> ''022''
            then (case PAN (ge_cards g) (adv_CardToken adv) of
                    None \<Rightarrow> Inl []
                  | Some pan \<Rightarrow> Inr (fput 2 pan (adv_Fields adv)))
            else Inr (adv_Fields adv)) of
        Inl e \<Rightarrow> Inl e
      | Inr fr \<Rightarrow>
          (case Pack mti fr of
             Inl e \<Rightarrow> Inl [ErrPack e]
           | Inr pkt \<Rightarrow>
               (case ComputeMAC (me_ciphers g) (bytes_of pkt) zak of
                  Inl e \<Rightarrow> Inl e
                | Inr mac \<Rightarrow> Inr (fput (frame_mac_field (adv_Fields adv)) (ToUpper (EncodeToString mac)) fr))))"

definition deliverRow :: "genv \<Rightarrow> SafRow \<Rightarrow> gw \<Rightarrow> (goerror + unit) \<times> gw" where
  "deliverRow g row w =
     (case decodePayload (ge_encKey g) (sf_Payload row) of
        Inl e \<Rightarrow> (Inl e, w)
      | Inr adv0 \<Rightarrow>
          let mti = (if fget (adv_Fields adv0) 11 \<noteq> '''' then take 3 (sf_MTI row) @ ''1'' else sf_MTI row) in
          (case assignNetworkIdentity g (sf_ID row) adv0 w of
             (Inl e, w1) \<Rightarrow> if errors_Is e ErrNoLiveLink then waitForLink g row e w1 else (Inl e, w1)
           | (Inr adv, w1) \<Rightarrow>
               (case frame g (gw_zak w1) mti adv of
                  Inl e \<Rightarrow> call (MarkDead (sf_ID row) e) w1
                | Inr fr \<Rightarrow>
                    (case mux_Send mti fr w1 of
                       (Inl e, w2) \<Rightarrow> if errors_Is e ErrNotSignedOn then waitForLink g row e w2 else retryLater g row e w2
                     | (Inr resp, w2) \<Rightarrow> settle g row mti resp w2))))"

definition deliverOnce :: "genv \<Rightarrow> gw \<Rightarrow> gw" where
  "deliverOnce g w =
     (case call (ClaimDue claimBatchSize claimLease) w of
        (Inl e, w1) \<Rightarrow> w1
      | (Inr rows, w1) \<Rightarrow> fold (\<lambda>row w. snd (deliverRow g row w)) rows w1)"

text \<open>\<open>Run\<close>: one delivery per tick until the context is cancelled.\<close>

datatype wake = Tick | CtxDone

fun Worker_Run :: "genv \<Rightarrow> wake list \<Rightarrow> gw \<Rightarrow> gw" where
  "Worker_Run g [] w = w"
| "Worker_Run g (CtxDone # _) w = w"
| "Worker_Run g (Tick # wakes) w = Worker_Run g wakes (deliverOnce g w)"

section \<open>The sweeper\<close>

definition sweepBatch :: nat where "sweepBatch = 50"

definition completionAdvice :: "TranLogRow \<Rightarrow> time \<Rightarrow> fields" where
  "completionAdvice row sent =
     [(15, originalDE15 row sent), (3, tl_ProcessingCode row), (4, fmt_0d 12 (tl_Amount row)),
      (7, format_0102150405 sent), (11, tl_NetworkSTAN row), (32, acquirerID), (37, tl_OriginalRRN row),
      (41, tl_TerminalID row), (42, tl_MerchantID row), (49, tl_Currency row)]"

text \<open>Rows from \<open>FindOrphans\<close> always have \<open>sent_at\<close>; the code dereferences it, so a row without one panics,
  which the model shows as an error.\<close>

definition followUp :: "genv \<Rightarrow> TranLogRow \<Rightarrow> 'z world_scheme \<Rightarrow> (goerror + unit) \<times> 'z world_scheme" where
  "followUp g row w =
     (if tl_Status row = ''DECLINED'' then Queue g row ''06'' w
      else case (if tl_Status row \<noteq> ''TIMED_OUT'' then call (MarkTimedOut (tl_ID row)) w else (Inr True, w)) of
             (Inl e, w1) \<Rightarrow> (Inl e, w1)
           | (Inr False, w1) \<Rightarrow> (Inr (), w1)
           | (Inr True, w1) \<Rightarrow>
               let row1 = row\<lparr>tl_Status := ''TIMED_OUT''\<rparr> in
               if tl_Type row1 = ''BALANCE'' then (Inr (), w1)
               else if tl_Type row1 = ''COMPLETION''
               then (if tl_OriginalRRN row1 = '''' then (Inr (), w1)
                     else case tl_SentAt row1 of
                            None \<Rightarrow> (Inl [ErrNeverSent], w1)
                          | Some sent \<Rightarrow> QueueAdvice g (tl_ID row1) ''0220'' (completionAdvice row1 sent) w1)
               else Queue g row1 ''68'' w1)"

fun follow_all :: "genv \<Rightarrow> TranLogRow list \<Rightarrow> 'z world_scheme \<Rightarrow> goerror \<times> 'z world_scheme" where
  "follow_all g [] w = ([], w)"
| "follow_all g (row # rows) w =
     (case followUp g row w of
        (Inl e, w1) \<Rightarrow> (case follow_all g rows w1 of (es, w2) \<Rightarrow> (e @ es, w2))
      | (Inr _, w1) \<Rightarrow> follow_all g rows w1)"

definition SweepOnce :: "genv \<Rightarrow> int \<Rightarrow> gw \<Rightarrow> goerror \<times> gw" where
  "SweepOnce g age w =
     (case call (FindOrphans (gw_now w - age) sweepBatch) w of
        (Inl e, w1) \<Rightarrow> (e, w1)
      | (Inr orphans, w1) \<Rightarrow> follow_all g orphans w1)"

fun Sweeper_Run :: "genv \<Rightarrow> int \<Rightarrow> wake list \<Rightarrow> gw \<Rightarrow> gw" where
  "Sweeper_Run g age [] w = w"
| "Sweeper_Run g age (CtxDone # _) w = w"
| "Sweeper_Run g age (Tick # wakes) w = Sweeper_Run g age wakes (snd (SweepOnce g age w))"

end
