(* ===== verification/Saf_Invariants.thy ===== *)
theory Saf_Invariants
  imports Saf
begin

text \<open>
  Invariants of the database under the store-and-forward components. The locale
  \<open>saf_invariant\<close> states what a database predicate must survive (the statements the worker and the
  sweeper issue); inside it, the worker and the sweeper are shown to keep the predicate under every
  schedule of faults and interference that keeps it. It is interpreted twice: for "no payload holds card
  data", and for that together with "at most one reversal per transaction, queued exactly while
  the transaction is in a reversal state".
\<close>

section \<open>Calls that keep a predicate\<close>

definition gw_keeps :: "(db \<Rightarrow> bool) \<Rightarrow> gw \<Rightarrow> bool" where
  "gw_keeps I w \<longleftrightarrow> I (w_db w) \<and> (\<forall>s \<in> set (w_sched w). \<forall>d. I d \<longrightarrow> I (sc_env s d))
     \<and> (\<forall>s \<in> set (gw_sends w). \<forall>d. I d \<longrightarrow> I (so_env s d))"

lemma gw_keeps_db: "gw_keeps I w \<Longrightarrow> I (w_db w)"
  by (simp add: gw_keeps_def)

lemma call_gw_fields [simp]: "gw_sends (snd (call op w)) = gw_sends w" "gw_wire (snd (call op w)) = gw_wire w"
  "gw_now (snd (call op w)) = gw_now w" "gw_zak (snd (call op w)) = gw_zak w"
  by (auto simp: call_def Let_def split: list.splits fault.splits prod.splits)

lemma call_sched: "set (w_sched (snd (call op w))) \<subseteq> set (w_sched w)"
  by (auto simp: call_def Let_def split: list.splits fault.splits prod.splits)

lemma gw_keeps_call:
  assumes "gw_keeps I w" "\<And>d. I d \<Longrightarrow> I (snd (op d))"
  shows "gw_keeps I (snd (call op w))"
proof -
  have "I (w_db (snd (call op w)))"
    using assms by (cases w op rule: call_cases) (auto simp: gw_keeps_def)
  with assms(1) call_sched [of op w] show ?thesis by (auto simp: gw_keeps_def)
qed

lemma gw_keeps_call':
  "call op w = (r, w') \<Longrightarrow> gw_keeps I w \<Longrightarrow> (\<And>d. I d \<Longrightarrow> I (snd (op d))) \<Longrightarrow> gw_keeps I w'"
  using gw_keeps_call [of I w op] by simp

lemma gw_keeps_cong:
  "gw_keeps I w \<Longrightarrow> w_db w' = w_db w \<Longrightarrow> w_sched w' = w_sched w \<Longrightarrow> gw_sends w' = gw_sends w \<Longrightarrow> gw_keeps I w'"
  by (simp add: gw_keeps_def)

lemma gw_keeps_Send: "gw_keeps I w \<Longrightarrow> mux_Send mti fs w = (r, w') \<Longrightarrow> gw_keeps I w'"
  by (auto simp: gw_keeps_def mux_Send_def split: list.splits)

lemma gw_keeps_STAN: "gw_keeps I w \<Longrightarrow> sup_NextSTAN w = (r, w') \<Longrightarrow> gw_keeps I w'"
  using sup_NextSTAN_simps [of w] by (simp add: gw_keeps_def)

lemma gw_keeps_Verify:
  assumes "gw_keeps I w" "Verify g zak mti resp w = (b, w')"
  shows "gw_keeps I w'"
proof -
  have ro: "gw_keeps I v \<Longrightarrow> gw_keeps I (snd (call (FindPending t ow) v))"
    "gw_keeps I v \<Longrightarrow> gw_keeps I (snd (call (FindRecentlyRetired t ow k) v))" for v t ow k
    by (auto intro!: gw_keeps_call simp: FindPending_def FindRecentlyRetired_def)
  have "gw_keeps I (snd (FallbackKeys t ow k w))" for t ow k
    using ro(1) [OF assms(1), of t ow] ro(2) [of "snd (call (FindPending t ow) w)" t ow k]
    by (auto simp: FallbackKeys_def split: prod.splits sum.splits)
  then have "gw_keeps I (snd (fallbackZAKs w))"
    by (auto simp: fallbackZAKs_def split: prod.splits sum.splits) (metis snd_conv)+
  with assms show ?thesis
    by (auto simp: Verify_def macMatchesRecentlyRetiredZAK_def Let_def
        split: option.splits sum.splits if_splits prod.splits)
qed

section \<open>Payloads without card data\<close>

definition clean_fields :: "fields \<Rightarrow> bool" where
  "clean_fields fs \<longleftrightarrow> fst ` set fs \<inter> {2, 35, 52} = {}"

fun clean_payload :: "payload \<Rightarrow> bool" where
  "clean_payload PayloadEmpty = True"
| "clean_payload (PayloadJSON adv) = clean_fields (adv_Fields adv)"
| "clean_payload (PayloadSealed k adv) = clean_fields (adv_Fields adv)"

definition saf_clean :: "db \<Rightarrow> bool" where
  "saf_clean d \<longleftrightarrow> (\<forall>s \<in> set (db_saf d). clean_payload (sf_Payload s))"

lemma encodePayload_clean: "encodePayload k adv = Inr p \<Longrightarrow> clean_fields (adv_Fields adv) \<Longrightarrow> clean_payload p"
  by (auto simp: encodePayload_def split: if_splits)

lemma decodePayload_clean: "decodePayload k p = Inr adv \<Longrightarrow> clean_payload p \<Longrightarrow> clean_fields (adv_Fields adv)"
  by (auto simp: decodePayload_def clean_fields_def split: payload.splits if_splits)

lemma reversalAdvice_clean: "reversalAdvice r c = Inr adv \<Longrightarrow> clean_fields (adv_Fields adv)"
  by (auto simp: reversalAdvice_def Let_def clean_fields_def split: option.splits if_splits)

lemma advice_filter_clean: "clean_fields (filter (\<lambda>(n, v). \<not> notStoredInAdvice n) fs)"
  by (auto simp: clean_fields_def notStoredInAdvice_def)

lemma fput_clean: "clean_fields fs \<Longrightarrow> n \<notin> {2, 35, 52} \<Longrightarrow> clean_fields (fput n v fs)"
  by (auto simp: clean_fields_def)

section \<open>The interface: predicates the queue's statements keep\<close>

locale saf_invariant =
  fixes I :: "db \<Rightarrow> bool"
  assumes keeps_clean: "I d \<Longrightarrow> saf_clean d"
    and keeps_queue: "I d \<Longrightarrow> clean_payload p \<Longrightarrow> status \<notin> {''CREATED'', ''REVERSAL_PENDING'', ''REVERSED''} \<Longrightarrow>
      I (snd (queue_tx i status reason p d))"
    and keeps_enqueue: "I d \<Longrightarrow> clean_payload p \<Longrightarrow> mti \<noteq> ''0420'' \<Longrightarrow> I (snd (enqueue_op i mti p d))"
    and keeps_MarkTimedOut: "I d \<Longrightarrow> I (snd (MarkTimedOut i d))"
    and keeps_ClaimDue: "I d \<Longrightarrow> I (snd (ClaimDue n lease d))"
    and keeps_UpdatePayload: "I d \<Longrightarrow> clean_payload p \<Longrightarrow> I (snd (UpdatePayload i p d))"
    and keeps_MarkInFlight: "I d \<Longrightarrow> I (snd (MarkInFlight i a t e d))"
    and keeps_MarkDead: "I d \<Longrightarrow> I (snd (MarkDead i e d))"
    and keeps_MarkAcked: "I d \<Longrightarrow> I (snd (MarkAcked i d))"
begin

lemma Queue_keeps:
  assumes "gw_keeps I w" "tl_Status txn \<notin> {''CREATED'', ''REVERSAL_PENDING'', ''REVERSED''}"
  shows "gw_keeps I (snd (Queue g txn reason w))"
  unfolding Queue_def
  using assms reversalAdvice_clean encodePayload_clean
  by (auto split: sum.splits intro!: gw_keeps_call keeps_queue)

lemma QueueAdvice_keeps:
  assumes "gw_keeps I w" "mti \<noteq> ''0420''"
  shows "gw_keeps I (snd (QueueAdvice g i mti sent w))"
  unfolding QueueAdvice_def
  using assms encodePayload_clean advice_filter_clean
  by (auto split: sum.splits intro!: gw_keeps_call keeps_enqueue)

lemma waitForLink_keeps: "gw_keeps I w \<Longrightarrow> gw_keeps I (snd (waitForLink g row why w))"
  unfolding waitForLink_def Let_def by (rule gw_keeps_call) (auto intro: keeps_MarkInFlight)

lemma retryLater_keeps:
  assumes "gw_keeps I w"
  shows "gw_keeps I (snd (retryLater g row why w))"
proof -
  have "gw_keeps I (w\<lparr>gw_safDead := gw_safDead w + 1\<rparr>)" using assms by (rule gw_keeps_cong) simp_all
  with assms show ?thesis
    unfolding retryLater_def Let_def by (auto intro!: gw_keeps_call keeps_MarkDead keeps_MarkInFlight)
qed

lemma settle_keeps:
  assumes "gw_keeps I w"
  shows "gw_keeps I (snd (settle g row mti resp w))"
proof -
  obtain b w1 where v: "Verify (mac_env.truncate g) (gw_zak w) (responseMTI_advice mti) resp w = (b, w1)" by fastforce
  have k: "gw_keeps I w1" by (rule gw_keeps_Verify [OF assms v])
  have "gw_keeps I (w1\<lparr>gw_macFailures := gw_macFailures w1 + 1\<rparr>)" by (rule gw_keeps_cong [OF k]) simp_all
  with k assms v show ?thesis
    by (auto simp: settle_def waitForLink_keeps retryLater_keeps intro!: gw_keeps_call keeps_MarkAcked split: bool.splits)
qed

lemma assign_keeps:
  assumes "gw_keeps I w" "clean_fields (adv_Fields adv)" "assignNetworkIdentity g i adv w = (r, w')"
  shows "gw_keeps I w' \<and> (\<forall>adv'. r = Inr adv' \<longrightarrow> clean_fields (adv_Fields adv'))"
proof (cases "fget (adv_Fields adv) 11 \<noteq> ''''")
  case True
  with assms show ?thesis by (auto simp: assignNetworkIdentity_def)
next
  case False
  obtain st w1 where s: "sup_NextSTAN w = (st, w1)" by fastforce
  have k1: "gw_keeps I w1" by (rule gw_keeps_STAN [OF assms(1) s])
  show ?thesis
  proof (cases st)
    case None
    with False s k1 assms(3) show ?thesis by (auto simp: assignNetworkIdentity_def)
  next
    case (Some stan)
    define adv' where "adv' = adv\<lparr>adv_Fields := fput 7 (format_0102150405 (gw_now w1)) (fput 11 stan (adv_Fields adv))\<rparr>"
    have c: "clean_fields (adv_Fields adv')" using assms(2) by (simp add: adv'_def fput_clean)
    have "gw_keeps I (snd (call (UpdatePayload i p) w1))" if "encodePayload (ge_encKey g) adv' = Inr p" for p
      using k1 encodePayload_clean [OF that c] by (auto intro!: gw_keeps_call keeps_UpdatePayload)
    with False s Some k1 c assms(3) show ?thesis
      unfolding assignNetworkIdentity_def adv'_def [symmetric] Let_def
      by (auto simp: adv'_def [symmetric] split: sum.splits prod.splits)
  qed
qed

lemma deliverRow_keeps:
  assumes "gw_keeps I w" "clean_payload (sf_Payload row)"
  shows "gw_keeps I (snd (deliverRow g row w))"
proof (cases "decodePayload (ge_encKey g) (sf_Payload row)")
  case (Inr adv0)
  define mti where "mti = (if fget (adv_Fields adv0) 11 \<noteq> '''' then take 3 (sf_MTI row) @ ''1'' else sf_MTI row)"
  obtain r w1 where a: "assignNetworkIdentity g (sf_ID row) adv0 w = (r, w1)" by fastforce
  have k1: "gw_keeps I w1"
    using assign_keeps [OF assms(1) decodePayload_clean [OF Inr assms(2)] a] by blast
  have send: "gw_keeps I (snd (case mux_Send mti fr w1 of
        (Inl e, w2) \<Rightarrow> if errors_Is e ErrNotSignedOn then waitForLink g row e w2 else retryLater g row e w2
      | (Inr resp, w2) \<Rightarrow> settle g row mti resp w2))" for fr
    using gw_keeps_Send [OF k1] by (auto simp: waitForLink_keeps retryLater_keeps settle_keeps split: prod.splits sum.splits)
  have dead: "gw_keeps I (snd (call (MarkDead (sf_ID row) e) w1))" for e
    using k1 by (auto intro: gw_keeps_call keeps_MarkDead)
  show ?thesis
    using Inr a k1 send dead waitForLink_keeps [OF k1]
    by (cases r) (auto simp: deliverRow_def mti_def [symmetric] Let_def split: sum.splits)
qed (use assms in \<open>auto simp: deliverRow_def\<close>)

lemma deliver_fold_keeps:
  "gw_keeps I w \<Longrightarrow> \<forall>row \<in> set rows. clean_payload (sf_Payload row) \<Longrightarrow>
   gw_keeps I (fold (\<lambda>row w. snd (deliverRow g row w)) rows w)"
  by (induction rows arbitrary: w) (auto intro: deliverRow_keeps)

lemma deliverOnce_keeps:
  assumes "gw_keeps I w"
  shows "gw_keeps I (deliverOnce g w)"
proof -
  let ?op = "ClaimDue claimBatchSize claimLease"
  have k: "gw_keeps I (snd (call ?op w))" using assms by (auto intro: gw_keeps_call keeps_ClaimDue)
  have rows: "\<forall>row \<in> set rows. clean_payload (sf_Payload row)" if "fst (call ?op w) = Inr rows" for rows
  proof -
    have c: "\<forall>row \<in> set rows. clean_payload (sf_Payload row)" if "I d" "fst (?op d) = Inr rows" for d
      using keeps_clean [OF that(1)] that(2) by (auto simp: ClaimDue_def Let_def saf_clean_def)
    show ?thesis using that assms c
      by (cases w ?op rule: call_cases) (auto simp: gw_keeps_def)
  qed
  show ?thesis
    unfolding deliverOnce_def using k rows by (auto split: prod.splits sum.splits intro: deliver_fold_keeps)
qed

lemma Worker_Run_keeps: "gw_keeps I w \<Longrightarrow> gw_keeps I (Worker_Run g wakes w)"
  by (induction g wakes w rule: Worker_Run.induct) (auto intro: deliverOnce_keeps)

lemma followUp_keeps:
  assumes "gw_keeps I w" "tl_Status row \<notin> {''CREATED'', ''REVERSAL_PENDING'', ''REVERSED''}"
  shows "gw_keeps I (snd (followUp g row w))"
proof -
  have k: "gw_keeps I (snd (call (MarkTimedOut (tl_ID row)) w))"
    using assms(1) by (auto intro: gw_keeps_call keeps_MarkTimedOut)
  have q: "gw_keeps I v \<Longrightarrow> gw_keeps I (snd (Queue g (row\<lparr>tl_Status := ''TIMED_OUT''\<rparr>) ''68'' v))" for v
    by (rule Queue_keeps) simp_all
  have a: "gw_keeps I v \<Longrightarrow> gw_keeps I (snd (QueueAdvice g i ''0220'' sent v))" for v i sent
    by (rule QueueAdvice_keeps) simp_all
  show ?thesis
    using assms(1) k q a Queue_keeps [OF assms]
    by (auto simp: followUp_def Let_def split: prod.splits sum.splits option.splits bool.splits if_splits)
qed

lemma follow_all_keeps:
  "gw_keeps I w \<Longrightarrow> \<forall>row \<in> set rows. tl_Status row \<notin> {''CREATED'', ''REVERSAL_PENDING'', ''REVERSED''} \<Longrightarrow>
   gw_keeps I (snd (follow_all g rows w))"
proof (induction rows arbitrary: w)
  case (Cons row rows)
  then have k: "gw_keeps I (snd (followUp g row w))" by (auto intro: followUp_keeps)
  with Cons.IH [OF k] Cons.prems(2) show ?case by (auto split: prod.splits sum.splits)
qed simp

lemma SweepOnce_keeps:
  assumes "gw_keeps I w"
  shows "gw_keeps I (snd (SweepOnce g age w))"
proof -
  let ?op = "FindOrphans (gw_now w - age) sweepBatch"
  have k: "gw_keeps I (snd (call ?op w))" using assms by (auto intro: gw_keeps_call simp: FindOrphans_def)
  have rows: "\<forall>row \<in> set rows. tl_Status row \<notin> {''CREATED'', ''REVERSAL_PENDING'', ''REVERSED''}" if "fst (call ?op w) = Inr rows" for rows
  proof -
    have "\<forall>row \<in> set rows. tl_Status row \<notin> {''CREATED'', ''REVERSAL_PENDING'', ''REVERSED''}" if "fst (?op d) = Inr rows" for d
      using that by (auto simp: FindOrphans_def orphan_def dest!: in_set_takeD)
    with that show ?thesis by (cases w ?op rule: call_cases) auto
  qed
  show ?thesis
    unfolding SweepOnce_def using k rows by (auto split: prod.splits sum.splits intro: follow_all_keeps)
qed

lemma Sweeper_Run_keeps: "gw_keeps I w \<Longrightarrow> gw_keeps I (Sweeper_Run g age wakes w)"
  by (induction g age wakes w rule: Sweeper_Run.induct) (auto intro: SweepOnce_keeps)

end

lemmas queue_op_defs = queue_tx_def enqueue_op_def MarkTimedOut_def ClaimDue_def UpdatePayload_def MarkInFlight_def
  MarkDead_def MarkAcked_def finishOnAck_def

lemma insert_saf_saf:
  "set (db_saf (insert_saf i m p d)) = insert (last (db_saf (insert_saf i m p d))) (set (db_saf d))"
  "sf_TranID (last (db_saf (insert_saf i m p d))) = i" "sf_MTI (last (db_saf (insert_saf i m p d))) = m"
  "sf_Payload (last (db_saf (insert_saf i m p d))) = p" "sf_AckedAt (last (db_saf (insert_saf i m p d))) = None"
  "sf_ID (last (db_saf (insert_saf i m p d))) = db_saf_seq d + 1"
  by (auto simp: insert_saf_def Let_def)

interpretation clean: saf_invariant saf_clean
proof
  fix d p i status reason mti
  show "saf_clean d \<Longrightarrow> clean_payload p \<Longrightarrow> saf_clean (snd (queue_tx i status reason p d))"
    by (auto simp: queue_tx_def Let_def saf_clean_def insert_saf_saf)
  show "saf_clean d \<Longrightarrow> clean_payload p \<Longrightarrow> saf_clean (snd (enqueue_op i mti p d))"
    by (auto simp: enqueue_op_def saf_clean_def insert_saf_saf)
qed (auto simp: queue_op_defs saf_clean_def Let_def split: option.splits)

section \<open>At most one reversal\<close>

definition reversals :: "db \<Rightarrow> int \<Rightarrow> SafRow list" where
  "reversals d i = filter (\<lambda>s. sf_TranID s = i \<and> sf_MTI s = ''0420'') (db_saf d)"

definition row_ok :: "db \<Rightarrow> TranLogRow \<Rightarrow> bool" where
  "row_ok d r \<longleftrightarrow>
     tl_ID r \<le> db_tran_seq d \<and>
     (reversals d (tl_ID r) \<noteq> [] \<longleftrightarrow> tl_Status r \<in> {''REVERSAL_PENDING'', ''REVERSED''}) \<and>
     (tl_Status r = ''REVERSED'' \<longrightarrow> (\<forall>s \<in> set (reversals d (tl_ID r)). sf_AckedAt s \<noteq> None))"

definition reversal_inv :: "db \<Rightarrow> bool" where
  "reversal_inv d \<longleftrightarrow>
     saf_clean d \<and> distinct (map tl_ID (db_tran d)) \<and> (\<forall>r \<in> set (db_tran d). row_ok d r) \<and>
     (\<forall>s \<in> set (db_saf d). sf_TranID s \<le> db_tran_seq d) \<and> (\<forall>i. length (reversals d i) \<le> 1)"

abbreviation reversal_states :: "string set" where
  "reversal_states \<equiv> {''REVERSAL_PENDING'', ''REVERSED''}"

lemma rinvI:
  "saf_clean d \<Longrightarrow> distinct (map tl_ID (db_tran d)) \<Longrightarrow> (\<And>r. r \<in> set (db_tran d) \<Longrightarrow> row_ok d r) \<Longrightarrow>
   (\<And>s. s \<in> set (db_saf d) \<Longrightarrow> sf_TranID s \<le> db_tran_seq d) \<Longrightarrow> (\<And>i. length (reversals d i) \<le> 1) \<Longrightarrow> reversal_inv d"
  by (simp add: reversal_inv_def)

lemma rinvD:
  assumes "reversal_inv d"
  shows "saf_clean d" "distinct (map tl_ID (db_tran d))" "r \<in> set (db_tran d) \<Longrightarrow> row_ok d r"
    "s \<in> set (db_saf d) \<Longrightarrow> sf_TranID s \<le> db_tran_seq d" "length (reversals d i) \<le> 1"
  using assms by (auto simp: reversal_inv_def)

lemma reversals_tran [simp]: "reversals (update_tran P f d) i = reversals d i" "reversals (add_history i a b d) j = reversals d j"
  by (simp_all add: reversals_def)

lemma reversals_update_saf:
  assumes "\<And>s. sf_TranID (f s) = sf_TranID s" "\<And>s. sf_MTI (f s) = sf_MTI s"
  shows "reversals (update_saf P f d) i = map (\<lambda>s. if P s then f s else s) (reversals d i)"
proof -
  have "((\<lambda>s. sf_TranID s = i \<and> sf_MTI s = ''0420'') \<circ> (\<lambda>s. if P s then f s else s)) = (\<lambda>s. sf_TranID s = i \<and> sf_MTI s = ''0420'')"
    by (rule ext) (simp add: assms)
  then show ?thesis by (simp add: reversals_def filter_map)
qed

lemma reversals_insert:
  "reversals (insert_saf j m p d) i = reversals d i @ (if j = i \<and> m = ''0420'' then [last (db_saf (insert_saf j m p d))] else [])"
  by (simp add: reversals_def insert_saf_def Let_def)

lemma saf_clean_tran [simp]: "saf_clean (update_tran P f d) = saf_clean d" "saf_clean (add_history i a b d) = saf_clean d"
  by (simp_all add: saf_clean_def)

lemma rinv_update_tran:
  assumes inv: "reversal_inv d"
    and f: "\<And>r. r \<in> set (db_tran d) \<Longrightarrow> P r \<Longrightarrow> tl_ID (f r) = tl_ID r"
      "\<And>r. r \<in> set (db_tran d) \<Longrightarrow> P r \<Longrightarrow> row_ok d r \<Longrightarrow> row_ok d (f r)"
  shows "reversal_inv (update_tran P f d)"
proof (rule rinvI)
  have ids: "map tl_ID (db_tran (update_tran P f d)) = map tl_ID (db_tran d)" using f(1) by simp
  show "distinct (map tl_ID (db_tran (update_tran P f d)))" unfolding ids by (rule rinvD(2) [OF inv])
  have ok: "row_ok (update_tran P f d) r = row_ok d r" for r by (simp add: row_ok_def)
  fix r assume "r \<in> set (db_tran (update_tran P f d))"
  then obtain r0 where "r0 \<in> set (db_tran d)" "r = (if P r0 then f r0 else r0)" by auto
  with f(2) rinvD(3) [OF inv] show "row_ok (update_tran P f d) r" unfolding ok by auto
qed (use rinvD [OF inv] in auto)

lemma rinv_history: "reversal_inv (add_history i a b d) = reversal_inv d"
  by (simp add: reversal_inv_def row_ok_def)

lemma rinv_update_saf:
  assumes inv: "reversal_inv d"
    and f: "\<And>s. sf_TranID (f s) = sf_TranID s" "\<And>s. sf_MTI (f s) = sf_MTI s"
      "\<And>s. sf_AckedAt s \<noteq> None \<Longrightarrow> sf_AckedAt (f s) \<noteq> None"
      "\<And>s. clean_payload (sf_Payload s) \<Longrightarrow> clean_payload (sf_Payload (f s))"
  shows "reversal_inv (update_saf P f d)"
proof (rule rinvI)
  note rev = reversals_update_saf [OF f(1,2), of P d]
  show "saf_clean (update_saf P f d)" using rinvD(1) [OF inv] f(4) by (auto simp: saf_clean_def)
  show "sf_TranID s \<le> db_tran_seq (update_saf P f d)" if "s \<in> set (db_saf (update_saf P f d))" for s
    using that rinvD(4) [OF inv] f(1) by (auto split: if_splits)
  show "length (reversals (update_saf P f d) i) \<le> 1" for i using rinvD(5) [OF inv] by (simp add: rev)
  show "row_ok (update_saf P f d) r" if "r \<in> set (db_tran (update_saf P f d))" for r
    using that rinvD(3) [OF inv, of r] f(3) unfolding row_ok_def rev by fastforce
qed (use rinvD [OF inv] in auto)

lemma rinv_unique:
  assumes "reversal_inv d" "r \<in> set (db_tran d)" "r' \<in> set (db_tran d)" "tl_ID r = tl_ID r'"
  shows "r = r'"
  using rinvD(2) [OF assms(1)] assms(2-) by (metis (mono_tags, lifting) distinct_map inj_onD)

lemma rinv_insert_other:
  assumes "reversal_inv d" "clean_payload p" "mti \<noteq> ''0420''" "i \<le> db_tran_seq d"
  shows "reversal_inv (insert_saf i mti p d)"
proof (rule rinvI)
  have rev: "reversals (insert_saf i mti p d) j = reversals d j" for j using assms(3) by (simp add: reversals_insert)
  show "row_ok (insert_saf i mti p d) r" if "r \<in> set (db_tran (insert_saf i mti p d))" for r
    using that rinvD(3) [OF assms(1), of r] by (simp add: row_ok_def rev)
  show "length (reversals (insert_saf i mti p d) j) \<le> 1" for j using rinvD(5) [OF assms(1)] by (simp add: rev)
qed (use rinvD [OF assms(1)] assms(2,4) in \<open>auto simp: saf_clean_def insert_saf_saf\<close>)

lemma rinv_queue:
  assumes inv: "reversal_inv d" and p: "clean_payload p" and status: "status \<notin> reversal_states"
  shows "reversal_inv (snd (queue_tx i status reason p d))"
proof (cases "affected (\<lambda>r. tl_ID r = i \<and> tl_Status r = status) d = 0")
  case True
  with inv show ?thesis by (simp add: queue_tx_def)
next
  case False
  then obtain r0 where r0: "r0 \<in> set (db_tran d)" "tl_ID r0 = i" "tl_Status r0 = status" by (auto simp: affected_0)
  with rinvD(3) [OF inv] status have none: "reversals d i = []" by (auto simp: row_ok_def)
  have seq: "i \<le> db_tran_seq d" using rinvD(3) [OF inv r0(1)] r0(2) by (simp add: row_ok_def)
  define f where "f = (\<lambda>r :: TranLogRow. if tl_ID r = i \<and> tl_Status r = status
    then r\<lparr>tl_Status := statusReversalPending, tl_ReversalReasonCode := reason\<rparr> else r)"
  define d1 where "d1 = add_history i status statusReversalPending (update_tran (\<lambda>r. tl_ID r = i \<and> tl_Status r = status)
    (\<lambda>r. r\<lparr>tl_Status := statusReversalPending, tl_ReversalReasonCode := reason\<rparr>) d)"
  have d1: "db_tran d1 = map f (db_tran d)" "db_saf d1 = db_saf d" "db_tran_seq d1 = db_tran_seq d" "reversals d1 j = reversals d j" for j
    by (auto simp: d1_def f_def)
  have e: "snd (queue_tx i status reason p d) = insert_saf i ''0420'' p d1" using False by (simp add: queue_tx_def d1_def)
  define s where "s = last (db_saf (insert_saf i ''0420'' p d1))"
  have revs: "reversals (insert_saf i ''0420'' p d1) j = (if j = i then [s] else reversals d j)" for j
    using none by (simp add: reversals_insert d1 s_def)
  have fid: "tl_ID (f r) = tl_ID r" for r by (simp add: f_def)
  show ?thesis unfolding e
  proof (rule rinvI)
    have "map tl_ID (db_tran (insert_saf i ''0420'' p d1)) = map tl_ID (db_tran d)" by (simp add: d1 fid comp_def)
    then show "distinct (map tl_ID (db_tran (insert_saf i ''0420'' p d1)))" using rinvD(2) [OF inv] by (simp only:)
    show "length (reversals (insert_saf i ''0420'' p d1) j) \<le> 1" for j using rinvD(5) [OF inv] by (simp add: revs)
    fix r assume "r \<in> set (db_tran (insert_saf i ''0420'' p d1))"
    then obtain q where q: "q \<in> set (db_tran d)" "r = f q" by (auto simp: d1)
    show "row_ok (insert_saf i ''0420'' p d1) r"
    proof (cases "tl_ID q = i")
      case True
      with rinv_unique [OF inv q(1) r0(1)] r0 have "r = q\<lparr>tl_Status := statusReversalPending, tl_ReversalReasonCode := reason\<rparr>"
        by (simp add: q(2) f_def)
      with True seq show ?thesis by (simp add: row_ok_def revs d1 statusReversalPending_def)
    next
      case False
      with q have "r = q" by (simp add: f_def)
      with False rinvD(3) [OF inv q(1)] show ?thesis by (simp add: row_ok_def revs d1)
    qed
  qed (use rinvD [OF inv] p seq in \<open>auto simp: saf_clean_def insert_saf_saf d1\<close>)
qed

lemma rinv_MarkAcked:
  assumes inv: "reversal_inv d"
  shows "reversal_inv (snd (MarkAcked i d))"
proof (cases "find (\<lambda>s. sf_ID s = i) (db_saf d)")
  case None
  with inv show ?thesis by (simp add: MarkAcked_def)
next
  case (Some s)
  then have s: "s \<in> set (db_saf d)" "sf_ID s = i" by (auto simp: find_Some_iff)
  define f where "f = (\<lambda>s :: SafRow. s\<lparr>sf_Status := ''ACKED'', sf_AckedAt := Some (db_now d)\<rparr>)"
  define d1 where "d1 = update_saf (\<lambda>s. sf_ID s = i) f d"
  have i1: "reversal_inv d1" unfolding d1_def by (rule rinv_update_saf [OF inv]) (auto simp: f_def)
  have rev1: "reversals d1 j = map (\<lambda>s. if sf_ID s = i then f s else s) (reversals d j)" for j
    unfolding d1_def by (rule reversals_update_saf) (simp_all add: f_def)
  have acked: "\<forall>x \<in> set (reversals d1 (sf_TranID s)). sf_AckedAt x \<noteq> None" if "sf_MTI s = ''0420''"
  proof -
    have "s \<in> set (reversals d (sf_TranID s))" using s that by (simp add: reversals_def)
    moreover have "length (reversals d (sf_TranID s)) \<le> 1" by (rule rinvD(5) [OF inv])
    ultimately have "reversals d (sf_TranID s) = [s]" by (cases "reversals d (sf_TranID s)") auto
    then show ?thesis using s(2) by (simp add: rev1 f_def)
  qed
  have fin: "reversal_inv (finishOnAck t ''REVERSAL_PENDING'' ''REVERSED'' (\<lambda>r. r\<lparr>tl_Status := ''REVERSED''\<rparr>) d1)"
    if "\<forall>x \<in> set (reversals d1 t). sf_AckedAt x \<noteq> None" for t
    using i1 that unfolding finishOnAck_def Let_def
    by (auto simp: rinv_history row_ok_def intro!: rinv_update_tran)
  have fin2: "reversal_inv (finishOnAck t ''TIMED_OUT'' ''APPROVED''
      (\<lambda>r. r\<lparr>tl_Status := ''APPROVED'', tl_ResponseCode := ''00'', tl_RespondedAt := Some (db_now d)\<rparr>) d1)" for t
    using i1 unfolding finishOnAck_def Let_def
    by (auto simp: rinv_history row_ok_def intro!: rinv_update_tran)
  show ?thesis
    using Some fin [of "sf_TranID s"] fin2 acked i1
    by (simp add: MarkAcked_def d1_def [unfolded f_def, symmetric] Let_def mtiReversalAdvice_def mtiCompletionAdvice_def del: update_saf_simps)
qed

interpretation reversal: saf_invariant reversal_inv
proof
  fix d p i status reason mti
  show "reversal_inv d \<Longrightarrow> clean_payload p \<Longrightarrow> status \<notin> {''CREATED'', ''REVERSAL_PENDING'', ''REVERSED''} \<Longrightarrow>
      reversal_inv (snd (queue_tx i status reason p d))"
    by (rule rinv_queue) auto
  show "reversal_inv (snd (enqueue_op i mti p d))" if "reversal_inv d" "clean_payload p" "mti \<noteq> ''0420''"
  proof (cases "affected (\<lambda>r. tl_ID r = i) d = 0")
    case False
    then have "i \<le> db_tran_seq d" using rinvD(3) [OF that(1)] by (auto simp: affected_0 row_ok_def)
    with that rinv_insert_other show ?thesis by (auto simp: enqueue_op_def)
  qed (use that in \<open>simp add: enqueue_op_def\<close>)
  show "reversal_inv d \<Longrightarrow> reversal_inv (snd (MarkTimedOut i d))"
    unfolding MarkTimedOut_def by (auto simp: rinv_history row_ok_def intro!: rinv_update_tran)
  show "reversal_inv d \<Longrightarrow> reversal_inv (snd (MarkAcked i d))" by (rule rinv_MarkAcked)
  show "reversal_inv d \<Longrightarrow> saf_clean d" by (rule rinvD(1))
qed (auto simp: ClaimDue_def UpdatePayload_def MarkInFlight_def MarkDead_def Let_def intro!: rinv_update_saf)

end
