(* ===== verification/Saf_Delivery.thy ===== *)
theory Saf_Delivery
  imports Saf_Invariants
begin

text \<open>
  What one delivery of the store-and-forward worker and one follow-up of the sweeper do
  (\<open>saf/worker.go\<close>, \<open>saf/sweeper.go\<close>): when a row is acknowledged, what an outage costs, what goes
  on the wire, and what becomes of an orphan; with the properties of the store-and-forward queue.
\<close>

section \<open>Predicates on one queue row\<close>

definition saf_row_all :: "int \<Rightarrow> (SafRow \<Rightarrow> bool) \<Rightarrow> db \<Rightarrow> bool" where
  "saf_row_all i Q d \<longleftrightarrow> (\<forall>s \<in> set (db_saf d). sf_ID s = i \<longrightarrow> Q s)"

lemma saf_row_all_update:
  "saf_row_all i Q d \<Longrightarrow> (\<And>s. sf_ID (f s) = sf_ID s) \<Longrightarrow> (\<And>s. sf_ID s = i \<Longrightarrow> P s \<Longrightarrow> Q s \<Longrightarrow> Q (f s)) \<Longrightarrow>
   saf_row_all i Q (update_saf P f d)"
  by (auto simp: saf_row_all_def)

lemma waitForLink_row:
  assumes "gw_keeps (saf_row_all i Q) w"
    and "\<And>s t e. sf_ID s = i \<Longrightarrow> Q s \<Longrightarrow> Q (s\<lparr>sf_Status := ''IN_FLIGHT'', sf_Attempts := sf_Attempts row, sf_NextRetryAt := t, sf_LastError := e\<rparr>)"
  shows "gw_keeps (saf_row_all i Q) (snd (waitForLink g row why w))"
  unfolding waitForLink_def Let_def
  by (rule gw_keeps_call [OF assms(1)]) (use assms(2) in \<open>auto simp: MarkInFlight_def intro!: saf_row_all_update\<close>)

lemma retryLater_row:
  assumes "gw_keeps (saf_row_all i Q) w"
    and "\<And>s a t e. sf_ID s = i \<Longrightarrow> Q s \<Longrightarrow> Q (s\<lparr>sf_Status := ''IN_FLIGHT'', sf_Attempts := a, sf_NextRetryAt := t, sf_LastError := e\<rparr>)"
    and "\<And>s e. sf_ID s = i \<Longrightarrow> Q s \<Longrightarrow> Q (s\<lparr>sf_Status := ''DEAD'', sf_LastError := e\<rparr>)"
  shows "gw_keeps (saf_row_all i Q) (snd (retryLater g row why w))"
proof -
  have "gw_keeps (saf_row_all i Q) (w\<lparr>gw_safDead := gw_safDead w + 1\<rparr>)" by (rule gw_keeps_cong [OF assms(1)]) simp_all
  with assms show ?thesis
    unfolding retryLater_def Let_def
    by (auto simp: MarkInFlight_def MarkDead_def intro!: gw_keeps_call saf_row_all_update)
qed

lemma assign_cases:
  assumes "assignNetworkIdentity g j adv w = (r, w')"
  obtains (known) "fget (adv_Fields adv) 11 \<noteq> ''''" "r = Inr adv" "w' = w"
  | (no_link) "fget (adv_Fields adv) 11 = ''''" "sup_NextSTAN w = (None, w')" "r = Inl [ErrNoLiveLink]"
  | (unsealed) stan where "fget (adv_Fields adv) 11 = ''''" "sup_NextSTAN w = (Some stan, w')" "r = Inl [ErrDecode]"
  | (stored) stan w1 adv' p q where "fget (adv_Fields adv) 11 = ''''" "sup_NextSTAN w = (Some stan, w1)"
      "adv' = adv\<lparr>adv_Fields := fput 7 (format_0102150405 (gw_now w1)) (fput 11 stan (adv_Fields adv))\<rparr>"
      "encodePayload (ge_encKey g) adv' = Inr p" "call (UpdatePayload j p) w1 = (q, w')"
      "r = (case q of Inl e \<Rightarrow> Inl e | Inr _ \<Rightarrow> Inr adv')"
proof (cases "fget (adv_Fields adv) 11 \<noteq> ''''")
  case True
  with assms known show ?thesis by (simp add: assignNetworkIdentity_def)
next
  case False
  obtain st w1 where s: "sup_NextSTAN w = (st, w1)" by fastforce
  show ?thesis
  proof (cases st)
    case None
    with False s assms no_link show ?thesis by (simp add: assignNetworkIdentity_def)
  next
    case (Some stan)
    let ?adv = "adv\<lparr>adv_Fields := fput 7 (format_0102150405 (gw_now w1)) (fput 11 stan (adv_Fields adv))\<rparr>"
    show ?thesis
    proof (cases "encodePayload (ge_encKey g) ?adv")
      case (Inl e)
      then have "e = [ErrDecode]" by (auto simp: encodePayload_def split: if_splits)
      with Inl False s Some assms unsealed show ?thesis by (simp add: assignNetworkIdentity_def Let_def)
    next
      case (Inr p)
      obtain q w2 where c: "call (UpdatePayload j p) w1 = (q, w2)" by fastforce
      with Inr False s Some assms have "r = (case q of Inl e \<Rightarrow> Inl e | Inr _ \<Rightarrow> Inr ?adv)" "w' = w2"
        by (cases q; simp add: assignNetworkIdentity_def Let_def)+
      with stored [OF _ _ refl Inr, of q] False s Some c show ?thesis by simp
    qed
  qed
qed

lemma assign_row:
  assumes "gw_keeps (saf_row_all i Q) w" "assignNetworkIdentity g j adv w = (r, w')"
    and "\<And>s p. sf_ID s = i \<Longrightarrow> Q s \<Longrightarrow> Q (s\<lparr>sf_Payload := p\<rparr>)"
  shows "gw_keeps (saf_row_all i Q) w'"
  using assms(2)
proof (cases rule: assign_cases)
  case (stored stan w1 adv' p q)
  show ?thesis
    by (rule gw_keeps_call' [OF stored(5) gw_keeps_STAN [OF assms(1) stored(2)]])
      (use assms(3) in \<open>auto simp: UpdatePayload_def intro!: saf_row_all_update\<close>)
qed (use assms(1) in \<open>auto dest: gw_keeps_STAN [OF assms(1)]\<close>)

lemma assign_fields:
  assumes "assignNetworkIdentity g j adv w = (r, w')"
  shows "gw_sends w' = gw_sends w" "gw_wire w' = gw_wire w"
proof -
  have *: "gw_sends v = gw_sends u" "gw_wire v = gw_wire u" if "sup_NextSTAN u = (x, v)" for u v x
    using sup_NextSTAN_simps [of u] that by simp_all
  have c: "gw_sends v = gw_sends u" "gw_wire v = gw_wire u" if "call (UpdatePayload j p) u = (x, v)" for u v x p
    using call_gw_fields [of "UpdatePayload j p" u] that by simp_all
  have "gw_sends w' = gw_sends w \<and> gw_wire w' = gw_wire w"
    using assms
  proof (cases rule: assign_cases)
    case (no_link)
    then show ?thesis using * by simp
  next
    case (unsealed stan)
    then show ?thesis using * by simp
  next
    case (stored stan w1 adv' p q)
    then show ?thesis using * [OF stored(2)] c [OF stored(5)] by simp
  qed simp
  then show "gw_sends w' = gw_sends w" "gw_wire w' = gw_wire w" by simp_all
qed

section \<open>Acknowledgement\<close>

definition not_acked :: "SafRow \<Rightarrow> bool" where
  "not_acked s \<longleftrightarrow> sf_Status s \<noteq> ''ACKED''"

text \<open>A response that is no acknowledgement: its RC is not "00", or its MAC verifies neither under
  the active ZAK nor under any of the stored keys \<open>ks\<close>, however the reads of the key table go.\<close>

definition keys_are :: "KeyRow list \<Rightarrow> db \<Rightarrow> bool" where
  "keys_are ks d \<longleftrightarrow> db_keys d = ks"

definition no_proof :: "genv \<Rightarrow> bytes \<Rightarrow> KeyRow list \<Rightarrow> string \<Rightarrow> fields \<Rightarrow> bool" where
  "no_proof g zak ks mti resp \<longleftrightarrow> fget resp 39 \<noteq> ''00'' \<or>
     (\<forall>w :: gw. gw_keeps (keys_are ks) w \<longrightarrow> \<not> fst (Verify (mac_env.truncate g) zak (responseMTI_advice mti) resp w))"

lemma assign_same_keys:
  assumes "gw_keeps (keys_are ks) w" "assignNetworkIdentity g j adv w = (r, w')"
  shows "gw_keeps (keys_are ks) w' \<and> gw_zak w' = gw_zak w"
proof -
  have z: "gw_zak v = gw_zak u" if "sup_NextSTAN u = (x, v)" for u v x
    using that by (auto simp: sup_NextSTAN_def link_up_def split: list.splits bool.splits prod.splits)
  have c: "gw_zak v = gw_zak u" if "call (UpdatePayload j p) u = (x, v)" for u v x p
    using call_gw_fields(4) [of "UpdatePayload j p" u] that by simp
  show ?thesis
    using assms(2)
  proof (cases rule: assign_cases)
    case (stored stan w1 adv' p q)
    have "gw_keeps (keys_are ks) w'"
      by (rule gw_keeps_call' [OF stored(5) gw_keeps_STAN [OF assms(1) stored(2)]])
        (simp add: UpdatePayload_def update_saf_def keys_are_def)
    with z [OF stored(2)] c [OF stored(5)] show ?thesis by simp
  qed (use assms(1) gw_keeps_STAN [OF assms(1)] z in auto)
qed

lemma settle_not_acked:
  assumes "gw_keeps (saf_row_all (sf_ID row) not_acked) w" "gw_keeps (keys_are ks) w"
    and "no_proof g (gw_zak w) ks mti resp"
  shows "gw_keeps (saf_row_all (sf_ID row) not_acked) (snd (settle g row mti resp w))"
proof -
  let ?I = "saf_row_all (sf_ID row) not_acked"
  have wait: "gw_keeps ?I v \<Longrightarrow> gw_keeps ?I (snd (waitForLink g row why v))"
    and retry: "gw_keeps ?I v \<Longrightarrow> gw_keeps ?I (snd (retryLater g row why v))" for v why
    by (auto simp: not_acked_def intro!: waitForLink_row retryLater_row)
  obtain b w1 where v: "Verify (mac_env.truncate g) (gw_zak w) (responseMTI_advice mti) resp w = (b, w1)" by fastforce
  have k: "gw_keeps ?I (w1\<lparr>gw_macFailures := gw_macFailures w1 + 1\<rparr>)"
    by (rule gw_keeps_cong [OF gw_keeps_Verify [OF assms(1) v]]) simp_all
  have "fget resp 39 = acknowledged \<Longrightarrow> \<not> b"
    using assms(2,3) v unfolding no_proof_def acknowledged_def by (metis fst_conv)
  with assms(1) v k wait retry show ?thesis by (auto simp: settle_def split: bool.splits)
qed

lemma deliverRow_not_acked:
  assumes "gw_keeps (saf_row_all (sf_ID row) not_acked) w" "gw_keeps (keys_are ks) w"
    and "\<And>resp rest s. gw_sends w = s # rest \<Longrightarrow> so_result s = Inr resp \<Longrightarrow> no_proof g (gw_zak w) ks (sf_MTI row) resp"
    and len: "length (sf_MTI row) = 4"
  shows "gw_keeps (saf_row_all (sf_ID row) not_acked) (snd (deliverRow g row w))"
proof (cases "decodePayload (ge_encKey g) (sf_Payload row)")
  case (Inr adv0)
  let ?I = "saf_row_all (sf_ID row) not_acked"
  obtain r w1 where a: "assignNetworkIdentity g (sf_ID row) adv0 w = (r, w1)" by fastforce
  have k1: "gw_keeps ?I w1" by (rule assign_row [OF assms(1) a]) (simp add: not_acked_def)
  have keys: "gw_keeps (keys_are ks) w1" "gw_zak w1 = gw_zak w" using assign_same_keys [OF assms(2) a] by auto
  have sends: "gw_sends w1 = gw_sends w" by (rule assign_fields(1) [OF a])
  have wait: "gw_keeps ?I v \<Longrightarrow> gw_keeps ?I (snd (waitForLink g row why v))"
    and retry: "gw_keeps ?I v \<Longrightarrow> gw_keeps ?I (snd (retryLater g row why v))" for v why
    by (auto simp: not_acked_def intro!: waitForLink_row retryLater_row)
  have dead: "gw_keeps ?I (snd (call (MarkDead (sf_ID row) e) w1))" for e
    by (rule gw_keeps_call [OF k1]) (auto simp: MarkDead_def not_acked_def intro!: saf_row_all_update)
  have send: "gw_keeps ?I (snd (case mux_Send mti fr w1 of
        (Inl e, w2) \<Rightarrow> if errors_Is e ErrNotSignedOn then waitForLink g row e w2 else retryLater g row e w2
      | (Inr resp, w2) \<Rightarrow> settle g row mti resp w2))" if mti: "take 2 mti = take 2 (sf_MTI row)" for mti fr
  proof (cases "mux_Send mti fr w1")
    case (Pair q w2)
    have k2: "gw_keeps ?I w2" by (rule gw_keeps_Send [OF k1 Pair])
    have kk: "gw_keeps (keys_are ks) w2" by (rule gw_keeps_Send [OF keys(1) Pair])
    have z: "gw_zak w2 = gw_zak w" using Pair keys(2) by (auto simp: mux_Send_def split: list.splits)
    show ?thesis
    proof (cases q)
      case (Inr resp)
      with Pair sends obtain s rest where "gw_sends w = s # rest" "so_result s = Inr resp"
        by (auto simp: mux_Send_def split: list.splits)
      from assms(3) [OF this] have "no_proof g (gw_zak w2) ks mti resp"
        by (simp add: no_proof_def z responseMTI_advice_def mti)
      with Inr Pair settle_not_acked [OF k2 kk] show ?thesis by simp
    qed (use Pair k2 wait retry in auto)
  qed
  have "take 2 (take 3 (sf_MTI row) @ ''1'') = take 2 (sf_MTI row)" using len by simp
  note s = send [OF refl] send [OF this]
  show ?thesis
    using Inr a k1 s dead wait
    by (cases r) (auto simp: deliverRow_def Let_def split: sum.splits)
qed (use assms in \<open>auto simp: deliverRow_def\<close>)

section \<open>Outages\<close>

definition alive :: "int \<Rightarrow> SafRow \<Rightarrow> bool" where
  "alive a s \<longleftrightarrow> sf_Attempts s = a \<and> sf_Status s \<noteq> ''DEAD''"

text \<open>The link, not the advice, is at fault: no STAN can be allocated for a first send, or a send is
  refused before anything is written, or the issuer answers that it is not signed on.\<close>

definition outage :: "genv \<Rightarrow> SafRow \<Rightarrow> advice \<Rightarrow> gw \<Rightarrow> bool" where
  "outage g row adv w \<longleftrightarrow>
     (if fget (adv_Fields adv) 11 = '''' then fst (sup_NextSTAN w) = None
      else (\<exists>fr. frame g (gw_zak w) (take 3 (sf_MTI row) @ ''1'') adv = Inr fr) \<and>
           (case gw_sends w of
              [] \<Rightarrow> True
            | s # _ \<Rightarrow> (case so_result s of Inl e \<Rightarrow> errors_Is e ErrNotSignedOn | Inr resp \<Rightarrow> fget resp 39 = ''91'')))"

lemma waitForLink_alive:
  "gw_keeps (saf_row_all (sf_ID row) (alive (sf_Attempts row))) w \<Longrightarrow>
   gw_keeps (saf_row_all (sf_ID row) (alive (sf_Attempts row))) (snd (waitForLink g row why w))"
  by (rule waitForLink_row) (auto simp: alive_def)

lemma deliverRow_outage:
  assumes k: "gw_keeps (saf_row_all (sf_ID row) (alive (sf_Attempts row))) w"
    and d: "decodePayload (ge_encKey g) (sf_Payload row) = Inr adv" and o: "outage g row adv w"
  shows "gw_keeps (saf_row_all (sf_ID row) (alive (sf_Attempts row))) (snd (deliverRow g row w))"
proof (cases "fget (adv_Fields adv) 11 = ''''")
  case True
  with o obtain w1 where s: "sup_NextSTAN w = (None, w1)" by (cases "sup_NextSTAN w") (auto simp: outage_def)
  with True have "assignNetworkIdentity g (sf_ID row) adv w = (Inl [ErrNoLiveLink], w1)"
    by (simp add: assignNetworkIdentity_def)
  with d waitForLink_alive [OF gw_keeps_STAN [OF k s]] show ?thesis
    by (simp add: deliverRow_def errors_Is_def)
next
  case False
  let ?mti = "take 3 (sf_MTI row) @ ''1''"
  from False o obtain fr where fr: "frame g (gw_zak w) ?mti adv = Inr fr" by (auto simp: outage_def)
  have a: "assignNetworkIdentity g (sf_ID row) adv w = (Inr adv, w)" using False by (simp add: assignNetworkIdentity_def)
  obtain q w2 where m: "mux_Send ?mti fr w = (q, w2)" by fastforce
  have k2: "gw_keeps (saf_row_all (sf_ID row) (alive (sf_Attempts row))) w2" by (rule gw_keeps_Send [OF k m])
  have q: "(\<exists>e. q = Inl e \<and> errors_Is e ErrNotSignedOn) \<or> (\<exists>resp. q = Inr resp \<and> fget resp 39 = ''91'')"
    using o False m by (auto simp: outage_def mux_Send_def errors_Is_def split: list.splits sum.splits)
  have "deliverRow g row w = (case mux_Send ?mti fr w of
        (Inl e, w2) \<Rightarrow> if errors_Is e ErrNotSignedOn then waitForLink g row e w2 else retryLater g row e w2
      | (Inr resp, w2) \<Rightarrow> settle g row ?mti resp w2)"
    using d a fr False by (simp add: deliverRow_def Let_def)
  with q m waitForLink_alive [OF k2] show ?thesis
    by (auto simp: settle_def issuerNotSignedOn_def)
qed

section \<open>What goes on the wire\<close>

lemma frame_fields:
  assumes "frame g zak mti adv = Inr fr" "n \<notin> {2, 64, 128}"
  shows "map_of fr n = map_of (adv_Fields adv) n"
  using assms by (auto simp: frame_def frame_mac_field_def split: sum.splits if_splits option.splits)

lemma mux_Send_wire:
  "mux_Send mti fs w = (q, w') \<Longrightarrow> gw_wire w' = gw_wire w \<or> gw_wire w' = gw_wire w @ [(mti, fs)]"
  by (auto simp: mux_Send_def split: list.splits sum.splits if_splits)

lemma Verify_wire: "Verify g zak mti resp w = (b, w') \<Longrightarrow> gw_wire w' = gw_wire (w :: gw)"
proof -
  assume v: "Verify g zak mti resp w = (b, w')"
  have "gw_wire (snd (FallbackKeys t ow k w)) = gw_wire w" for t ow k
  proof -
    obtain p w1 where p: "call (FindPending t ow) w = (p, w1)" by fastforce
    obtain q w2 where q: "call (FindRecentlyRetired t ow k) w1 = (q, w2)" by fastforce
    have "gw_wire w1 = gw_wire w" "gw_wire w2 = gw_wire w1"
      using call_gw_fields(2) [of "FindPending t ow" w] call_gw_fields(2) [of "FindRecentlyRetired t ow k" w1] p q by simp_all
    then show ?thesis by (cases p; cases q) (simp_all add: FallbackKeys_def p q)
  qed
  then have "gw_wire (snd (fallbackZAKs w)) = gw_wire w"
    by (simp add: fallbackZAKs_def split: prod.split sum.split) (metis snd_conv)
  with v show ?thesis
    by (auto simp: Verify_def macMatchesRecentlyRetiredZAK_def Let_def
        split: option.splits sum.splits if_splits prod.splits)
qed

lemma waitForLink_wire [simp]: "gw_wire (snd (waitForLink g row why w)) = gw_wire w"
  by (simp add: waitForLink_def Let_def)

lemma retryLater_wire [simp]: "gw_wire (snd (retryLater g row why w)) = gw_wire w"
  by (simp add: retryLater_def Let_def)

lemma settle_wire [simp]: "gw_wire (snd (settle g row mti resp w)) = gw_wire w"
  by (auto simp: settle_def split: prod.splits bool.splits dest: Verify_wire)

lemma deliverRow_wire:
  assumes d: "decodePayload (ge_encKey g) (sf_Payload row) = Inr adv"
    and a: "assignNetworkIdentity g (sf_ID row) adv w = (r, w1)"
    and new: "gw_wire (snd (deliverRow g row w)) = gw_wire w @ [(mti, fr)]"
  shows "\<exists>adv'. r = Inr adv' \<and> mti = (if fget (adv_Fields adv) 11 \<noteq> '''' then take 3 (sf_MTI row) @ ''1'' else sf_MTI row) \<and>
    (\<forall>n. n \<notin> {2, 64, 128} \<longrightarrow> map_of fr n = map_of (adv_Fields adv') n)"
proof -
  let ?mti = "if fget (adv_Fields adv) 11 \<noteq> '''' then take 3 (sf_MTI row) @ ''1'' else sf_MTI row"
  note wire1 = assign_fields(2) [OF a]
  have wire0: "gw_wire (snd (waitForLink g row e w1)) = gw_wire w" "gw_wire (snd (call op w1)) = gw_wire w" for e and op :: "unit dbop"
    by (simp_all add: wire1)
  from new d a obtain adv' where r: "r = Inr adv'"
    by (cases r) (auto simp: deliverRow_def Let_def wire0 wire1 split: if_splits)
  from new d a r obtain fr' where f: "frame g (gw_zak w1) ?mti adv' = Inr fr'"
    by (cases "frame g (gw_zak w1) ?mti adv'") (auto simp: deliverRow_def Let_def wire0 wire1 split: if_splits)
  obtain q w2 where m: "mux_Send ?mti fr' w1 = (q, w2)" by fastforce
  have "gw_wire (snd (deliverRow g row w)) = gw_wire w2"
  proof -
    define M where "M = ?mti"
    have e: "deliverRow g row w = (case mux_Send M fr' w1 of
        (Inl e, w2) \<Rightarrow> if errors_Is e ErrNotSignedOn then waitForLink g row e w2 else retryLater g row e w2
      | (Inr resp, w2) \<Rightarrow> settle g row M resp w2)"
      unfolding M_def using d a r f by (simp add: deliverRow_def Let_def split del: if_split)
    show ?thesis using m unfolding e M_def [symmetric] by (cases q) auto
  qed
  with new mux_Send_wire [OF m] wire1 have "mti = ?mti" "fr = fr'" by auto
  with r frame_fields [OF f] show ?thesis by auto
qed

section \<open>Faults without interference\<close>

definition quiet :: "gw \<Rightarrow> bool" where
  "quiet w \<longleftrightarrow> (\<forall>s \<in> set (w_sched w). sc_env s = (\<lambda>d. d)) \<and> (\<forall>s \<in> set (gw_sends w). so_env s = (\<lambda>d. d))"

lemma quiet_keeps: "quiet w \<Longrightarrow> I (w_db w) \<Longrightarrow> gw_keeps I w"
  by (simp add: quiet_def gw_keeps_def)

lemma quiet_call: "quiet w \<Longrightarrow> quiet (snd (call op w))"
  using call_sched [of op w] by (auto simp: quiet_def)

lemma quiet_STAN: "quiet w \<Longrightarrow> sup_NextSTAN w = (r, w') \<Longrightarrow> quiet w'"
  using sup_NextSTAN_simps [of w] by (simp add: quiet_def)

text \<open>A call that reports success has taken effect.\<close>

lemma call_Inr:
  assumes "quiet w" "call op w = (Inr x, w')"
  shows "op (w_db w) = (Inr x, w_db w')"
  using assms by (auto simp: call_def quiet_def Let_def split: list.splits fault.splits prod.splits)

lemma stan_not_empty: "sup_NextSTAN w = (Some stan, w') \<Longrightarrow> stan \<noteq> ''''"
proof -
  assume "sup_NextSTAN w = (Some stan, w')"
  then obtain n where "stan = fmt_0d 6 n"
    by (auto simp: sup_NextSTAN_def NextSTAN_def Let_def split: prod.splits bool.splits)
  moreover have "pad_left 6 (Itoa n) \<noteq> ''''" by (metis length_pad_left list.size(3) max_nat.eq_neutr_iff zero_neq_numeral)
  ultimately show ?thesis by (auto simp: fmt_0d_def)
qed

lemma encode_decode: "encodePayload k adv = Inr p \<Longrightarrow> decodePayload k p = Inr adv"
  by (auto simp: encodePayload_def decodePayload_def split: if_splits)

text \<open>The stored payload of the row, after the identity was assigned.\<close>

lemma assign_persisted:
  assumes "quiet w" "assignNetworkIdentity g (sf_ID row) adv w = (Inr adv', w1)"
    and "decodePayload (ge_encKey g) (sf_Payload row) = Inr adv"
    and "saf_row_all (sf_ID row) (\<lambda>s. sf_Payload s = sf_Payload row) (w_db w)"
  shows "quiet w1 \<and> fget (adv_Fields adv') 11 \<noteq> '''' \<and>
    saf_row_all (sf_ID row) (\<lambda>s. decodePayload (ge_encKey g) (sf_Payload s) = Inr adv') (w_db w1)"
  using assms(2)
proof (cases rule: assign_cases)
  case known
  with assms show ?thesis by (auto simp: saf_row_all_def)
next
  case (stored stan w2 adv2 p q)
  then have q: "q = Inr ()" "adv' = adv2" by (auto split: sum.splits)
  have "quiet w2" by (rule quiet_STAN [OF assms(1) stored(2)])
  with call_Inr [of w2 "UpdatePayload (sf_ID row) p" "()" w1] quiet_call [of w2 "UpdatePayload (sf_ID row) p"] stored(5) q
  have "quiet w1" "w_db w1 = update_saf (\<lambda>s. sf_ID s = sf_ID row) (\<lambda>s. s\<lparr>sf_Payload := p\<rparr>) (w_db w2)"
    by (auto simp: UpdatePayload_def)
  with stored(3) q(2) encode_decode [OF stored(4)] stan_not_empty [OF stored(2)] show ?thesis
    by (auto simp: saf_row_all_def)
qed auto

lemma deliver_rest_payload:
  assumes "gw_keeps (saf_row_all i (\<lambda>s. R (sf_Payload s))) w"
  shows "gw_keeps (saf_row_all i (\<lambda>s. R (sf_Payload s))) (snd (waitForLink g row why w))"
    "gw_keeps (saf_row_all i (\<lambda>s. R (sf_Payload s))) (snd (retryLater g row why w))"
    "gw_keeps (saf_row_all i (\<lambda>s. R (sf_Payload s))) (snd (settle g row mti resp w))"
proof -
  let ?I = "saf_row_all i (\<lambda>s. R (sf_Payload s))"
  have wait: "gw_keeps ?I v \<Longrightarrow> gw_keeps ?I (snd (waitForLink g row why v))"
    and retry: "gw_keeps ?I v \<Longrightarrow> gw_keeps ?I (snd (retryLater g row why v))" for v why
    by (auto intro!: waitForLink_row retryLater_row)
  show "gw_keeps ?I (snd (waitForLink g row why w))" "gw_keeps ?I (snd (retryLater g row why w))"
    using assms wait retry by auto
  obtain b w1 where v: "Verify (mac_env.truncate g) (gw_zak w) (responseMTI_advice mti) resp w = (b, w1)" by fastforce
  have k: "gw_keeps ?I w1" by (rule gw_keeps_Verify [OF assms v])
  have k': "gw_keeps ?I (w1\<lparr>gw_macFailures := gw_macFailures w1 + 1\<rparr>)" by (rule gw_keeps_cong [OF k]) simp_all
  have fin: "db_saf (finishOnAck t a b f d) = db_saf d" for t a b f d by (simp add: finishOnAck_def Let_def)
  have "gw_keeps ?I (snd (call (MarkAcked (sf_ID row)) w1))"
    by (rule gw_keeps_call [OF k]) (auto simp: MarkAcked_def saf_row_all_def fin Let_def split: option.splits)
  with assms v k' wait retry show "gw_keeps ?I (snd (settle g row mti resp w))"
    by (auto simp: settle_def split: bool.splits)
qed

lemma deliverRow_persisted:
  assumes q: "quiet w" and d: "decodePayload (ge_encKey g) (sf_Payload row) = Inr adv"
    and s: "saf_row_all (sf_ID row) (\<lambda>s. sf_Payload s = sf_Payload row) (w_db w)"
    and new: "gw_wire (snd (deliverRow g row w)) = gw_wire w @ [(mti, fr)]"
  shows "\<exists>adv'. fget (adv_Fields adv') 11 \<noteq> '''' \<and>
    saf_row_all (sf_ID row) (\<lambda>s. decodePayload (ge_encKey g) (sf_Payload s) = Inr adv') (w_db (snd (deliverRow g row w))) \<and>
    (\<forall>n. n \<notin> {2, 64, 128} \<longrightarrow> map_of fr n = map_of (adv_Fields adv') n) \<and>
    mti = (if fget (adv_Fields adv) 11 \<noteq> '''' then take 3 (sf_MTI row) @ ''1'' else sf_MTI row)"
proof -
  obtain r w1 where a: "assignNetworkIdentity g (sf_ID row) adv w = (r, w1)" by fastforce
  from deliverRow_wire [OF d a new] obtain adv' where r: "r = Inr adv'"
    and w: "mti = (if fget (adv_Fields adv) 11 \<noteq> '''' then take 3 (sf_MTI row) @ ''1'' else sf_MTI row)"
      "\<forall>n. n \<notin> {2, 64, 128} \<longrightarrow> map_of fr n = map_of (adv_Fields adv') n" by blast
  let ?R = "\<lambda>p. decodePayload (ge_encKey g) p = Inr adv'"
  from assign_persisted [OF q a [unfolded r] d s] have p: "quiet w1" "fget (adv_Fields adv') 11 \<noteq> ''''"
    "saf_row_all (sf_ID row) (\<lambda>s. ?R (sf_Payload s)) (w_db w1)" by auto
  have k: "gw_keeps (saf_row_all (sf_ID row) (\<lambda>s. ?R (sf_Payload s))) w1" using p(1,3) by (rule quiet_keeps)
  have dead: "gw_keeps (saf_row_all (sf_ID row) (\<lambda>s. ?R (sf_Payload s))) (snd (call (MarkDead (sf_ID row) e) w1))" for e
    by (rule gw_keeps_call [OF k]) (auto simp: MarkDead_def saf_row_all_def)
  have send: "gw_keeps (saf_row_all (sf_ID row) (\<lambda>s. ?R (sf_Payload s))) (snd (case mux_Send m f w1 of
        (Inl e, w2) \<Rightarrow> if errors_Is e ErrNotSignedOn then waitForLink g row e w2 else retryLater g row e w2
      | (Inr resp, w2) \<Rightarrow> settle g row m resp w2))" for m f
    using gw_keeps_Send [OF k] by (auto intro!: deliver_rest_payload [where R = ?R] split: prod.splits sum.splits)
  have "gw_keeps (saf_row_all (sf_ID row) (\<lambda>s. ?R (sf_Payload s))) (snd (deliverRow g row w))"
    using d a r send dead by (auto simp: deliverRow_def Let_def split: sum.splits)
  from gw_keeps_db [OF this] p(2) w show ?thesis by blast
qed

section \<open>Following up an orphan\<close>

lemma Queue_no_fault:
  assumes "w_sched w = []" "reversalAdvice txn reason = Inr adv" "encodePayload (ge_encKey g) adv = Inr p"
  shows "Queue g txn reason w = (let (r, d) = queue_tx (tl_ID txn) (tl_Status txn) reason p (w_db w) in (r, w\<lparr>w_db := d\<rparr>))"
  using assms by (simp add: Queue_def call_def)

definition reversal_queued :: "db \<Rightarrow> int \<Rightarrow> bool" where
  "reversal_queued d i \<longleftrightarrow> reversals d i \<noteq> []"

lemma queue_tx_queued:
  assumes "affected (\<lambda>r. tl_ID r = i \<and> tl_Status r = status) d \<noteq> 0"
  shows "\<exists>d'. queue_tx i status reason p d = (Inr (), d') \<and> reversal_queued d' i \<and>
    db_tran d' = map (\<lambda>r. if tl_ID r = i \<and> tl_Status r = status
      then r\<lparr>tl_Status := ''REVERSAL_PENDING'', tl_ReversalReasonCode := reason\<rparr> else r) (db_tran d)"
  using assms by (simp add: queue_tx_def reversal_queued_def reversals_insert statusReversalPending_def)

lemma MarkTimedOut_ids: "map tl_ID (db_tran (snd (MarkTimedOut i d))) = map tl_ID (db_tran d)"
  by (simp add: MarkTimedOut_def)

lemma followUp_reverses:
  assumes "w_sched w = []" "row \<in> set (db_tran (w_db w))" "distinct (map tl_ID (db_tran (w_db w)))"
    and "tl_Status row \<in> {''SENT'', ''TIMED_OUT'', ''DECLINED''}" "tl_Type row \<notin> {''BALANCE'', ''COMPLETION''}"
    and "tl_SentAt row \<noteq> None" "tl_NetworkSTAN row \<noteq> ''''" "ge_encKey g = '''' \<or> aes_key_ok (ge_encKey g)"
  shows "\<exists>w'. followUp g row w = (Inr (), w') \<and> reversal_queued (w_db w') (tl_ID row) \<and>
    (\<forall>r \<in> set (db_tran (w_db w')). tl_ID r = tl_ID row \<longrightarrow> tl_Status r = ''REVERSAL_PENDING'')"
proof -
  have uniq: "r = row" if "r \<in> set (db_tran (w_db w))" "tl_ID r = tl_ID row" for r
    using assms(2,3) that by (metis (mono_tags, lifting) distinct_map inj_onD)
  have advice: "\<exists>adv p. reversalAdvice x reason = Inr adv \<and> encodePayload (ge_encKey g) adv = Inr p"
    if "tl_SentAt x = tl_SentAt row" "tl_NetworkSTAN x = tl_NetworkSTAN row" for x reason
    using that assms(6-8) by (auto simp: reversalAdvice_def encodePayload_def Let_def)
  have q: "\<exists>w'. Queue g x reason v = (Inr (), w') \<and> reversal_queued (w_db w') (tl_ID row) \<and>
      (\<forall>r \<in> set (db_tran (w_db w')). tl_ID r = tl_ID row \<longrightarrow> tl_Status r = ''REVERSAL_PENDING'')"
    if x: "tl_SentAt x = tl_SentAt row" "tl_NetworkSTAN x = tl_NetworkSTAN row" "tl_ID x = tl_ID row" "w_sched v = []"
      "\<exists>r \<in> set (db_tran (w_db v)). tl_ID r = tl_ID row"
      "\<forall>r \<in> set (db_tran (w_db v)). tl_ID r = tl_ID row \<longrightarrow> tl_Status r = tl_Status x" for x reason v
  proof -
    obtain adv p where a: "reversalAdvice x reason = Inr adv" "encodePayload (ge_encKey g) adv = Inr p"
      using advice [OF x(1,2)] by blast
    have "affected (\<lambda>r. tl_ID r = tl_ID x \<and> tl_Status r = tl_Status x) (w_db v) \<noteq> 0"
      using x(3,5,6) by (auto simp: affected_0)
    from queue_tx_queued [OF this, of reason p] obtain d' where d': "queue_tx (tl_ID x) (tl_Status x) reason p (w_db v) = (Inr (), d')"
      "reversal_queued d' (tl_ID x)" "db_tran d' = map (\<lambda>r. if tl_ID r = tl_ID x \<and> tl_Status r = tl_Status x
      then r\<lparr>tl_Status := ''REVERSAL_PENDING'', tl_ReversalReasonCode := reason\<rparr> else r) (db_tran (w_db v))" by blast
    have "Queue g x reason v = (Inr (), v\<lparr>w_db := d'\<rparr>)" using Queue_no_fault [OF x(4) a] d'(1) by simp
    then show ?thesis using d'(2,3) x(3,6) by (auto split: if_splits)
  qed
  show ?thesis
  proof (cases "tl_Status row = ''DECLINED''")
    case True
    have "\<exists>w'. Queue g row ''06'' w = (Inr (), w') \<and> reversal_queued (w_db w') (tl_ID row) \<and>
      (\<forall>r \<in> set (db_tran (w_db w')). tl_ID r = tl_ID row \<longrightarrow> tl_Status r = ''REVERSAL_PENDING'')"
      by (rule q) (use assms(1,2) uniq in auto)
    with True show ?thesis by (simp add: followUp_def)
  next
    case False
    let ?d1 = "snd (MarkTimedOut (tl_ID row) (w_db w))"
    let ?w1 = "if tl_Status row \<noteq> ''TIMED_OUT'' then w\<lparr>w_db := ?d1\<rparr> else w"
    have m: "MarkTimedOut (tl_ID row) (w_db w) = (Inr True, ?d1)" if "tl_Status row \<noteq> ''TIMED_OUT''"
      using that assms(2,4) False by (auto simp: MarkTimedOut_def affected_0)
    have f: "followUp g row w = Queue g (row\<lparr>tl_Status := ''TIMED_OUT''\<rparr>) ''68'' ?w1"
      using False assms(1,4,5) m by (auto simp: followUp_def call_def Let_def split: prod.splits)
    have rows: "\<forall>r \<in> set (db_tran (w_db ?w1)). tl_ID r = tl_ID row \<longrightarrow> tl_Status r = ''TIMED_OUT''"
      using uniq assms(2,4) False by (auto simp: MarkTimedOut_def affected_0 split: if_splits)
    have ids: "tl_ID ` set (db_tran (w_db ?w1)) = tl_ID ` set (db_tran (w_db w))"
      using arg_cong [OF MarkTimedOut_ids [of "tl_ID row" "w_db w"], of set] by simp
    have "tl_ID row \<in> tl_ID ` set (db_tran (w_db ?w1))" unfolding ids using assms(2) by simp
    then have ex: "\<exists>r \<in> set (db_tran (w_db ?w1)). tl_ID r = tl_ID row" by (auto simp only: image_iff)
    have timed_out: "tl_Status (row\<lparr>tl_Status := ''TIMED_OUT''\<rparr>) = ''TIMED_OUT''" by simp
    have st: "\<forall>r \<in> set (db_tran (w_db ?w1)). tl_ID r = tl_ID row \<longrightarrow> tl_Status r = tl_Status (row\<lparr>tl_Status := ''TIMED_OUT''\<rparr>)"
      unfolding timed_out using rows .
    show ?thesis unfolding f by (rule q [OF _ _ _ _ ex st]) (simp_all add: assms(1))
  qed
qed

section \<open>A small world for the witnesses\<close>

definition toy_genv :: genv where
  "toy_genv = \<lparr>me_ciphers = toy_ciphers, me_lmk = ''lmk'', ge_cards = defaultCards,
     ge_calendar = NewClockCalendar 0 terminalLocation, ge_encKey = '''',
     ge_backoff = \<lparr>bo_Base = second_ns, bo_Cap = 60 * second_ns\<rparr>, ge_rand = (\<lambda>n. 0), ge_traceID = '''', ge_hash = concat\<rparr>"

definition toy_row :: TranLogRow where
  "toy_row = TranLogRow_zero\<lparr>tl_ID := 1, tl_RRN := ''627614000042'', tl_Type := ''PURCHASE'', tl_Status := ''SENT'', tl_Amount := 50000,
     tl_Currency := ''704'', tl_TerminalID := ''00000042'', tl_MerchantID := ''GOCPHO000000001'', tl_NetworkSTAN := ''000042'',
     tl_MTI := ''0200'', tl_ProcessingCode := ''000000'', tl_POSEntryMode := ''051'', tl_SentAt := Some 0, tl_CardToken := ''tok_normal''\<rparr>"

definition toy_sent :: db where
  "toy_sent = toy_db\<lparr>db_tran := [toy_row], db_tran_seq := 1\<rparr>"

definition toy_saf_row :: SafRow where
  "toy_saf_row = \<lparr>sf_ID = 1, sf_TranID = 1, sf_MTI = ''0420'', sf_Payload = PayloadJSON \<lparr>adv_Fields = [(3, ''000000''), (4, ''000000050000''), (39, ''68'')],
     adv_CardToken = ''tok_normal''\<rparr>, sf_Status = ''IN_FLIGHT'', sf_Attempts = 2, sf_MaxAttempts = 20, sf_NextRetryAt = 0, sf_LastError = [],
     sf_CreatedAt = 0, sf_AckedAt = None\<rparr>"

definition toy_queued :: db where
  "toy_queued = toy_sent\<lparr>db_tran := [toy_row\<lparr>tl_Status := ''REVERSAL_PENDING''\<rparr>], db_saf := [toy_saf_row], db_saf_seq := 1\<rparr>"

definition toy_gw :: "db \<Rightarrow> bool list \<Rightarrow> send_outcome list \<Rightarrow> gw" where
  "toy_gw d links sends = \<lparr>w_db = d, w_sched = [], gw_now = db_now d, gw_zak = replicate 16 1, gw_stan = 41, gw_links = links, gw_sends = sends,
     gw_wire = [], gw_hub = [], gw_dups = [], gw_events = [], gw_macFailures = 0, gw_safDead = 0\<rparr>"

section \<open>Properties of the store-and-forward queue\<close>





text \<open>C6: A delivery marks a row ACKED only on proof: when the row was not acknowledged, and the answer is not RC 00 or its MAC verifies
  neither under the active ZAK nor under a key of the key table, the row is not acknowledged afterwards.\<close>

theorem ack_needs_proof:
  assumes "gw_keeps (saf_row_all (sf_ID row) not_acked) w" "gw_keeps (keys_are ks) w" "length (sf_MTI row) = 4"
    and "\<And>resp rest s. gw_sends w = s # rest \<Longrightarrow> so_result s = Inr resp \<Longrightarrow> no_proof g (gw_zak w) ks (sf_MTI row) resp"
  shows "\<forall>s \<in> set (db_saf (w_db (snd (deliverRow g row w)))). sf_ID s = sf_ID row \<longrightarrow> sf_Status s \<noteq> ''ACKED''"
  using gw_keeps_db [OF deliverRow_not_acked [OF assms(1,2,4,3)]] by (simp add: saf_row_all_def not_acked_def)

definition toy_answer :: fields where
  "toy_answer = [(39, ''00''), (11, ''000042'')]"

text \<open>An answer without a MAC field proves nothing.\<close>

lemma toy_answer_no_proof: "no_proof toy_genv zak ks mti toy_answer"
  by (simp add: no_proof_def Verify_def toy_answer_def macFieldOf_def fget_def Let_def)

theorem ack_needs_proof_witness:
  "filter (\<lambda>s. sf_ID s = 1 \<and> sf_Status s = ''ACKED'') (db_saf (w_db (snd (deliverRow toy_genv toy_saf_row
       (toy_gw toy_queued [True] [\<lparr>so_result = Inr toy_answer, so_elapsed = 0, so_env = (\<lambda>d. d)\<rparr>]))))) = []"
proof -
  let ?w = "toy_gw toy_queued [True] [\<lparr>so_result = Inr toy_answer, so_elapsed = 0, so_env = (\<lambda>d. d)\<rparr>]"
  have "\<forall>s \<in> set (db_saf (w_db (snd (deliverRow toy_genv toy_saf_row ?w)))). sf_ID s = sf_ID toy_saf_row \<longrightarrow> sf_Status s \<noteq> ''ACKED''"
  proof (rule ack_needs_proof [where ks = "[]"])
  show "gw_keeps (saf_row_all (sf_ID toy_saf_row) not_acked) ?w"
    by (simp add: gw_keeps_def toy_gw_def toy_queued_def saf_row_all_def not_acked_def toy_saf_row_def)
  show "gw_keeps (keys_are []) ?w"
    by (simp add: gw_keeps_def toy_gw_def toy_queued_def keys_are_def toy_sent_def toy_db_def)
  show "length (sf_MTI toy_saf_row) = 4" by (simp add: toy_saf_row_def)
  show "no_proof toy_genv (gw_zak ?w) [] (sf_MTI toy_saf_row) resp"
    if "gw_sends ?w = s # rest" "so_result s = Inr resp" for resp rest s
    using that toy_answer_no_proof by (auto simp: toy_gw_def)
  qed
  then show ?thesis by (auto simp: filter_empty_conv toy_saf_row_def)
qed


definition toy_delivery :: gw where
  "toy_delivery = toy_gw toy_queued [True] [\<lparr>so_result = Inl [ErrDeadline], so_elapsed = 0, so_env = (\<lambda>d. d)\<rparr>]"

definition toy_adv :: advice where
  "toy_adv = \<lparr>adv_Fields = [(3, ''000000''), (4, ''000000050000''), (39, ''68'')], adv_CardToken = ''tok_normal''\<rparr>"




end
