(* ===== verification/Idempotency.thy ===== *)
theory Idempotency
  imports Saf_Delivery
begin

text \<open>
  Idempotent requests, \<open>src/gateway-go/internal/purchase/idempotency.go\<close>: a request reserves its key, records the RRN it is
  about to send on the key, sends, and stores the response; a retry replays, takes over a stale key, or answers from the
  transaction log. The request's context carries the reservation it holds, which \<open>AttachRRN\<close> changes: here it is an
  argument and a result of the request. A Go result with both a value and an error is the error: no caller looks at the value then.
\<close>

section \<open>Sequencing\<close>

text \<open>Reasoning about \<open>if err != nil { ... }\<close>: what holds of the state after an operation and after each continuation.\<close>

lemma bind_snd:
  assumes "K (snd p)" "\<And>e w1. p = (Inl e, w1) \<Longrightarrow> K w1 \<Longrightarrow> K (snd (f e w1))" "\<And>x w1. p = (Inr x, w1) \<Longrightarrow> K w1 \<Longrightarrow> K (snd (h x w1))"
  shows "K (snd (case p of (Inl e, w1) \<Rightarrow> f e w1 | (Inr x, w1) \<Rightarrow> h x w1))"
  using assms by (cases p; cases "fst p") auto

lemma bind_snd_snd:
  assumes "K (snd p)" "\<And>e w1. p = (Inl e, w1) \<Longrightarrow> K w1 \<Longrightarrow> K (snd (snd (f e w1)))" "\<And>x w1. p = (Inr x, w1) \<Longrightarrow> K w1 \<Longrightarrow> K (snd (snd (h x w1)))"
  shows "K (snd (snd (case p of (Inl e, w1) \<Rightarrow> f e w1 | (Inr x, w1) \<Rightarrow> h x w1)))"
  using assms by (cases p; cases "fst p") auto

lemma bind_held:
  assumes "K (snd (snd p))" "\<And>e h1 w1. p = (Inl e, h1, w1) \<Longrightarrow> K w1 \<Longrightarrow> K (snd (snd (f e h1 w1)))"
    "\<And>x h1 w1. p = (Inr x, h1, w1) \<Longrightarrow> K w1 \<Longrightarrow> K (snd (snd (h x h1 w1)))"
  shows "K (snd (snd (case p of (Inl e, h1, w1) \<Rightarrow> f e h1 w1 | (Inr x, h1, w1) \<Rightarrow> h x h1 w1)))"
  using assms by (cases p; cases "fst p") auto

lemma if_snd: "(c \<Longrightarrow> K (snd a)) \<Longrightarrow> (\<not> c \<Longrightarrow> K (snd b)) \<Longrightarrow> K (snd (if c then a else b))"
  by simp

section \<open>Reservations\<close>

definition requestTimeout :: int where "requestTimeout = 30 * second_ns"
definition persistTimeout :: int where "persistTimeout = 10 * second_ns"
definition staleAfter :: int where "staleAfter = requestTimeout + persistTimeout + 20 * second_ns"

record reservation =
  rv_key :: string
  rv_route :: string
  rv_token :: nat
  rv_rrn :: string

record idemKey =
  ik_key :: string
  ik_route :: string
  ik_requestHash :: string
  ik_status :: int

type_synonym 'a request = "reservation option \<Rightarrow> gw \<Rightarrow> (goerror + 'a) \<times> reservation option \<times> gw"
type_synonym Recover = "string \<Rightarrow> gw \<Rightarrow> (goerror + Transaction \<times> bool) \<times> gw"

definition AttachRRN :: "string \<Rightarrow> unit request" where
  "AttachRRN rrn held w =
     (case held of
        None \<Rightarrow> (Inr (), None, w)
      | Some r \<Rightarrow>
          (case call (idem_AttachRRN (rv_key r) (rv_route r) (rv_token r) rrn) w of
             (Inl e, w1) \<Rightarrow> (Inl e, held, w1)
           | (Inr _, w1) \<Rightarrow> (Inr (), Some (r\<lparr>rv_rrn := rrn\<rparr>), w1)))"

definition afterSend :: "goerror + 'a \<Rightarrow> goerror + 'a" where
  "afterSend r = (case r of Inl e \<Rightarrow> Inl (ErrAfterSend # e) | Inr x \<Rightarrow> Inr x)"

section \<open>Running a request once\<close>

definition storeResponse :: "idemKey \<Rightarrow> Transaction \<Rightarrow> gw \<Rightarrow> (goerror + unit) \<times> gw" where
  "storeResponse k response w = call (Store_response (ik_key k) (ik_route k) (ik_requestHash k) (ik_status k) response) w"

definition answerFromLog :: "idemKey \<Rightarrow> string \<Rightarrow> Recover \<Rightarrow> gw \<Rightarrow> (goerror + Transaction) \<times> gw" where
  "answerFromLog k rrn fromLog w =
     (case fromLog rrn w of
        (Inl e, w1) \<Rightarrow> (Inl e, w1)
      | (Inr (txn, final), w1) \<Rightarrow>
          if \<not> final then (Inr txn, w1)
          else (case storeResponse k txn w1 of
                  (Inl e, w2) \<Rightarrow> (Inl e, w2)
                | (Inr _, w2) \<Rightarrow> (Inr txn, w2)))"

text \<open>What \<open>begin\<close> returns without an error: the answer to replay, or the token that holds the key.\<close>

datatype begun = Answer Transaction | Token nat

definition takeOverStale :: "idemKey \<Rightarrow> string \<Rightarrow> Recover option \<Rightarrow> gw \<Rightarrow> (goerror + begun) \<times> gw" where
  "takeOverStale k rrn fromLog w =
     (if rrn \<noteq> '''' then
        (case fromLog of
           None \<Rightarrow> (Inl [ErrIdempotencyInProgress], w)
         | Some recover \<Rightarrow>
             (case answerFromLog k rrn recover w of
                (Inl e, w1) \<Rightarrow> (Inl e, w1)
              | (Inr txn, w1) \<Rightarrow> (Inr (Answer txn), w1)))
      else
        (case call (Reclaim (ik_key k) (ik_route k) (ik_requestHash k) staleAfter) w of
           (Inl e, w1) \<Rightarrow> (Inl e, w1)
         | (Inr None, w1) \<Rightarrow> (Inl [ErrIdempotencyInProgress], w1)
         | (Inr (Some token), w1) \<Rightarrow> (Inr (Token token), w1)))"

text \<open>\<open>errors.As\<close> for \<open>*store.InProgressError\<close>.\<close>

fun as_InProgress :: "goerror \<Rightarrow> (string \<times> time) option" where
  "as_InProgress [] = None"
| "as_InProgress (InProgressError rrn at # _) = Some (rrn, at)"
| "as_InProgress (_ # e) = as_InProgress e"

text \<open>The JSON body \<open>null\<close> decodes to the zero transaction.\<close>

definition begin_idem :: "idemKey \<Rightarrow> Recover option \<Rightarrow> gw \<Rightarrow> (goerror + begun) \<times> gw" where
  "begin_idem k fromLog w =
     (case Reserve (ik_key k) (ik_route k) (ik_requestHash k) w of
        (Inl e, w1) \<Rightarrow>
          (case as_InProgress e of
             None \<Rightarrow> (Inl e, w1)
           | Some (rrn, at) \<Rightarrow>
               if gw_now w1 - at > staleAfter then takeOverStale k rrn fromLog w1 else (Inl e, w1))
      | (Inr (None, None), w1) \<Rightarrow> (Inr (Answer Transaction_zero), w1)
      | (Inr (None, Some token), w1) \<Rightarrow> (Inr (Token token), w1)
      | (Inr (Some stored, _), w1) \<Rightarrow>
          (Inr (Answer (case sr_Body stored of None \<Rightarrow> Transaction_zero | Some t \<Rightarrow> t)), w1))"

definition failed :: "idemKey \<Rightarrow> reservation \<Rightarrow> Recover option \<Rightarrow> goerror \<Rightarrow> gw \<Rightarrow> (goerror + Transaction) \<times> gw" where
  "failed k held fromLog err w =
     (if errors_Is err ErrReservationLost then (Inl err, w)
      else if \<not> errors_Is err ErrAfterSend then
        (case call (Release (ik_key k) (ik_route k) (rv_token held)) w of
           (Inl e, w1) \<Rightarrow> (Inl (err @ e), w1)
         | (Inr _, w1) \<Rightarrow> (Inl err, w1))
      else
        (case fromLog of
           None \<Rightarrow> (Inl err, w)
         | Some recover \<Rightarrow>
             if rv_rrn held = '''' then (Inl err, w)
             else (case answerFromLog k (rv_rrn held) recover w of
                     (Inl e, w1) \<Rightarrow> (Inl (err @ e), w1)
                   | (Inr txn, w1) \<Rightarrow> (Inr txn, w1))))"

definition Idempotent ::
  "string \<Rightarrow> string \<Rightarrow> string \<Rightarrow> int \<Rightarrow> Transaction request \<Rightarrow> Recover option \<Rightarrow> gw \<Rightarrow> (goerror + Transaction) \<times> gw" where
  "Idempotent key route requestHash status create fromLog w =
     (let k = \<lparr>ik_key = key, ik_route = route, ik_requestHash = requestHash, ik_status = status\<rparr> in
      (case begin_idem k fromLog w of
         (Inl e, w1) \<Rightarrow> (Inl e, w1)
       | (Inr (Answer txn), w1) \<Rightarrow> (Inr txn, w1)
       | (Inr (Token token), w1) \<Rightarrow>
           let held = \<lparr>rv_key = key, rv_route = route, rv_token = token, rv_rrn = ''''\<rparr> in
           (case create (Some held) w1 of
              (Inl e, held', w2) \<Rightarrow> failed k (case held' of None \<Rightarrow> held | Some h \<Rightarrow> h) fromLog e w2
            | (Inr txn, _, w2) \<Rightarrow>
                (case storeResponse k txn w2 of
                   (Inl e, w3) \<Rightarrow> (afterSend (Inl e), w3)
                 | (Inr _, w3) \<Rightarrow> (Inr txn, w3)))))"

section \<open>The interface: predicates the idempotency statements keep\<close>

text \<open>What a request relies on around its own work: the reservation, its release, the stored response and the recovery from
  the log keep the predicate. The clients' lemmas follow from these laws once.\<close>

locale idem_client =
  fixes K :: "gw \<Rightarrow> bool" and recover :: "Recover option"
  assumes K_insert: "K w \<Longrightarrow> K (snd (call (reserve_insert key route h) w))"
    and K_select: "K w \<Longrightarrow> K (snd (call (reserve_select key route) w))"
    and K_reclaim: "K w \<Longrightarrow> K (snd (call (Reclaim key route h t) w))"
    and K_store: "K w \<Longrightarrow> K (snd (call (Store_response key route h st body) w))"
    and K_release: "K w \<Longrightarrow> K (snd (call (Release key route token) w))"
    and K_recover: "recover = Some f \<Longrightarrow> K w \<Longrightarrow> K (snd (f rrn w))"
begin

lemma Reserve_keeps: "K w \<Longrightarrow> K (snd (Reserve key route h w))"
proof -
  assume w: "K w"
  have sel: "K (snd (case call (reserve_select key route) w1 of
             (Inl e, w2) \<Rightarrow> (Inl e, w2)
           | (Inr None, w2) \<Rightarrow> (Inl [ErrIdempotencyInProgress], w2)
           | (Inr (Some r), w2) \<Rightarrow>
               if id_RequestHash r \<noteq> h then (Inl [ErrIdempotencyKeyMismatch], w2)
               else if sr_Status (id_Response r) = pendingStatus
               then (Inl [InProgressError (id_RRN r) (id_CreatedAt r)], w2)
               else (Inr (Some (id_Response r), None), w2)))" if "K w1" for w1
    using K_select [OF that, of key route] by (auto split: prod.split sum.split option.split)
  obtain r w1 where c: "call (reserve_insert key route h) w = (r, w1)" by fastforce
  have k1: "K w1" using K_insert [OF w, of key route h] c by simp
  show ?thesis unfolding Reserve_def c using k1 sel [OF k1] by (auto split: sum.split option.split)
qed

lemma storeResponse_keeps: "K w \<Longrightarrow> K (snd (storeResponse k t w))"
  by (simp add: storeResponse_def K_store)

lemma answerFromLog_keeps:
  assumes "recover = Some f" "K w"
  shows "K (snd (answerFromLog k rrn f w))"
proof -
  obtain r w1 where c: "f rrn w = (r, w1)" by fastforce
  then have k1: "K w1" using K_recover [OF assms(1,2), of rrn] by simp
  show ?thesis
    unfolding answerFromLog_def c
    using k1 storeResponse_keeps [OF k1, of k] by (auto split: sum.split prod.split) (metis snd_conv)+
qed

lemma takeOverStale_keeps: "K w \<Longrightarrow> K (snd (takeOverStale k rrn recover w))"
proof (cases recover)
  case None
  moreover assume "K w"
  ultimately show ?thesis
    using K_reclaim [of w "ik_key k" "ik_route k" "ik_requestHash k" staleAfter]
    by (auto simp: takeOverStale_def split: prod.split sum.split option.split)
next
  case (Some f)
  moreover assume w: "K w"
  ultimately show ?thesis
    using K_reclaim [OF w, of "ik_key k" "ik_route k" "ik_requestHash k" staleAfter] answerFromLog_keeps [OF Some w, of k rrn]
    by (auto simp: takeOverStale_def split: prod.split sum.split option.split)
qed

lemma begin_keeps:
  assumes "K w"
  shows "K (snd (begin_idem k recover w))"
proof -
  obtain r w1 where c: "Reserve (ik_key k) (ik_route k) (ik_requestHash k) w = (r, w1)" by fastforce
  then have k1: "K w1" using Reserve_keeps [OF assms, of "ik_key k" "ik_route k" "ik_requestHash k"] by simp
  show ?thesis
    unfolding begin_idem_def c using k1 takeOverStale_keeps [OF k1] by (auto split: sum.split option.split prod.split)
qed

lemma failed_keeps:
  assumes "K w"
  shows "K (snd (failed k held recover e w))"
proof -
  have "K (snd (call (Release (ik_key k) (ik_route k) (rv_token held)) w))" by (rule K_release [OF assms])
  moreover have "K (snd (answerFromLog k (rv_rrn held) f w))" if "recover = Some f" for f by (rule answerFromLog_keeps [OF that assms])
  ultimately show ?thesis
    using assms by (auto simp: failed_def split: prod.split sum.split option.split)
qed

end

text \<open>Around the request itself one predicate may give way to a weaker one: \<open>K\<close> holds until the request runs, \<open>L\<close> from then on.\<close>

locale idem_phases = pre: idem_client K recover + post: idem_client L recover for K L recover +
  assumes weaken: "K w \<Longrightarrow> L w"
begin

lemma Idempotent_phases:
  assumes "K w" "\<And>held w1. K w1 \<Longrightarrow> L (snd (snd (create (Some held) w1)))"
  shows "L (snd (Idempotent key route h status create recover w))"
proof -
  define k where "k = \<lparr>ik_key = key, ik_route = route, ik_requestHash = h, ik_status = status\<rparr>"
  obtain r w1 where b: "begin_idem k recover w = (r, w1)" by fastforce
  have k1: "K w1" using pre.begin_keeps [OF assms(1), of k] b by simp
  show ?thesis
  proof (cases "\<exists>token. r = Inr (Token token)")
    case False
    with b weaken [OF k1] show ?thesis
      by (cases r rule: sum.exhaust) (auto simp: Idempotent_def k_def [symmetric] split: begun.split)
  next
    case True
    then obtain token where r: "r = Inr (Token token)" by blast
    define held where "held = \<lparr>rv_key = key, rv_route = route, rv_token = token, rv_rrn = ''''\<rparr>"
    obtain q h1 w2 where c: "create (Some held) w1 = (q, h1, w2)" by (metis prod.exhaust)
    have k2: "L w2" using assms(2) [OF k1, of held] c by simp
    show ?thesis
      using b r c post.failed_keeps [OF k2] post.storeResponse_keeps [OF k2]
      by (cases q) (auto simp: Idempotent_def k_def [symmetric] held_def [symmetric] split: prod.split sum.split, (metis snd_conv)+)
  qed
qed

end

end
