(* ===== verification/Purchase.thy ===== *)
theory Purchase
  imports Idempotency
begin

text \<open>
  Purchases, \<open>src/gateway-go/internal/purchase/service.go\<close>: building and sending the 0200, mapping its outcome, recording it and queueing the
  reversal an unknown outcome owes; cancellations; late responses. With the labels of \<open>journey/easytext.go\<close> and the latency of
  \<open>journey/builder.go\<close> that a \<open>Transaction\<close> reports.
\<close>

section \<open>Response codes and stored transactions\<close>

definition rcEasyText :: "(string \<times> string) list" where
  "rcEasyText =
     [(''00'', ''Approved''), (''05'', ''Do not honor''), (''06'', ''Reversal error''), (''10'', ''Partially approved''),
      (''12'', ''Invalid transaction''), (''13'', ''Invalid amount''), (''14'', ''Unknown card''), (''17'', ''Cancelled by customer''),
      (''30'', ''Message format error''), (''51'', ''Insufficient funds''), (''54'', ''Card is expired''), (''55'', ''Incorrect PIN''),
      (''57'', ''Not allowed for this card''), (''61'', ''Limit exceeded''), (''62'', ''Card is blocked''),
      (''65'', ''Too many transactions''), (''68'', ''Response arrived too late''), (''75'', ''Too many PIN attempts''),
      (''91'', ''Link is down''), (''94'', ''Duplicate transaction''), (''95'', ''Reconciliation error''), (''96'', ''System error'')]"

definition EasyTextForRC :: "string \<Rightarrow> string" where
  "EasyTextForRC rc = (case map_of rcEasyText rc of Some text \<Rightarrow> text | None \<Rightarrow> ''Declined'')"

definition msBetween :: "time \<Rightarrow> time \<Rightarrow> int" where
  "msBetween from to = max 0 (Milliseconds (to - from))"

definition LatencyMs :: "TranLogRow \<Rightarrow> int option" where
  "LatencyMs txn =
     (case (tl_SentAt txn, tl_RespondedAt txn) of
        (Some sent, Some responded) \<Rightarrow> if tl_ResponseCode txn = '''' then None else Some (msBetween sent responded)
      | _ \<Rightarrow> None)"

definition ResponseLabel :: "string \<Rightarrow> string option" where
  "ResponseLabel rc = (if rc = '''' then None else Some (EasyTextForRC rc))"

definition ResponseCodeOf :: "fields \<Rightarrow> string" where
  "ResponseCodeOf resp = (if fget resp 39 \<noteq> '''' then fget resp 39 else ''30'')"

text \<open>\<open>business_date\<close> is NOT NULL, so a stored row has one; the zero date stands in for a row that was never stored.\<close>

definition Format_date :: "date option \<Rightarrow> string" where
  "Format_date d = Format (case d of Some b \<Rightarrow> b | None \<Rightarrow> 0)"

definition transactionFromRow :: "TranLogRow \<Rightarrow> Transaction" where
  "transactionFromRow row = Transaction_zero\<lparr>tx_RRN := tl_RRN row, tx_STAN := tl_NetworkSTAN row, tx_Type := tl_Type row,
     tx_Status := tl_Status row, tx_ResponseCode := tl_ResponseCode row, tx_ResponseLabel := ResponseLabel (tl_ResponseCode row),
     tx_Amount := \<lparr>mo_Amount = tl_Amount row, mo_Currency = tl_Currency row\<rparr>, tx_MaskedPAN := tl_MaskedPAN row,
     tx_TerminalID := tl_TerminalID row, tx_MerchantName := tl_MerchantName row, tx_LatencyMs := LatencyMs row,
     tx_CreatedAt := tl_CreatedAt row, tx_ReversalReason := ReversalReasonOf (tl_ReversalReasonCode row), tx_AuthCode := tl_AuthCode row,
     tx_BusinessDate := Format_date (tl_BusinessDate row), tx_TraceID := tl_TraceID row\<rparr>"

section \<open>Requests\<close>

record PurchaseRequest =
  pr_TerminalID :: string
  pr_CardToken :: string
  pr_EntryMode :: string
  pr_EncryptedPinBlock :: string
  pr_EMVData :: string
  pr_Amount :: Money

definition entryModeToDE22 :: "(string \<times> string) list" where
  "entryModeToDE22 = [(''CHIP_PIN'', ''051''), (''CHIP_NO_PIN'', ''052''), (''MANUAL_PIN'', ''011''), (''MANUAL_NO_PIN'', ''012'')]"

definition de22_of :: "string \<Rightarrow> string" where
  "de22_of mode = (case map_of entryModeToDE22 mode of Some v \<Rightarrow> v | None \<Rightarrow> '''')"

text \<open>\<open>sha256Hex\<close> is the parameter \<open>ge_hash\<close>; the JSON text of a request is the list of its fields.\<close>

definition hashRequest :: "genv \<Rightarrow> PurchaseRequest \<Rightarrow> string" where
  "hashRequest g req = ge_hash g [pr_TerminalID req, pr_CardToken req, pr_EntryMode req, pr_EncryptedPinBlock req, pr_EMVData req,
     fmt_0d 1 (mo_Amount (pr_Amount req)), mo_Currency (pr_Amount req)]"

definition resolveCardAndMerchant :: "genv \<Rightarrow> PurchaseRequest \<Rightarrow> gw \<Rightarrow> (goerror + CardFixture \<times> Merchant) \<times> gw" where
  "resolveCardAndMerchant g req w =
     (case Resolve (ge_cards g) (pr_CardToken req) of
        None \<Rightarrow> (Inl [ErrUnknownCardToken], w)
      | Some crd \<Rightarrow>
          (case call (Merchant_of (pr_TerminalID req)) w of
             (Inl e, w1) \<Rightarrow> (Inl e, w1)
           | (Inr merchant, w1) \<Rightarrow> (Inr (crd, merchant), w1)))"

definition baseTransaction :: "genv \<Rightarrow> PurchaseRequest \<Rightarrow> Merchant \<Rightarrow> string \<Rightarrow> string \<Rightarrow> string \<Rightarrow> time \<Rightarrow> Transaction" where
  "baseTransaction g req merchant rrn stan maskedPAN now = Transaction_zero\<lparr>tx_RRN := rrn, tx_STAN := stan, tx_Type := ''PURCHASE'',
     tx_Amount := pr_Amount req, tx_MaskedPAN := maskedPAN, tx_TerminalID := pr_TerminalID req, tx_MerchantName := me_Name merchant,
     tx_CreatedAt := now, tx_BusinessDate := Format (Current (ge_calendar g) now), tx_TraceID := ge_traceID g\<rparr>"

section \<open>Sending\<close>

definition purchase_fields :: "genv \<Rightarrow> PurchaseRequest \<Rightarrow> CardFixture \<Rightarrow> Merchant \<Rightarrow> string \<Rightarrow> time \<Rightarrow> fields" where
  "purchase_fields g req crd merchant stan now =
     (let local = in_loc terminalLocation now in
      [(2, cf_PAN crd), (3, ''000000''), (4, fmt_0d 12 (mo_Amount (pr_Amount req))), (7, format_0102150405 now), (11, stan),
       (12, format_150405 local), (13, format_0102 local), (14, cf_ExpiryYYMM crd), (15, MMDD (Current (ge_calendar g) now)),
       (22, de22_of (pr_EntryMode req)), (32, acquirerID), (37, BuildRRN now stan), (41, pr_TerminalID req), (42, me_MID merchant),
       (49, mo_Currency (pr_Amount req))])"

definition purchase_row :: "genv \<Rightarrow> PurchaseRequest \<Rightarrow> Merchant \<Rightarrow> string \<Rightarrow> string \<Rightarrow> time \<Rightarrow> TranLogRow" where
  "purchase_row g req merchant maskedPAN stan now = TranLogRow_zero\<lparr>tl_RRN := BuildRRN now stan, tl_Type := ''PURCHASE'',
     tl_Status := ''CREATED'', tl_Amount := mo_Amount (pr_Amount req), tl_Currency := mo_Currency (pr_Amount req),
     tl_MaskedPAN := maskedPAN, tl_TerminalID := pr_TerminalID req, tl_MerchantID := me_MID merchant, tl_NetworkSTAN := stan,
     tl_MTI := ''0200'', tl_ProcessingCode := ''000000'', tl_POSEntryMode := de22_of (pr_EntryMode req), tl_SentAt := Some now,
     tl_CardToken := pr_CardToken req, tl_TraceID := ge_traceID g, tl_BusinessDate := Some (Current (ge_calendar g) now)\<rparr>"

definition SendFailureStatus :: "goerror \<Rightarrow> string \<times> string" where
  "SendFailureStatus sendErr = (if errors_Is sendErr ErrNotSignedOn then (''DECLINED'', ''91'') else (''TIMED_OUT'', ''''))"

definition mapSendOutcome :: "genv \<Rightarrow> Transaction \<Rightarrow> goerror + fields \<Rightarrow> gw \<Rightarrow> (Transaction \<times> bool) \<times> gw" where
  "mapSendOutcome g txn outcome w =
     (case outcome of
        Inl sendErr \<Rightarrow>
          (case SendFailureStatus sendErr of (status, rc) \<Rightarrow> ((txn\<lparr>tx_Status := status, tx_ResponseCode := rc\<rparr>, False), w))
      | Inr resp \<Rightarrow>
          let rc = ResponseCodeOf resp;
              txn1 = txn\<lparr>tx_ResponseCode := rc, tx_AuthCode := fget resp 38, tx_Status := (if rc = ''00'' then ''APPROVED'' else ''DECLINED'')\<rparr>
          in (case Verify (mac_env.truncate g) (gw_zak w) ''0210'' resp w of
                (True, w1) \<Rightarrow> ((txn1, False), w1)
              | (False, w1) \<Rightarrow> ((txn1\<lparr>tx_Status := ''DECLINED'', tx_ResponseCode := ''96''\<rparr>, True),
                               w1\<lparr>gw_macFailures := gw_macFailures w1 + 1\<rparr>)))"

text \<open>The chaos hook is asked once per send.\<close>

definition duplicateHook :: "gw \<Rightarrow> bool \<times> gw" where
  "duplicateHook w = (case gw_dups w of [] \<Rightarrow> (False, w) | b # rest \<Rightarrow> (b, w\<lparr>gw_dups := rest\<rparr>))"

definition sendDuplicateIfActive :: "fields \<Rightarrow> gw \<Rightarrow> gw" where
  "sendDuplicateIfActive fs w =
     (case duplicateHook w of
        (False, w1) \<Rightarrow> w1
      | (True, w1) \<Rightarrow> snd (mux_Send ''0200'' fs w1))"

definition recordStatus :: "int \<Rightarrow> Transaction \<Rightarrow> gw \<Rightarrow> (string \<times> goerror option) \<times> gw" where
  "recordStatus i txn w =
     (case call (UpdateStatusFrom i ''SENT'' (tx_Status txn) (tx_ResponseCode txn) (tx_AuthCode txn)) w of
        (Inl e, w1) \<Rightarrow> ((''SENT'', Some e), w1)
      | (Inr _, w1) \<Rightarrow>
          (case call (RecordStateTransition i ''SENT'' (tx_Status txn)) w1 of
             (Inl e, w2) \<Rightarrow> ((tx_Status txn, Some e), w2)
           | (Inr _, w2) \<Rightarrow> ((tx_Status txn, None), w2)))"

definition reversalReasonFor :: "string \<Rightarrow> bool \<Rightarrow> string" where
  "reversalReasonFor status macFailed = (if status = ''TIMED_OUT'' then ''68'' else if macFailed then ''06'' else '''')"

definition finalizeSendResult :: "genv \<Rightarrow> TranLogRow \<Rightarrow> Transaction \<Rightarrow> bool \<Rightarrow> gw \<Rightarrow> (goerror + Transaction) \<times> gw" where
  "finalizeSendResult g row txn macFailed w =
     (case recordStatus (tl_ID row) txn w of
        ((current, recordErr), w1) \<Rightarrow>
          let moved = (case recordErr of None \<Rightarrow> False | Some e \<Rightarrow> errors_Is e ErrStateMoved);
              result = (\<lambda>t. case recordErr of None \<Rightarrow> Inr t | Some e \<Rightarrow> Inl e);
              reason = reversalReasonFor (tx_Status txn) macFailed
          in if moved then (result txn, w1)
             else if reason = '''' then (result txn, w1)
             else (case Queue g (row\<lparr>tl_Status := current\<rparr>) reason w1 of
                     (Inl e, w2) \<Rightarrow> (Inl ((case recordErr of None \<Rightarrow> [] | Some r \<Rightarrow> r) @ e), w2)
                   | (Inr _, w2) \<Rightarrow>
                       (result (if tx_Status txn = ''TIMED_OUT'' then txn\<lparr>tx_Status := ''REVERSAL_PENDING''\<rparr> else txn), w2)))"

text \<open>From the send on: the part of \<open>sendPurchase\<close> that runs once the row is SENT.\<close>

definition sendPurchase_sent ::
  "genv \<Rightarrow> PurchaseRequest \<Rightarrow> Merchant \<Rightarrow> string \<Rightarrow> string \<Rightarrow> time \<Rightarrow> int \<Rightarrow> fields \<Rightarrow> gw \<Rightarrow> (goerror + Transaction) \<times> gw" where
  "sendPurchase_sent g req merchant maskedPAN stan now i fs w =
     (let w1 = sendDuplicateIfActive fs w in
      (case mux_Send ''0200'' fs w1 of
         (outcome, w2) \<Rightarrow>
           (case mapSendOutcome g (baseTransaction g req merchant (BuildRRN now stan) stan maskedPAN now) outcome w2 of
              ((txn, macFailed), w3) \<Rightarrow>
                let txn1 = (case outcome of Inl _ \<Rightarrow> txn | Inr _ \<Rightarrow> txn\<lparr>tx_LatencyMs := Some (Milliseconds (gw_now w2 - gw_now w1))\<rparr>);
                    txn2 = txn1\<lparr>tx_ResponseLabel := ResponseLabel (tx_ResponseCode txn1)\<rparr>;
                    row = (purchase_row g req merchant maskedPAN stan now)\<lparr>tl_ID := i, tl_CreatedAt := now\<rparr>
                in (case finalizeSendResult g row txn2 macFailed w3 of (r, w4) \<Rightarrow> (afterSend r, w4)))))"

text \<open>From \<open>AttachRRN\<close> on: the row is logged and the MAC attached.\<close>

definition sendPurchase_logged ::
  "genv \<Rightarrow> PurchaseRequest \<Rightarrow> Merchant \<Rightarrow> string \<Rightarrow> string \<Rightarrow> time \<Rightarrow> int \<Rightarrow> fields \<Rightarrow> Transaction request" where
  "sendPurchase_logged g req merchant maskedPAN stan now i fs held w =
     (case AttachRRN (BuildRRN now stan) held w of
        (Inl e, held1, w1) \<Rightarrow> (Inl e, held1, w1)
      | (Inr _, held1, w1) \<Rightarrow>
          (case call (UpdateStatus i ''SENT'' '''' '''') w1 of
             (Inl e, w2) \<Rightarrow> (Inl e, held1, w2)
           | (Inr _, w2) \<Rightarrow>
               (case call (RecordStateTransition i ''CREATED'' ''SENT'') w2 of
                  (Inl e, w3) \<Rightarrow> (Inl e, held1, w3)
                | (Inr _, w3) \<Rightarrow>
                    (case sendPurchase_sent g req merchant maskedPAN stan now i fs w3 of (r, w4) \<Rightarrow> (r, held1, w4)))))"

definition sendPurchase ::
  "genv \<Rightarrow> PurchaseRequest \<Rightarrow> CardFixture \<Rightarrow> Merchant \<Rightarrow> string \<Rightarrow> string \<Rightarrow> Transaction request" where
  "sendPurchase g req crd merchant maskedPAN stan held w =
     (let now = gw_now w in
      (case call (Insert (purchase_row g req merchant maskedPAN stan now)) w of
         (Inl e, w1) \<Rightarrow> (Inl e, held, w1)
       | (Inr i, w1) \<Rightarrow>
           (case attachMAC (mac_env.truncate g) (gw_zak w1) ''0200'' (purchase_fields g req crd merchant stan now) of
              Inl e \<Rightarrow> (Inl e, held, w1)
            | Inr fs \<Rightarrow> sendPurchase_logged g req merchant maskedPAN stan now i fs held w1)))"

section \<open>The link-down path\<close>

definition declinedTransaction :: "genv \<Rightarrow> PurchaseRequest \<Rightarrow> Merchant \<Rightarrow> string \<Rightarrow> string \<Rightarrow> time \<Rightarrow> Transaction" where
  "declinedTransaction g req merchant maskedPAN responseCode now =
     (baseTransaction g req merchant (BuildRRN now ''000000'') ''000000'' maskedPAN now)
       \<lparr>tx_Status := ''DECLINED'', tx_ResponseCode := responseCode, tx_ResponseLabel := ResponseLabel responseCode\<rparr>"

definition recordLinkDown :: "genv \<Rightarrow> Transaction \<Rightarrow> PurchaseRequest \<Rightarrow> Merchant \<Rightarrow> gw \<Rightarrow> (goerror + unit) \<times> gw" where
  "recordLinkDown g txn req merchant w =
     (case call (Insert (TranLogRow_zero\<lparr>tl_RRN := tx_RRN txn, tl_Type := ''PURCHASE'', tl_Status := ''DECLINED'', tl_MTI := ''0200'',
              tl_Amount := mo_Amount (pr_Amount req), tl_Currency := mo_Currency (pr_Amount req), tl_MaskedPAN := tx_MaskedPAN txn,
              tl_TerminalID := pr_TerminalID req, tl_MerchantID := me_MID merchant, tl_ResponseCode := tx_ResponseCode txn,
              tl_TraceID := tx_TraceID txn, tl_BusinessDate := Some (Current (ge_calendar g) (tx_CreatedAt txn))\<rparr>)) w of
        (Inl e, w1) \<Rightarrow> (Inl e, w1)
      | (Inr _, w1) \<Rightarrow> (Inr (), w1))"

section \<open>The service\<close>

definition createPurchase :: "genv \<Rightarrow> PurchaseRequest \<Rightarrow> Transaction request" where
  "createPurchase g req held w =
     (case resolveCardAndMerchant g req w of
        (Inl e, w1) \<Rightarrow> (Inl e, held, w1)
      | (Inr (crd, merchant), w1) \<Rightarrow>
          let maskedPAN = MaskPAN (cf_PAN crd) in
          (case sup_NextSTAN w1 of
             (stan, w2) \<Rightarrow>
               (case IsSignedOn w2 of
                  (signedOn, w3) \<Rightarrow>
                    (case (if signedOn then stan else None) of
                       None \<Rightarrow>
                         let txn = declinedTransaction g req merchant maskedPAN ''91'' (gw_now w3) in
                         (case recordLinkDown g txn req merchant w3 of
                            (Inl e, w4) \<Rightarrow> (Inl e, held, w4)
                          | (Inr _, w4) \<Rightarrow> (Inr txn, held, Broadcast (HubTransaction ''transaction.created'' txn) w4))
                     | Some s \<Rightarrow>
                         (case sendPurchase g req crd merchant maskedPAN s held w3 of
                            (Inl e, held', w4) \<Rightarrow> (Inl e, held', w4)
                          | (Inr txn, held', w4) \<Rightarrow> (Inr txn, held', Broadcast (HubTransaction ''transaction.created'' txn) w4))))))"

definition fromLog :: Recover where
  "fromLog rrn w =
     (case call (Get rrn) w of
        (Inl e, w1) \<Rightarrow> (Inl e, w1)
      | (Inr row, w1) \<Rightarrow> (Inr (transactionFromRow row, tl_Status row \<noteq> ''CREATED'' \<and> tl_Status row \<noteq> ''SENT''), w1))"

definition CreatePurchase :: "genv \<Rightarrow> PurchaseRequest \<Rightarrow> string \<Rightarrow> gw \<Rightarrow> (goerror + Transaction) \<times> gw" where
  "CreatePurchase g req idempotencyKey w =
     Idempotent idempotencyKey ''purchases'' (hashRequest g req) 201 (createPurchase g req) (Some fromLog) w"

definition cancelPurchase :: "genv \<Rightarrow> string \<Rightarrow> Transaction request" where
  "cancelPurchase g rrn held w =
     (case call (Get rrn) w of
        (Inl e, w1) \<Rightarrow> (Inl e, held, w1)
      | (Inr row, w1) \<Rightarrow>
          if tl_Type row \<noteq> ''PURCHASE'' \<or> tl_Status row \<noteq> ''APPROVED'' then (Inl [ErrNotReversible], held, w1)
          else (case Queue g row ''17'' w1 of
                  (Inl e, w2) \<Rightarrow> (Inl e, held, w2)
                | (Inr _, w2) \<Rightarrow>
                    let txn = transactionFromRow (row\<lparr>tl_Status := ''REVERSAL_PENDING'', tl_ReversalReasonCode := ''17''\<rparr>)
                    in (Inr txn, held, Broadcast (HubTransaction ''transaction.updated'' txn) w2)))"

definition CancelPurchase :: "genv \<Rightarrow> string \<Rightarrow> string \<Rightarrow> gw \<Rightarrow> (goerror + Transaction) \<times> gw" where
  "CancelPurchase g rrn idempotencyKey w =
     Idempotent idempotencyKey ''cancellations'' (ge_hash g [rrn]) 202 (cancelPurchase g rrn) None w"

definition BroadcastUpdate :: "string \<Rightarrow> gw \<Rightarrow> (goerror + unit) \<times> gw" where
  "BroadcastUpdate rrn w =
     (case call (Get rrn) w of
        (Inl e, w1) \<Rightarrow> (Inl e, w1)
      | (Inr row, w1) \<Rightarrow> (Inr (), Broadcast (HubTransaction ''transaction.updated'' (transactionFromRow row)) w1))"

text \<open>\<open>AppendEvent\<close> of \<open>store/links.go\<close>, which \<open>RecordEvent\<close> calls without a code.\<close>

definition AppendEvent :: "NetworkEvent \<Rightarrow> NetworkEvent dbop" where
  "AppendEvent e d =
     (let stored = e\<lparr>ne_ID := db_event_seq d + 1, ne_OccurredAt := db_now d\<rparr>
      in (Inr stored, d\<lparr>db_events := db_events d @ [stored], db_event_seq := db_event_seq d + 1\<rparr>))"

definition RecordEvent :: "string \<Rightarrow> string \<Rightarrow> string \<Rightarrow> NetworkEvent dbop" where
  "RecordEvent severity easyText technicalText =
     AppendEvent \<lparr>ne_ID = 0, ne_OccurredAt = 0, ne_Code = '''', ne_Severity = severity, ne_EasyText = easyText, ne_TechnicalText = technicalText\<rparr>"

definition RecordLateResponse :: "string \<Rightarrow> string \<Rightarrow> gw \<Rightarrow> (goerror + unit) \<times> gw" where
  "RecordLateResponse rrn responseCode w =
     (case call (Get rrn) w of
        (Inl e, w1) \<Rightarrow> (Inl e, w1)
      | (Inr row, w1) \<Rightarrow>
          if tl_Status row = ''SENT'' then (Inr (), w1)
          else (case call (UpdateLateResponse rrn responseCode) w1 of
                  (Inl e, w2) \<Rightarrow> (Inl e, w2)
                | (Inr _, w2) \<Rightarrow>
                    let easy = ''A response arrived too late for a transaction'';
                        technical = ''late 0210 for RRN '' @ rrn @ '', RC '' @ responseCode
                    in (case call (RecordEvent ''WARN'' easy technical) w2 of
                          (Inl e, w3) \<Rightarrow> (Inl e, w3)
                        | (Inr _, w3) \<Rightarrow> BroadcastUpdate rrn (Broadcast (HubNetworkEvent ''WARN'' easy technical) w3))))"

end
