(* ===== verification/Advtxn.thy ===== *)
theory Advtxn
  imports Purchase
begin

text \<open>
  Pre-authorizations, completions, refunds and balance inquiries, \<open>src/gateway-go/internal/advtxn\<close>: the shared send path of
  \<open>service.go\<close> and the four flows of \<open>preauth.go\<close>, \<open>completion.go\<close>, \<open>refund.go\<close> and \<open>balance.go\<close>. A completion claims its
  pre-authorization in the transaction that logs it; an unknown completion is repeated, every other unknown outcome reversed.
\<close>

section \<open>Requests\<close>

record CardPresentData =
  cp_TerminalID :: string
  cp_CardToken :: string
  cp_EntryMode :: string
  cp_EncryptedPinBlock :: string
  cp_EMVData :: string

record PreAuthRequest = CardPresentData +
  pa_Amount :: Money

text \<open>What each flow fills in before \<open>send\<close>.\<close>

record sendParams =
  sp_mti :: string
  sp_txnType :: string
  sp_route :: string
  sp_fields :: fields
  sp_rrn :: string
  sp_stan :: string
  sp_linkUp :: bool
  sp_sentAt :: time
  sp_maskedPAN :: string
  sp_cardToken :: string
  sp_posEntryMode :: string
  sp_terminalID :: string
  sp_requestedAmt :: Money
  sp_originalRRN :: string
  sp_businessDate :: date

text \<open>The package has its own copies of four helpers of \<open>purchase\<close>; the lemmas say that they agree.\<close>

definition adv_entryModeToDE22 :: "(string \<times> string) list" where
  "adv_entryModeToDE22 = [(''CHIP_PIN'', ''051''), (''CHIP_NO_PIN'', ''052''), (''MANUAL_PIN'', ''011''), (''MANUAL_NO_PIN'', ''012'')]"

definition adv_de22_of :: "string \<Rightarrow> string" where
  "adv_de22_of mode = (case map_of adv_entryModeToDE22 mode of Some v \<Rightarrow> v | None \<Rightarrow> '''')"

definition adv_afterSend :: "goerror + 'a \<Rightarrow> goerror + 'a" where
  "adv_afterSend r = (case r of Inl e \<Rightarrow> Inl (ErrAfterSend # e) | Inr x \<Rightarrow> Inr x)"

definition adv_recordStatus :: "int \<Rightarrow> Transaction \<Rightarrow> gw \<Rightarrow> (string \<times> goerror option) \<times> gw" where
  "adv_recordStatus i txn w =
     (case call (UpdateStatusFrom i ''SENT'' (tx_Status txn) (tx_ResponseCode txn) (tx_AuthCode txn)) w of
        (Inl e, w1) \<Rightarrow> ((''SENT'', Some e), w1)
      | (Inr _, w1) \<Rightarrow>
          (case call (RecordStateTransition i ''SENT'' (tx_Status txn)) w1 of
             (Inl e, w2) \<Rightarrow> ((tx_Status txn, Some e), w2)
           | (Inr _, w2) \<Rightarrow> ((tx_Status txn, None), w2)))"

definition reversalReason :: "string \<Rightarrow> bool \<Rightarrow> string" where
  "reversalReason status macFailed = (if status = ''TIMED_OUT'' then ''68'' else if macFailed then ''06'' else '''')"

lemma advtxn_copies [simp]:
  "adv_de22_of = de22_of" "adv_afterSend r = afterSend r" "adv_recordStatus = recordStatus" "reversalReason = reversalReasonFor"
  by (auto simp: fun_eq_iff adv_de22_of_def de22_of_def adv_entryModeToDE22_def entryModeToDE22_def adv_afterSend_def afterSend_def
      adv_recordStatus_def recordStatus_def reversalReason_def reversalReasonFor_def)

definition nextSTAN :: "gw \<Rightarrow> (string \<times> bool) \<times> gw" where
  "nextSTAN w =
     (case sup_NextSTAN w of
        (None, w1) \<Rightarrow> ((''000000'', False), w1)
      | (Some stan, w1) \<Rightarrow>
          (case IsSignedOn w1 of
             (True, w2) \<Rightarrow> ((stan, True), w2)
           | (False, w2) \<Rightarrow> ((''000000'', False), w2)))"

text \<open>\<open>p.fields\<close> is a map the flows share with \<open>send\<close>: what \<open>finalizeFields\<close> writes into it is returned.\<close>

definition finalizeFields :: "genv \<Rightarrow> sendParams \<Rightarrow> gw \<Rightarrow> (goerror + Merchant \<times> sendParams) \<times> gw" where
  "finalizeFields g p w =
     (let fs1 = fput 15 (MMDD (sp_businessDate p)) (sp_fields p) in
      (case call (Merchant_of (sp_terminalID p)) w of
         (Inl e, w1) \<Rightarrow> (Inl e, w1)
       | (Inr merchant, w1) \<Rightarrow>
           let fs2 = (if 42 \<in> fst ` set fs1 then fput 42 (me_MID merchant) fs1 else fs1) in
           (case attachMAC (mac_env.truncate g) (gw_zak w1) (sp_mti p) fs2 of
              Inl e \<Rightarrow> (Inl e, w1)
            | Inr fs3 \<Rightarrow> (Inr (merchant, p\<lparr>sp_fields := fs3\<rparr>), w1))))"

section \<open>Responses\<close>

definition responseMTI :: "string \<Rightarrow> string" where
  "responseMTI mti = take 2 mti @ [char_of (of_char (mti ! 2) + 1 :: int)] @ drop 3 mti"

definition parseDE4 :: "string \<Rightarrow> int option" where
  "parseDE4 de4 = (if de4 = '''' then None else ParseInt de4)"

definition parseDE54 :: "string \<Rightarrow> Money option" where
  "parseDE54 de54 =
     (if length de54 \<noteq> 16 then None
      else map_option (\<lambda>amt. \<lparr>mo_Amount = amt, mo_Currency = take 3 de54\<rparr>) (ParseInt (take 12 (drop 4 de54))))"

definition mapResponseToTransaction :: "string \<Rightarrow> Money \<Rightarrow> fields \<Rightarrow> Transaction" where
  "mapResponseToTransaction txnType requestedAmount resp =
     (let rc = ResponseCodeOf resp in
      Transaction_zero\<lparr>tx_Type := txnType, tx_Amount := requestedAmount, tx_ResponseCode := rc, tx_AuthCode := fget resp 38,
        tx_Status := (if rc = ''00'' \<or> rc = ''10'' then ''APPROVED'' else ''DECLINED''),
        tx_ApprovedAmount := (if rc = ''10''
          then map_option (\<lambda>amt. \<lparr>mo_Amount = amt, mo_Currency = mo_Currency requestedAmount\<rparr>) (parseDE4 (fget resp 4)) else None),
        tx_Balance := (if fget resp 54 \<noteq> '''' then parseDE54 (fget resp 54) else None)\<rparr>)"

definition outcome :: "genv \<Rightarrow> sendParams \<Rightarrow> goerror + fields \<Rightarrow> gw \<Rightarrow> (Transaction \<times> bool) \<times> gw" where
  "outcome g p result w =
     (let base = Transaction_zero\<lparr>tx_Type := sp_txnType p, tx_Amount := sp_requestedAmt p\<rparr> in
      (case result of
         Inl sendErr \<Rightarrow>
           (case SendFailureStatus sendErr of (status, rc) \<Rightarrow> ((base\<lparr>tx_Status := status, tx_ResponseCode := rc\<rparr>, False), w))
       | Inr resp \<Rightarrow>
           (case Verify (mac_env.truncate g) (gw_zak w) (responseMTI (sp_mti p)) resp w of
              (True, w1) \<Rightarrow> ((mapResponseToTransaction (sp_txnType p) (sp_requestedAmt p) resp, False), w1)
            | (False, w1) \<Rightarrow>
                let w2 = w1\<lparr>gw_macFailures := gw_macFailures w1 + 1\<rparr> in
                if sp_txnType p = ''COMPLETION'' then ((base\<lparr>tx_Status := ''TIMED_OUT''\<rparr>, True), w2)
                else ((base\<lparr>tx_Status := ''DECLINED'', tx_ResponseCode := ''96''\<rparr>, True), w2))))"

definition describe :: "genv \<Rightarrow> Transaction \<Rightarrow> sendParams \<Rightarrow> Merchant \<Rightarrow> gw \<Rightarrow> Transaction" where
  "describe g txn p merchant w = txn\<lparr>tx_RRN := sp_rrn p, tx_STAN := sp_stan p, tx_MaskedPAN := sp_maskedPAN p,
     tx_TerminalID := sp_terminalID p, tx_OriginalRRN := sp_originalRRN p, tx_MerchantName := me_Name merchant,
     tx_ResponseLabel := ResponseLabel (tx_ResponseCode txn), tx_TraceID := ge_traceID g, tx_CreatedAt := gw_now w,
     tx_BusinessDate := Format (sp_businessDate p)\<rparr>"

section \<open>Recording\<close>

definition joined :: "goerror option \<Rightarrow> goerror option \<Rightarrow> goerror option" where
  "joined a b = (case (a, b) of (None, None) \<Rightarrow> None | (Some e, None) \<Rightarrow> Some e | (None, Some f) \<Rightarrow> Some f | (Some e, Some f) \<Rightarrow> Some (e @ f))"

definition result_of :: "Transaction \<Rightarrow> goerror option \<Rightarrow> goerror + Transaction" where
  "result_of txn err = (case err of None \<Rightarrow> Inr txn | Some e \<Rightarrow> Inl e)"

definition err_of :: "goerror + 'a \<Rightarrow> goerror option" where
  "err_of r = (case r of Inl e \<Rightarrow> Some e | Inr _ \<Rightarrow> None)"

definition recordAmounts :: "int \<Rightarrow> Transaction \<Rightarrow> gw \<Rightarrow> goerror option \<times> gw" where
  "recordAmounts i txn w =
     (if tx_ApprovedAmount txn = None \<and> tx_Balance txn = None then (None, w)
      else case call (UpdateAmounts i (map_option mo_Amount (tx_ApprovedAmount txn)) (tx_Balance txn)) w of (r, w1) \<Rightarrow> (err_of r, w1))"

definition transition :: "int \<Rightarrow> string \<Rightarrow> string \<Rightarrow> string \<Rightarrow> string \<Rightarrow> gw \<Rightarrow> (goerror + unit) \<times> gw" where
  "transition i from to responseCode authCode w =
     (case call (UpdateStatus i to responseCode authCode) w of
        (Inl e, w1) \<Rightarrow> (Inl e, w1)
      | (Inr _, w1) \<Rightarrow> call (RecordStateTransition i from to) w1)"

definition markSending :: "int \<Rightarrow> sendParams \<Rightarrow> unit request" where
  "markSending i p held w =
     (case AttachRRN (sp_rrn p) held w of
        (Inl e, held1, w1) \<Rightarrow> (Inl e, held1, w1)
      | (Inr _, held1, w1) \<Rightarrow> (case transition i ''CREATED'' ''SENT'' '''' '''' w1 of (r, w2) \<Rightarrow> (r, held1, w2)))"

definition releaseClaim :: "sendParams \<Rightarrow> gw \<Rightarrow> goerror option \<times> gw" where
  "releaseClaim p w =
     (if sp_txnType p \<noteq> ''COMPLETION'' then (None, w)
      else case call (ReleaseCompletion (sp_originalRRN p) (sp_rrn p)) w of (r, w1) \<Rightarrow> (err_of r, w1))"

definition insert_request :: "sendParams \<Rightarrow> TranLogRow \<Rightarrow> gw \<Rightarrow> (goerror + int) \<times> gw" where
  "insert_request p row w =
     (if sp_txnType p \<noteq> ''COMPLETION'' then call (Insert row) w else call (InsertCompletion row (sp_originalRRN p)) w)"

definition reverseIfOwed :: "genv \<Rightarrow> TranLogRow \<Rightarrow> Transaction \<Rightarrow> bool \<Rightarrow> goerror option \<Rightarrow> gw \<Rightarrow> (goerror + Transaction) \<times> gw" where
  "reverseIfOwed g row txn macFailed recordErr w =
     (let reason = reversalReason (tx_Status txn) macFailed in
      if reason = '''' then (result_of txn recordErr, w)
      else (case Queue g row reason w of
              (Inl e, w1) \<Rightarrow> (Inl ((case recordErr of None \<Rightarrow> [] | Some r \<Rightarrow> r) @ e), w1)
            | (Inr _, w1) \<Rightarrow>
                (result_of (if tx_Status txn = ''TIMED_OUT'' then txn\<lparr>tx_Status := ''REVERSAL_PENDING''\<rparr> else txn) recordErr, w1)))"

definition finalize :: "genv \<Rightarrow> sendParams \<Rightarrow> TranLogRow \<Rightarrow> Transaction \<Rightarrow> bool \<Rightarrow> gw \<Rightarrow> (goerror + Transaction) \<times> gw" where
  "finalize g p row txn macFailed w =
     (case adv_recordStatus (tl_ID row) txn w of
        ((current, statusErr), w1) \<Rightarrow>
          if (case statusErr of None \<Rightarrow> False | Some e \<Rightarrow> errors_Is e ErrStateMoved) then (result_of txn statusErr, w1)
          else (case recordAmounts (tl_ID row) txn w1 of
                  (amountErr, w2) \<Rightarrow>
                    let recordErr = joined statusErr amountErr in
                    if sp_txnType p = ''BALANCE'' then (result_of txn recordErr, w2)
                    else if tx_Status txn = ''DECLINED'' \<and> \<not> macFailed
                    then (case releaseClaim p w2 of (e, w3) \<Rightarrow> (result_of txn (joined recordErr e), w3))
                    else if sp_txnType p = ''COMPLETION'' \<and> tx_Status txn = ''TIMED_OUT''
                    then (case QueueAdvice g (tl_ID row) (sp_mti p) (sp_fields p) w2 of
                            (Inl e, w3) \<Rightarrow> (Inl ((case recordErr of None \<Rightarrow> [] | Some r \<Rightarrow> r) @ e), w3)
                          | (Inr _, w3) \<Rightarrow> (result_of txn recordErr, w3))
                    else reverseIfOwed g (row\<lparr>tl_Status := current\<rparr>) txn macFailed recordErr w2))"

section \<open>Sending\<close>

definition request_row_of :: "genv \<Rightarrow> sendParams \<Rightarrow> Merchant \<Rightarrow> TranLogRow" where
  "request_row_of g p merchant = TranLogRow_zero\<lparr>tl_RRN := sp_rrn p, tl_Type := sp_txnType p, tl_Status := ''CREATED'',
     tl_Amount := mo_Amount (sp_requestedAmt p), tl_Currency := mo_Currency (sp_requestedAmt p), tl_MaskedPAN := sp_maskedPAN p,
     tl_TerminalID := sp_terminalID p, tl_MerchantID := me_MID merchant, tl_NetworkSTAN := sp_stan p, tl_MTI := sp_mti p,
     tl_ProcessingCode := fget (sp_fields p) 3, tl_POSEntryMode := sp_posEntryMode p, tl_SentAt := Some (sp_sentAt p),
     tl_CardToken := sp_cardToken p, tl_BusinessDate := Some (sp_businessDate p), tl_OriginalRRN := sp_originalRRN p,
     tl_TraceID := ge_traceID g\<rparr>"

text \<open>From the send on.\<close>

definition send_sent :: "genv \<Rightarrow> sendParams \<Rightarrow> Merchant \<Rightarrow> int \<Rightarrow> gw \<Rightarrow> (goerror + Transaction) \<times> gw" where
  "send_sent g p merchant i w =
     (case mux_Send (sp_mti p) (sp_fields p) w of
        (result, w1) \<Rightarrow>
          (case outcome g p result w1 of
             ((txn0, macFailed), w2) \<Rightarrow>
               let txn1 = describe g txn0 p merchant w2;
                   txn2 = (case result of Inl _ \<Rightarrow> txn1 | Inr _ \<Rightarrow> txn1\<lparr>tx_LatencyMs := Some (Milliseconds (gw_now w1 - gw_now w))\<rparr>)
               in (case finalize g p ((request_row_of g p merchant)\<lparr>tl_ID := i\<rparr>) txn2 macFailed w2 of (r, w3) \<Rightarrow> (adv_afterSend r, w3))))"

definition sendAndRecord :: "genv \<Rightarrow> sendParams \<Rightarrow> Merchant \<Rightarrow> Transaction request" where
  "sendAndRecord g p merchant held w =
     (case insert_request p (request_row_of g p merchant) w of
        (Inl e, w1) \<Rightarrow> (Inl e, held, w1)
      | (Inr i, w1) \<Rightarrow>
          (case markSending i p held w1 of
             (Inl e, held1, w2) \<Rightarrow>
               (case releaseClaim p w2 of (f, w3) \<Rightarrow> (Inl (e @ (case f of None \<Rightarrow> [] | Some x \<Rightarrow> x)), held1, w3))
           | (Inr _, held1, w2) \<Rightarrow> (case send_sent g p merchant i w2 of (r, w3) \<Rightarrow> (r, held1, w3))))"

definition adv_recordLinkDown :: "genv \<Rightarrow> sendParams \<Rightarrow> Merchant \<Rightarrow> gw \<Rightarrow> (goerror + Transaction) \<times> gw" where
  "adv_recordLinkDown g p merchant w =
     (let txn = describe g (Transaction_zero\<lparr>tx_Type := sp_txnType p, tx_Amount := sp_requestedAmt p, tx_Status := ''DECLINED'',
                  tx_ResponseCode := ''91''\<rparr>) p merchant w in
      (case call (Insert (TranLogRow_zero\<lparr>tl_RRN := sp_rrn p, tl_Type := sp_txnType p, tl_Status := ''DECLINED'',
              tl_Amount := mo_Amount (sp_requestedAmt p), tl_Currency := mo_Currency (sp_requestedAmt p), tl_MaskedPAN := sp_maskedPAN p,
              tl_TerminalID := sp_terminalID p, tl_MerchantID := me_MID merchant, tl_ResponseCode := ''91'', tl_MTI := sp_mti p,
              tl_OriginalRRN := sp_originalRRN p, tl_TraceID := tx_TraceID txn, tl_BusinessDate := Some (sp_businessDate p)\<rparr>)) w of
         (Inl e, w1) \<Rightarrow> (Inl e, w1)
       | (Inr _, w1) \<Rightarrow> (Inr txn, w1)))"

definition send :: "genv \<Rightarrow> sendParams \<Rightarrow> Transaction request" where
  "send g p held w =
     (case finalizeFields g (p\<lparr>sp_businessDate := Current (ge_calendar g) (sp_sentAt p)\<rparr>) w of
        (Inl e, w1) \<Rightarrow> (Inl e, held, w1)
      | (Inr (merchant, p1), w1) \<Rightarrow>
          if \<not> sp_linkUp p1 then
            (case adv_recordLinkDown g p1 merchant w1 of
               (Inl e, w2) \<Rightarrow> (Inl e, held, w2)
             | (Inr txn, w2) \<Rightarrow> (Inr txn, held, Broadcast (HubTransaction ''transaction.created'' txn) w2))
          else
            (case sendAndRecord g p1 merchant held w1 of
               (Inl e, held1, w2) \<Rightarrow> (Inl e, held1, w2)
             | (Inr txn, held1, w2) \<Rightarrow> (Inr txn, held1, Broadcast (HubTransaction ''transaction.created'' txn) w2)))"

section \<open>The flows\<close>

definition adv_fromLog :: Recover where
  "adv_fromLog rrn w =
     (case call (Get rrn) w of
        (Inl e, w1) \<Rightarrow> (Inl e, w1)
      | (Inr row, w1) \<Rightarrow>
          (Inr (Transaction_zero\<lparr>tx_RRN := tl_RRN row, tx_STAN := tl_NetworkSTAN row, tx_Type := tl_Type row, tx_Status := tl_Status row,
             tx_ResponseCode := tl_ResponseCode row, tx_Amount := \<lparr>mo_Amount = tl_Amount row, mo_Currency = tl_Currency row\<rparr>,
             tx_MaskedPAN := tl_MaskedPAN row, tx_TerminalID := tl_TerminalID row, tx_MerchantName := tl_MerchantName row,
             tx_AuthCode := tl_AuthCode row, tx_OriginalRRN := tl_OriginalRRN row, tx_BusinessDate := Format_date (tl_BusinessDate row),
             tx_CreatedAt := tl_CreatedAt row, tx_ResponseLabel := ResponseLabel (tl_ResponseCode row), tx_LatencyMs := LatencyMs row,
             tx_TraceID := tl_TraceID row,
             tx_ApprovedAmount := map_option (\<lambda>a. \<lparr>mo_Amount = a, mo_Currency = tl_Currency row\<rparr>) (tl_ApprovedAmount row),
             tx_Balance := tl_Balance row\<rparr>, tl_Status row \<noteq> ''CREATED'' \<and> tl_Status row \<noteq> ''SENT''), w1))"

definition preauth_params :: "PreAuthRequest \<Rightarrow> CardFixture \<Rightarrow> string \<Rightarrow> bool \<Rightarrow> time \<Rightarrow> sendParams" where
  "preauth_params req crd stan linkUp now =
     \<lparr>sp_mti = ''0100'', sp_txnType = ''PREAUTH'', sp_route = ''pre-authorizations'',
      sp_fields = [(2, cf_PAN crd), (3, ''000000''), (4, fmt_0d 12 (mo_Amount (pa_Amount req))), (7, format_0102150405 now), (11, stan),
        (14, cf_ExpiryYYMM crd), (22, adv_de22_of (cp_EntryMode req)), (25, ''06''), (32, acquirerID), (37, BuildRRN now stan),
        (41, cp_TerminalID req), (42, ''''), (49, mo_Currency (pa_Amount req))],
      sp_rrn = BuildRRN now stan, sp_stan = stan, sp_linkUp = linkUp, sp_sentAt = now, sp_maskedPAN = MaskPAN (cf_PAN crd),
      sp_cardToken = cp_CardToken req, sp_posEntryMode = adv_de22_of (cp_EntryMode req), sp_terminalID = cp_TerminalID req,
      sp_requestedAmt = pa_Amount req, sp_originalRRN = '''', sp_businessDate = 0\<rparr>"

definition createPreAuth :: "genv \<Rightarrow> PreAuthRequest \<Rightarrow> Transaction request" where
  "createPreAuth g req held w =
     (case Resolve (ge_cards g) (cp_CardToken req) of
        None \<Rightarrow> (Inl [ErrUnknownCardToken], held, w)
      | Some crd \<Rightarrow> (case nextSTAN w of ((stan, linkUp), w1) \<Rightarrow> send g (preauth_params req crd stan linkUp (gw_now w1)) held w1))"

definition completion_params :: "string \<Rightarrow> Money \<Rightarrow> TranLogRow \<Rightarrow> string \<Rightarrow> bool \<Rightarrow> time \<Rightarrow> sendParams" where
  "completion_params rrn amount preAuth stan linkUp now =
     \<lparr>sp_mti = ''0220'', sp_txnType = ''COMPLETION'', sp_route = ''completions'',
      sp_fields = [(3, ''000000''), (4, fmt_0d 12 (mo_Amount amount)), (7, format_0102150405 now), (11, stan), (32, acquirerID),
        (37, rrn), (41, tl_TerminalID preAuth), (42, ''''), (49, mo_Currency amount)],
      sp_rrn = BuildRRN now stan, sp_stan = stan, sp_linkUp = linkUp, sp_sentAt = now, sp_maskedPAN = tl_MaskedPAN preAuth,
      sp_cardToken = tl_CardToken preAuth, sp_posEntryMode = tl_POSEntryMode preAuth, sp_terminalID = tl_TerminalID preAuth,
      sp_requestedAmt = amount, sp_originalRRN = rrn, sp_businessDate = 0\<rparr>"

definition createCompletion :: "genv \<Rightarrow> string \<Rightarrow> Money \<Rightarrow> Transaction request" where
  "createCompletion g rrn amount held w =
     (case call (Get rrn) w of
        (Inl e, w1) \<Rightarrow> (Inl e, held, w1)
      | (Inr preAuth, w1) \<Rightarrow>
          if tl_Type preAuth \<noteq> ''PREAUTH'' \<or> tl_Status preAuth \<noteq> ''APPROVED'' \<or> tl_CompletedBy preAuth \<noteq> ''''
          then (Inl [ErrNotCompletable], held, w1)
          else if mo_Amount amount > tl_Amount preAuth then (Inl [ErrExceedsHold], held, w1)
          else (case nextSTAN w1 of
                  ((stan, linkUp), w2) \<Rightarrow> send g (completion_params rrn amount preAuth stan linkUp (gw_now w2)) held w2))"

definition refund_params :: "PreAuthRequest \<Rightarrow> CardFixture \<Rightarrow> string \<Rightarrow> bool \<Rightarrow> time \<Rightarrow> sendParams" where
  "refund_params req crd stan linkUp now =
     \<lparr>sp_mti = ''0200'', sp_txnType = ''REFUND'', sp_route = ''refunds'',
      sp_fields = [(2, cf_PAN crd), (3, ''200000''), (4, fmt_0d 12 (mo_Amount (pa_Amount req))), (7, format_0102150405 now), (11, stan),
        (14, cf_ExpiryYYMM crd), (22, adv_de22_of (cp_EntryMode req)), (32, acquirerID), (37, BuildRRN now stan),
        (41, cp_TerminalID req), (42, ''''), (49, mo_Currency (pa_Amount req))],
      sp_rrn = BuildRRN now stan, sp_stan = stan, sp_linkUp = linkUp, sp_sentAt = now, sp_maskedPAN = MaskPAN (cf_PAN crd),
      sp_cardToken = cp_CardToken req, sp_posEntryMode = adv_de22_of (cp_EntryMode req), sp_terminalID = cp_TerminalID req,
      sp_requestedAmt = pa_Amount req, sp_originalRRN = '''', sp_businessDate = 0\<rparr>"

definition createRefund :: "genv \<Rightarrow> PreAuthRequest \<Rightarrow> Transaction request" where
  "createRefund g req held w =
     (case Resolve (ge_cards g) (cp_CardToken req) of
        None \<Rightarrow> (Inl [ErrUnknownCardToken], held, w)
      | Some crd \<Rightarrow> (case nextSTAN w of ((stan, linkUp), w1) \<Rightarrow> send g (refund_params req crd stan linkUp (gw_now w1)) held w1))"

definition balance_params :: "'z CardPresentData_scheme \<Rightarrow> CardFixture \<Rightarrow> string \<Rightarrow> bool \<Rightarrow> time \<Rightarrow> sendParams" where
  "balance_params req crd stan linkUp now =
     \<lparr>sp_mti = ''0200'', sp_txnType = ''BALANCE'', sp_route = ''balance-inquiries'',
      sp_fields = [(2, cf_PAN crd), (3, ''310000''), (7, format_0102150405 now), (11, stan), (14, cf_ExpiryYYMM crd),
        (22, adv_de22_of (cp_EntryMode req)), (32, acquirerID), (37, BuildRRN now stan), (41, cp_TerminalID req), (42, '''')],
      sp_rrn = BuildRRN now stan, sp_stan = stan, sp_linkUp = linkUp, sp_sentAt = now, sp_maskedPAN = MaskPAN (cf_PAN crd),
      sp_cardToken = cp_CardToken req, sp_posEntryMode = adv_de22_of (cp_EntryMode req), sp_terminalID = cp_TerminalID req,
      sp_requestedAmt = \<lparr>mo_Amount = 0, mo_Currency = cf_Currency crd\<rparr>, sp_originalRRN = '''', sp_businessDate = 0\<rparr>"

definition createBalanceInquiry :: "genv \<Rightarrow> CardPresentData \<Rightarrow> Transaction request" where
  "createBalanceInquiry g req held w =
     (case Resolve (ge_cards g) (cp_CardToken req) of
        None \<Rightarrow> (Inl [ErrUnknownCardToken], held, w)
      | Some crd \<Rightarrow> (case nextSTAN w of ((stan, linkUp), w1) \<Rightarrow> send g (balance_params req crd stan linkUp (gw_now w1)) held w1))"

definition adv_hashRequest :: "genv \<Rightarrow> 'z CardPresentData_scheme \<Rightarrow> string list \<Rightarrow> string" where
  "adv_hashRequest g req rest =
     ge_hash g ([cp_TerminalID req, cp_CardToken req, cp_EntryMode req, cp_EncryptedPinBlock req, cp_EMVData req] @ rest)"

definition idempotent :: "string \<Rightarrow> string \<Rightarrow> string \<Rightarrow> Transaction request \<Rightarrow> gw \<Rightarrow> (goerror + Transaction) \<times> gw" where
  "idempotent route key hash create w = Idempotent key route hash 201 create (Some adv_fromLog) w"

definition CreatePreAuth :: "genv \<Rightarrow> PreAuthRequest \<Rightarrow> string \<Rightarrow> gw \<Rightarrow> (goerror + Transaction) \<times> gw" where
  "CreatePreAuth g req key w =
     idempotent ''pre-authorizations'' key
       (adv_hashRequest g req [FormatInt (mo_Amount (pa_Amount req)), mo_Currency (pa_Amount req)]) (createPreAuth g req) w"

definition CreateCompletion :: "genv \<Rightarrow> string \<Rightarrow> Money \<Rightarrow> string \<Rightarrow> gw \<Rightarrow> (goerror + Transaction) \<times> gw" where
  "CreateCompletion g rrn amount key w =
     idempotent ''completions'' key (ge_hash g [rrn, FormatInt (mo_Amount amount), mo_Currency amount]) (createCompletion g rrn amount) w"

definition CreateRefund :: "genv \<Rightarrow> PreAuthRequest \<Rightarrow> string \<Rightarrow> gw \<Rightarrow> (goerror + Transaction) \<times> gw" where
  "CreateRefund g req key w =
     idempotent ''refunds'' key
       (adv_hashRequest g req [FormatInt (mo_Amount (pa_Amount req)), mo_Currency (pa_Amount req)]) (createRefund g req) w"

definition CreateBalanceInquiry :: "genv \<Rightarrow> CardPresentData \<Rightarrow> string \<Rightarrow> gw \<Rightarrow> (goerror + Transaction) \<times> gw" where
  "CreateBalanceInquiry g req key w =
     idempotent ''balance-inquiries'' key (adv_hashRequest g req []) (createBalanceInquiry g req) w"

end
