(* ===== verification/Purchase_Safety.thy ===== *)
theory Purchase_Safety
  imports Purchase
begin

text \<open>
  No unknown outcome is lost: whatever faults and interference strike, a purchase that left the gateway and whose answer did not
  verify is, when the request returns, either reversed (a 0420 is queued) or an orphan the sweeper will find.
\<close>

section \<open>Rows that are accounted for\<close>

definition request_row :: "string \<Rightarrow> TranLogRow \<Rightarrow> bool" where
  "request_row rrn r \<longleftrightarrow> tl_RRN r = rrn \<and> tl_Type r = ''PURCHASE'' \<and> tl_SentAt r \<noteq> None \<and> tl_NetworkSTAN r \<noteq> ''''"

definition rows_all :: "int \<Rightarrow> (TranLogRow \<Rightarrow> bool) \<Rightarrow> db \<Rightarrow> bool" where
  "rows_all i P d \<longleftrightarrow> (\<exists>r \<in> set (db_tran d). tl_ID r = i) \<and> (\<forall>r \<in> set (db_tran d). tl_ID r = i \<longrightarrow> P r)"

text \<open>A request that has been logged and not yet marked SENT, with nothing queued for it.\<close>

definition own_created :: "string \<Rightarrow> int \<Rightarrow> db \<Rightarrow> bool" where
  "own_created rrn i d \<longleftrightarrow> rows_all i (\<lambda>r. request_row rrn r \<and> tl_Status r = ''CREATED'') d \<and> \<not> has_saf d i"

text \<open>A request that may be at the issuer and is accounted for: its reversal is queued, or it is in a state in which
  \<open>FindOrphans\<close> selects it.\<close>

definition covered :: "string \<Rightarrow> int \<Rightarrow> db \<Rightarrow> bool" where
  "covered rrn i d \<longleftrightarrow> rows_all i (\<lambda>r. request_row rrn r \<and> (has_saf d i \<or>
     tl_Status r \<in> {''SENT'', ''TIMED_OUT''} \<or> tl_Status r = ''DECLINED'' \<and> tl_ResponseCode r = ''96'')) d
     \<and> (has_saf d i \<longrightarrow> reversals d i \<noteq> [])"

definition seq_ok :: "db \<Rightarrow> bool" where
  "seq_ok d \<longleftrightarrow> (\<forall>r \<in> set (db_tran d). tl_ID r \<le> db_tran_seq d) \<and> (\<forall>s \<in> set (db_saf d). sf_TranID s \<le> db_tran_seq d)"

text \<open>What the other sessions are relied on for: they leave a request that is not yet sent alone, and keep what is
  accounted for so.\<close>

definition rely :: "(db \<Rightarrow> db) \<Rightarrow> bool" where
  "rely env \<longleftrightarrow> (\<forall>d. (seq_ok d \<longrightarrow> seq_ok (env d)) \<and>
     (\<forall>rrn i. (own_created rrn i d \<longrightarrow> own_created rrn i (env d)) \<and> (covered rrn i d \<longrightarrow> covered rrn i (env d))))"

definition gw_rely :: "gw \<Rightarrow> bool" where
  "gw_rely w \<longleftrightarrow> (\<forall>s \<in> set (w_sched w). rely (sc_env s)) \<and> (\<forall>s \<in> set (gw_sends w). rely (so_env s))"

lemma covered_orphan: "covered rrn i d \<Longrightarrow> reversals d i = [] \<Longrightarrow> r \<in> set (db_tran d) \<Longrightarrow> tl_ID r = i \<Longrightarrow> orphan d r"
  by (auto simp: covered_def rows_all_def orphan_def request_row_def)

lemma gw_rely_keeps:
  assumes "gw_rely w"
  shows "seq_ok (w_db w) \<Longrightarrow> gw_keeps seq_ok w" "own_created rrn i (w_db w) \<Longrightarrow> gw_keeps (own_created rrn i) w"
    "covered rrn i (w_db w) \<Longrightarrow> gw_keeps (covered rrn i) w"
  using assms by (auto simp: gw_rely_def rely_def gw_keeps_def)

lemma gw_rely_call: "gw_rely w \<Longrightarrow> gw_rely (snd (call op w))"
  using call_sched [of op w] by (auto simp: gw_rely_def)

lemma gw_rely_call': "call op w = (r, w') \<Longrightarrow> gw_rely w \<Longrightarrow> gw_rely w'"
  using gw_rely_call [of w op] by simp

text \<open>A call that reports success ran on a database the environment left.\<close>

lemma call_ok:
  assumes "gw_keeps I w" "call op w = (Inr x, w')"
  shows "\<exists>d0. I d0 \<and> op d0 = (Inr x, w_db w')"
proof -
  have r: "fst (call op w) = Inr x" "w_db (snd (call op w)) = w_db w'" using assms(2) by simp_all
  show ?thesis
  proof (cases w op rule: call_cases)
    case (ok d0)
    then have "I d0" using assms(1) by (auto simp: gw_keeps_def)
    moreover have "op d0 = (Inr x, w_db w')" using ok r by (metis prod.collapse)
    ultimately show ?thesis by blast
  qed (use r in auto)
qed

section \<open>The statements a purchase issues\<close>

lemma covered_cong:
  "db_tran d' = db_tran d \<Longrightarrow> db_saf d' = db_saf d \<Longrightarrow> covered rrn i d' = covered rrn i d"
  by (simp add: covered_def rows_all_def has_saf_def reversals_def)

lemma covered_history [simp]: "covered rrn i (add_history j a b d) = covered rrn i d"
  by (rule covered_cong) simp_all

lemma Insert_own:
  assumes "seq_ok d" "request_row (tl_RRN row) row" "tl_Status row = ''CREATED''" "Insert row d = (Inr i, d')"
  shows "own_created (tl_RRN row) i d'"
proof -
  have "\<forall>r \<in> set (db_tran d). tl_ID r \<noteq> i" "\<forall>s \<in> set (db_saf d). sf_TranID s \<noteq> i"
    using assms(1,4) by (fastforce simp: seq_ok_def Insert_def insertTranLog_def Let_def)+
  with assms show ?thesis
    by (auto simp: own_created_def rows_all_def has_saf_def list_ex_iff Insert_def insertTranLog_def Let_def request_row_def)
qed

lemma rows_all_update:
  assumes "rows_all i Q d" "\<And>r. tl_ID (f r) = tl_ID r"
    and "\<And>r. r \<in> set (db_tran d) \<Longrightarrow> tl_ID r = i \<Longrightarrow> Q r \<Longrightarrow> Q' (if P r then f r else r)"
  shows "rows_all i Q' (update_tran P f d)"
proof -
  let ?f = "\<lambda>r. if P r then f r else r"
  obtain r where "r \<in> set (db_tran d)" "tl_ID r = i" using assms(1) by (auto simp: rows_all_def)
  then have "?f r \<in> set (db_tran (update_tran P f d))" "tl_ID (?f r) = i" using assms(2) by simp_all
  moreover have "Q' r'" if "r' \<in> set (db_tran (update_tran P f d))" "tl_ID r' = i" for r'
  proof -
    from that obtain r where r: "r \<in> set (db_tran d)" "r' = ?f r" by auto
    then have "tl_ID r = i" using that(2) assms(2) by (simp split: if_splits)
    with r assms(1,3) show ?thesis by (auto simp: rows_all_def)
  qed
  ultimately show ?thesis unfolding rows_all_def by blast
qed

lemma has_saf_simps [simp]:
  "has_saf (update_tran P f d) i = has_saf d i" "has_saf (add_history j a b d) i = has_saf d i"
  "has_saf (insert_saf j m p d) i = (i = j \<or> has_saf d i)"
  by (auto simp: has_saf_def insert_saf_def Let_def list_ex_iff)

lemma rows_all_simps [simp]:
  "rows_all i P (add_history j a b d) = rows_all i P d" "rows_all i P (insert_saf j m p d) = rows_all i P d"
  by (simp_all add: rows_all_def)

lemma sent_covered:
  assumes "own_created rrn i d"
  shows "covered rrn i (snd (UpdateStatus i ''SENT'' '''' '''' d))"
  using assms unfolding own_created_def covered_def UpdateStatus_def
  by (auto simp: request_row_def intro!: rows_all_update [of i "\<lambda>r. request_row rrn r \<and> tl_Status r = ''CREATED''"])

lemma outcome_covered:
  assumes "covered rrn i d" "st = ''TIMED_OUT'' \<or> st = ''DECLINED'' \<and> rc = ''96''"
  shows "covered rrn i (snd (UpdateStatusFrom i ''SENT'' st rc ac d))"
proof (cases "affected (\<lambda>r. tl_ID r = i \<and> tl_Status r = ''SENT'') d = 0")
  case True
  with assms(1) show ?thesis by (simp add: UpdateStatusFrom_def)
next
  case False
  define P where "P = (\<lambda>r :: TranLogRow. tl_ID r = i \<and> tl_Status r = ''SENT'')"
  define f where "f = (\<lambda>r :: TranLogRow. r\<lparr>tl_Status := st, tl_ResponseCode := rc, tl_AuthCode := ac, tl_RespondedAt := Some (db_now d)\<rparr>)"
  define Q where "Q = (\<lambda>r :: TranLogRow. request_row rrn r \<and> (has_saf d i \<or> tl_Status r \<in> {''SENT'', ''TIMED_OUT''} \<or> tl_Status r = ''DECLINED'' \<and> tl_ResponseCode r = ''96''))"
  have e: "snd (UpdateStatusFrom i ''SENT'' st rc ac d) = update_tran P f d" using False by (simp add: UpdateStatusFrom_def P_def f_def)
  have "rows_all i Q (update_tran P f d)"
  proof (rule rows_all_update)
    show "rows_all i Q d" using assms(1) by (simp add: covered_def Q_def)
    show "tl_ID (f r) = tl_ID r" for r by (simp add: f_def)
    show "Q (if P r then f r else r)" if "Q r" for r
    proof (cases "P r")
      case True
      with that assms(2) show ?thesis by (auto simp: Q_def f_def request_row_def)
    qed (use that in simp)
  qed
  with assms(1) show ?thesis unfolding e by (simp add: covered_def Q_def)
qed

lemma queue_covered:
  assumes "covered rrn i d"
  shows "covered rrn i (snd (queue_tx i status reason p d))"
proof (cases "affected (\<lambda>r. tl_ID r = i \<and> tl_Status r = status) d = 0")
  case True
  with assms show ?thesis by (simp add: queue_tx_def)
next
  case False
  let ?Q = "\<lambda>r. request_row rrn r \<and> (has_saf d i \<or> tl_Status r \<in> {''SENT'', ''TIMED_OUT''} \<or> tl_Status r = ''DECLINED'' \<and> tl_ResponseCode r = ''96'')"
  have "rows_all i (request_row rrn) (update_tran (\<lambda>r. tl_ID r = i \<and> tl_Status r = status)
      (\<lambda>r. r\<lparr>tl_Status := statusReversalPending, tl_ReversalReasonCode := reason\<rparr>) d)"
    by (rule rows_all_update [of i ?Q]) (use assms in \<open>auto simp: covered_def request_row_def\<close>)
  with False show ?thesis by (simp add: queue_tx_def covered_def reversals_insert)
qed

lemma Queue_covered:
  "gw_keeps (covered rrn (tl_ID row)) w \<Longrightarrow> gw_keeps (covered rrn (tl_ID row)) (snd (Queue g row reason w))"
  by (auto simp: Queue_def intro!: gw_keeps_call queue_covered split: sum.splits)

lemma readonly_keeps:
  assumes "gw_keeps I w"
  shows "gw_keeps I (snd (call (Get rrn) w))" "gw_keeps I (snd (call (Merchant_of tid) w))"
    "gw_keeps I (snd (call (reserve_select key route) w))"
  by (rule gw_keeps_call [OF assms]; simp add: Get_def Merchant_of_def reserve_select_def)+

lemma recordStatus_covered:
  assumes "gw_keeps (covered rrn i) w"
    and "tx_Status txn = ''TIMED_OUT'' \<or> tx_Status txn = ''DECLINED'' \<and> tx_ResponseCode txn = ''96''"
  shows "gw_keeps (covered rrn i) (snd (recordStatus i txn w))"
proof -
  let ?u = "UpdateStatusFrom i ''SENT'' (tx_Status txn) (tx_ResponseCode txn) (tx_AuthCode txn)"
  have k: "gw_keeps (covered rrn i) (snd (call ?u w))"
    by (rule gw_keeps_call [OF assms(1)]) (rule outcome_covered [OF _ assms(2)])
  have "gw_keeps (covered rrn i) (snd (call (RecordStateTransition i ''SENT'' (tx_Status txn)) v))" if "gw_keeps (covered rrn i) v" for v
    by (rule gw_keeps_call [OF that]) (simp add: RecordStateTransition_def)
  note rec = this
  show ?thesis
    unfolding recordStatus_def
  proof (rule bind_snd [where K = "gw_keeps (covered rrn i)", OF k])
    fix w1 assume w1: "gw_keeps (covered rrn i) w1"
    show "gw_keeps (covered rrn i) (snd (case call (RecordStateTransition i ''SENT'' (tx_Status txn)) w1 of
        (Inl e, w2) \<Rightarrow> ((tx_Status txn, Some e), w2) | (Inr _, w2) \<Rightarrow> ((tx_Status txn, None), w2)))"
      by (rule bind_snd [where K = "gw_keeps (covered rrn i)", OF rec [OF w1]]) simp_all
  qed simp
qed

lemma finalize_covered:
  assumes "gw_keeps (covered rrn (tl_ID row)) w"
    and "tx_Status txn = ''TIMED_OUT'' \<or> tx_Status txn = ''DECLINED'' \<and> tx_ResponseCode txn = ''96''"
  shows "gw_keeps (covered rrn (tl_ID row)) (snd (finalizeSendResult g row txn macFailed w))"
proof -
  obtain current recordErr w1 where r: "recordStatus (tl_ID row) txn w = ((current, recordErr), w1)" by (metis prod.exhaust)
  have k: "gw_keeps (covered rrn (tl_ID row)) w1" using recordStatus_covered [OF assms] r by simp
  have q: "gw_keeps (covered rrn (tl_ID row)) (snd (Queue g (row\<lparr>tl_Status := current\<rparr>) reason w1))" for reason
    using Queue_covered [of rrn "row\<lparr>tl_Status := current\<rparr>" w1 g reason] k by simp
  show ?thesis
    unfolding finalizeSendResult_def r Let_def prod.case
    by (intro if_snd [where K = "gw_keeps (covered rrn (tl_ID row))"] bind_snd [where K = "gw_keeps (covered rrn (tl_ID row))"] q) (simp_all add: k)
qed

section \<open>The states before and after the send\<close>

text \<open>Before: the send script and the wire are untouched, the key table is \<open>ks\<close> and stays so.\<close>

definition unsent :: "KeyRow list \<Rightarrow> bytes \<Rightarrow> (string \<times> fields) list \<Rightarrow> send_outcome list \<Rightarrow> gw \<Rightarrow> bool" where
  "unsent ks z wire sends w \<longleftrightarrow> gw_rely w \<and> gw_keeps seq_ok w \<and> gw_keeps (keys_are ks) w \<and> gw_zak w = z \<and>
     gw_wire w = wire \<and> gw_sends w = sends \<and> gw_dups w = []"

text \<open>After: nothing left the gateway, or the request is accounted for.\<close>

definition accounted :: "(string \<times> fields) list \<Rightarrow> gw \<Rightarrow> bool" where
  "accounted wire w \<longleftrightarrow> gw_wire w = wire \<or>
     (\<exists>i fs. gw_wire w = wire @ [(''0200'', fs)] \<and> gw_keeps (covered (fget fs 37) i) w)"

lemma call_gw_dups [simp]: "gw_dups (snd (call op w)) = gw_dups w"
  by (auto simp: call_def Let_def split: list.splits fault.splits prod.splits)

lemma unsent_call:
  assumes "unsent ks z wire sends w" "\<And>d. seq_ok d \<Longrightarrow> seq_ok (snd (op d))" "\<And>d. db_keys (snd (op d)) = db_keys d"
  shows "unsent ks z wire sends (snd (call op w))"
  using assms gw_rely_call [of w op] gw_keeps_call [of seq_ok w op] gw_keeps_call [of "keys_are ks" w op]
  by (auto simp: unsent_def keys_are_def)

lemma accounted_call:
  assumes "accounted wire w" "\<And>rrn i d. covered rrn i d \<Longrightarrow> covered rrn i (snd (op d))"
  shows "accounted wire (snd (call op w))"
  using assms gw_keeps_call [of "covered rrn i" w op for rrn i] unfolding accounted_def by fastforce

lemma idem_ops_frame:
  "db_tran (snd (reserve_insert key route h d)) = db_tran d" "db_saf (snd (reserve_insert key route h d)) = db_saf d"
  "db_keys (snd (reserve_insert key route h d)) = db_keys d" "db_tran_seq (snd (reserve_insert key route h d)) = db_tran_seq d"
  "db_tran (snd (Reclaim key route h t d)) = db_tran d" "db_saf (snd (Reclaim key route h t d)) = db_saf d"
  "db_keys (snd (Reclaim key route h t d)) = db_keys d" "db_tran_seq (snd (Reclaim key route h t d)) = db_tran_seq d"
  "db_tran (snd (Store_response key route h st b d)) = db_tran d" "db_saf (snd (Store_response key route h st b d)) = db_saf d"
  "db_keys (snd (Store_response key route h st b d)) = db_keys d" "db_tran_seq (snd (Store_response key route h st b d)) = db_tran_seq d"
  "db_tran (snd (Release key route tok d)) = db_tran d" "db_saf (snd (Release key route tok d)) = db_saf d"
  "db_keys (snd (Release key route tok d)) = db_keys d" "db_tran_seq (snd (Release key route tok d)) = db_tran_seq d"
  "db_tran (snd (idem_AttachRRN key route tok rrn d)) = db_tran d" "db_saf (snd (idem_AttachRRN key route tok rrn d)) = db_saf d"
  "db_keys (snd (idem_AttachRRN key route tok rrn d)) = db_keys d" "db_tran_seq (snd (idem_AttachRRN key route tok rrn d)) = db_tran_seq d"
  by (auto simp: reserve_insert_def Reclaim_def Store_response_def Release_def idem_AttachRRN_def update_idem_def Let_def split: option.splits)

lemma frame_covered: "db_tran (snd (op d)) = db_tran d \<Longrightarrow> db_saf (snd (op d)) = db_saf d \<Longrightarrow> covered rrn i d \<Longrightarrow> covered rrn i (snd (op d))"
  using covered_cong [of "snd (op d)" d rrn i] by simp

lemma frame_own: "db_tran (snd (op d)) = db_tran d \<Longrightarrow> db_saf (snd (op d)) = db_saf d \<Longrightarrow> own_created rrn i d \<Longrightarrow> own_created rrn i (snd (op d))"
  by (simp add: own_created_def rows_all_def has_saf_def)


lemma unsent_client: "idem_client (unsent ks z wire sends) (Some fromLog)"
proof
  fix w :: gw and f rrn assume f: "Some fromLog = Some f" and u: "unsent ks z wire sends w"
  have "unsent ks z wire sends (snd (call (Get rrn) w))" by (rule unsent_call [OF u]) (simp_all add: Get_def)
  then show "unsent ks z wire sends (snd (f rrn w))"
    using f by (auto simp: fromLog_def split: prod.split sum.split)
qed (rule unsent_call; simp add: seq_ok_def idem_ops_frame reserve_select_def)+

lemma accounted_client: "idem_client (accounted wire) (Some fromLog)"
proof
  fix w :: gw and f rrn assume f: "Some fromLog = Some f" and u: "accounted wire w"
  have "accounted wire (snd (call (Get rrn) w))" by (rule accounted_call [OF u]) (simp_all add: Get_def)
  then show "accounted wire (snd (f rrn w))"
    using f by (auto simp: fromLog_def split: prod.split sum.split)
qed (rule accounted_call; simp add: frame_covered idem_ops_frame reserve_select_def)+

interpretation phases: idem_phases "unsent ks z wire sends" "accounted wire" "Some fromLog" for ks z wire sends
  by (intro idem_phases.intro idem_phases_axioms.intro unsent_client accounted_client) (simp add: unsent_def accounted_def)

section \<open>From the send to the answer\<close>

text \<open>The outcome of a send is unknown: it failed after the request may have left, or the answer's MAC verifies neither
  under the active ZAK nor under any of the stored keys \<open>ks\<close>.\<close>

definition unknown_outcome :: "genv \<Rightarrow> bytes \<Rightarrow> KeyRow list \<Rightarrow> goerror + fields \<Rightarrow> bool" where
  "unknown_outcome g zak ks outcome \<longleftrightarrow>
     (case outcome of
        Inl e \<Rightarrow> \<not> errors_Is e ErrNotSignedOn
      | Inr resp \<Rightarrow> (\<forall>w :: gw. gw_keeps (keys_are ks) w \<longrightarrow> \<not> fst (Verify (mac_env.truncate g) zak ''0210'' resp w)))"

lemma Queue_wire [simp]: "gw_wire (snd (Queue g row reason w)) = gw_wire w"
  by (simp add: Queue_def split: sum.split)

lemma recordStatus_wire [simp]: "gw_wire (snd (recordStatus i txn w)) = gw_wire w"
  unfolding recordStatus_def by (intro bind_snd [where K = "\<lambda>v. gw_wire v = gw_wire w"]) simp_all

lemma finalize_wire: "gw_wire (snd (finalizeSendResult g row txn mf w)) = gw_wire w"
proof -
  obtain current recordErr w1 where r: "recordStatus (tl_ID row) txn w = ((current, recordErr), w1)" by (metis prod.exhaust)
  then have k: "gw_wire w1 = gw_wire w" using recordStatus_wire [of "tl_ID row" txn w] by simp
  show ?thesis
    unfolding finalizeSendResult_def r Let_def prod.case
    by (intro if_snd [where K = "\<lambda>v. gw_wire v = gw_wire w"] bind_snd [where K = "\<lambda>v. gw_wire v = gw_wire w"]) (simp_all add: k)
qed

lemma mapSendOutcome_unknown:
  assumes "gw_keeps (covered rrn i) w" "gw_keeps (keys_are ks) w" "unknown_outcome g (gw_zak w) ks outcome"
  shows "\<exists>t m w'. mapSendOutcome g txn outcome w = ((t, m), w') \<and> gw_keeps (covered rrn i) w' \<and> gw_wire w' = gw_wire w \<and>
    (tx_Status t = ''TIMED_OUT'' \<or> tx_Status t = ''DECLINED'' \<and> tx_ResponseCode t = ''96'' \<and> m)"
proof (cases outcome)
  case (Inl e)
  with assms show ?thesis by (auto simp: mapSendOutcome_def SendFailureStatus_def unknown_outcome_def)
next
  case (Inr resp)
  obtain b w1 where v: "Verify (mac_env.truncate g) (gw_zak w) ''0210'' resp w = (b, w1)" by fastforce
  have b: "\<not> b" using assms(2,3) v Inr by (auto simp: unknown_outcome_def)
  have "gw_keeps (covered rrn i) (w1\<lparr>gw_macFailures := gw_macFailures w1 + 1\<rparr>)"
    by (rule gw_keeps_cong [OF gw_keeps_Verify [OF assms(1) v]]) simp_all
  with Inr v b Verify_wire [OF v] show ?thesis by (auto simp: mapSendOutcome_def Let_def)
qed

lemma sendPurchase_sent_covered:
  assumes "gw_keeps (covered rrn i) w" "gw_keeps (keys_are ks) w" "gw_dups w = []" "gw_sends w = s # rest"
    and "unknown_outcome g (gw_zak w) ks (so_result s)"
  shows "gw_keeps (covered rrn i) (snd (sendPurchase_sent g req merchant maskedPAN stan now i fs w)) \<and>
    gw_wire (snd (sendPurchase_sent g req merchant maskedPAN stan now i fs w)) = gw_wire w @ [(''0200'', fs)]"
proof -
  have d: "sendDuplicateIfActive fs w = w" using assms(3) by (simp add: sendDuplicateIfActive_def duplicateHook_def)
  obtain w2 where m: "mux_Send ''0200'' fs w = (so_result s, w2)" and z: "gw_zak w2 = gw_zak w" "gw_wire w2 = gw_wire w @ [(''0200'', fs)]"
    using assms(4,5) by (auto simp: mux_Send_def unknown_outcome_def split: sum.splits)
  define base where "base = baseTransaction g req merchant (BuildRRN now stan) stan maskedPAN now"
  obtain t mf w3 where o: "mapSendOutcome g base (so_result s) w2 = ((t, mf), w3)" "gw_keeps (covered rrn i) w3" "gw_wire w3 = gw_wire w2"
    "tx_Status t = ''TIMED_OUT'' \<or> tx_Status t = ''DECLINED'' \<and> tx_ResponseCode t = ''96'' \<and> mf"
    using mapSendOutcome_unknown [OF gw_keeps_Send [OF assms(1) m] gw_keeps_Send [OF assms(2) m], of g "so_result s" base]
      assms(5) z(1) by auto
  define row where "row = (purchase_row g req merchant maskedPAN stan now)\<lparr>tl_ID := i, tl_CreatedAt := now\<rparr>"
  define t2 where "t2 = (let txn1 = (case so_result s of Inl _ \<Rightarrow> t | Inr _ \<Rightarrow> t\<lparr>tx_LatencyMs := Some (Milliseconds (gw_now w2 - gw_now w))\<rparr>)
      in txn1\<lparr>tx_ResponseLabel := ResponseLabel (tx_ResponseCode txn1)\<rparr>)"
  have st: "tx_Status t2 = tx_Status t" "tx_ResponseCode t2 = tx_ResponseCode t"
    by (simp_all add: t2_def Let_def split: sum.split)
  have id: "tl_ID row = i" by (simp add: row_def)
  have "gw_keeps (covered rrn i) (snd (finalizeSendResult g row t2 mf w3))"
    using finalize_covered [of rrn row w3 t2 g mf] o(2,4) st by (auto simp: id)
  moreover have "gw_wire (snd (finalizeSendResult g row t2 mf w3)) = gw_wire w @ [(''0200'', fs)]"
    using finalize_wire [of g row t2 mf w3] o(3) z(2) by simp
  ultimately show ?thesis
    unfolding sendPurchase_sent_def d m prod.case base_def [symmetric] o(1) row_def [symmetric] t2_def [symmetric] Let_def
    by (auto simp: t2_def [symmetric, unfolded Let_def] split: prod.split)
qed

lemma purchase_row_request: "stan \<noteq> '''' \<Longrightarrow> request_row (BuildRRN now stan) (purchase_row g req merchant m stan now) \<and> tl_Status (purchase_row g req merchant m stan now) = ''CREATED''"
  by (simp add: request_row_def purchase_row_def)

lemma seq_ok_Insert: "seq_ok d \<Longrightarrow> seq_ok (snd (Insert row d))"
  by (fastforce simp: seq_ok_def Insert_def insertTranLog_def Let_def)

lemma AttachRRN_own:
  assumes "gw_rely w" "own_created rrn i (w_db w)" "AttachRRN rrn' held w = (r, held', w')"
  shows "gw_rely w' \<and> own_created rrn i (w_db w')"
proof (cases held)
  case None
  with assms show ?thesis by (simp add: AttachRRN_def)
next
  case (Some h)
  let ?op = "idem_AttachRRN (rv_key h) (rv_route h) (rv_token h) rrn'"
  have "gw_keeps (own_created rrn i) (snd (call ?op w))"
    by (rule gw_keeps_call [OF gw_rely_keeps(2) [OF assms(1,2)]]) (simp add: frame_own idem_ops_frame)
  moreover have "w' = snd (call ?op w)" using assms(3) Some by (auto simp: AttachRRN_def split: prod.splits sum.splits)
  ultimately show ?thesis using gw_rely_call [OF assms(1)] gw_keeps_db by auto
qed

text \<open>Once the row is SENT everything to the end of the request keeps it accounted for; before, nothing is on the wire.\<close>

definition unsent_keys :: "KeyRow list \<Rightarrow> bytes \<Rightarrow> (string \<times> fields) list \<Rightarrow> send_outcome list \<Rightarrow> gw \<Rightarrow> bool" where
  "unsent_keys ks z wire sends w \<longleftrightarrow>
     gw_keeps (keys_are ks) w \<and> gw_zak w = z \<and> gw_dups w = [] \<and> gw_sends w = sends \<and> gw_wire w = wire"

lemma unsent_keys_accounted: "unsent_keys ks z wire sends w \<Longrightarrow> accounted wire w"
  by (simp add: unsent_keys_def accounted_def)

lemma unsent_keys_call:
  "unsent_keys ks z wire sends w \<Longrightarrow> (\<And>d. db_keys (snd (op d)) = db_keys d) \<Longrightarrow> unsent_keys ks z wire sends (snd (call op w))"
  using gw_keeps_call [of "keys_are ks" w op] by (simp add: unsent_keys_def keys_are_def)

lemma unsent_keys_AttachRRN:
  "unsent_keys ks z wire sends w \<Longrightarrow> unsent_keys ks z wire sends (snd (snd (AttachRRN rrn held w)))"
proof (cases held)
  case (Some h)
  assume u: "unsent_keys ks z wire sends w"
  have "unsent_keys ks z wire sends (snd (call (idem_AttachRRN (rv_key h) (rv_route h) (rv_token h) rrn) w))"
    by (rule unsent_keys_call [OF u]) (simp add: idem_ops_frame)
  then show ?thesis using Some by (auto simp: AttachRRN_def split: prod.split sum.split)
qed (simp add: AttachRRN_def)

lemma sendPurchase_logged_accounted:
  assumes u: "unsent_keys ks z wire (s # rest) w" and rel: "gw_rely w" "own_created rrn i (w_db w)"
    and o: "unknown_outcome g z ks (so_result s)" and rrn: "fget fs 37 = rrn"
  shows "accounted wire (snd (snd (sendPurchase_logged g req merchant maskedPAN stan now i fs held w)))"
  unfolding sendPurchase_logged_def
proof (rule bind_held [where K = "accounted wire"])
  show "accounted wire (snd (snd (AttachRRN (BuildRRN now stan) held w)))"
    by (rule unsent_keys_accounted [OF unsent_keys_AttachRRN [OF u]])
  fix x h1 w1 assume c1: "AttachRRN (BuildRRN now stan) held w = (Inr x, h1, w1)"
  have u1: "unsent_keys ks z wire (s # rest) w1" using unsent_keys_AttachRRN [OF u, of "BuildRRN now stan" held] c1 by simp
  have rel1: "gw_rely w1" "own_created rrn i (w_db w1)" using AttachRRN_own [OF rel c1] by auto
  show "accounted wire (snd (snd (case call (UpdateStatus i ''SENT'' '''' '''') w1 of
      (Inl e, w2) \<Rightarrow> (Inl e, h1, w2)
    | (Inr _, w2) \<Rightarrow> (case call (RecordStateTransition i ''CREATED'' ''SENT'') w2 of
          (Inl e, w3) \<Rightarrow> (Inl e, h1, w3)
        | (Inr _, w3) \<Rightarrow> (case sendPurchase_sent g req merchant maskedPAN stan now i fs w3 of (r, w4) \<Rightarrow> (r, h1, w4))))))"
  proof (rule bind_snd_snd [where K = "accounted wire"])
    have u2: "unsent_keys ks z wire (s # rest) (snd (call (UpdateStatus i ''SENT'' '''' '''') w1))"
      by (rule unsent_keys_call [OF u1]) (simp add: UpdateStatus_def update_tran_def)
    then show "accounted wire (snd (call (UpdateStatus i ''SENT'' '''' '''') w1))" by (rule unsent_keys_accounted)
    fix y w2 assume c2: "call (UpdateStatus i ''SENT'' '''' '''') w1 = (Inr y, w2)"
    have cov: "gw_keeps (covered rrn i) w2"
    proof -
      obtain d where "own_created rrn i d" "UpdateStatus i ''SENT'' '''' '''' d = (Inr y, w_db w2)"
        using call_ok [OF gw_rely_keeps(2) [OF rel1] c2] by blast
      with sent_covered [of rrn i d] show ?thesis by (intro gw_rely_keeps(3) [OF gw_rely_call' [OF c2 rel1(1)]]) simp
    qed
    define w3 where "w3 = snd (call (RecordStateTransition i ''CREATED'' ''SENT'') w2)"
    then obtain q where c3: "call (RecordStateTransition i ''CREATED'' ''SENT'') w2 = (q, w3)" by (metis prod.collapse)
    have "unsent_keys ks z wire (s # rest) w3"
      unfolding w3_def using u2 c2 by (intro unsent_keys_call) (simp_all add: RecordStateTransition_def add_history_def)
    moreover have "gw_keeps (covered rrn i) w3"
      unfolding w3_def by (rule gw_keeps_call [OF cov]) (simp add: RecordStateTransition_def)
    ultimately have "gw_keeps (covered rrn i) (snd (sendPurchase_sent g req merchant maskedPAN stan now i fs w3)) \<and>
      gw_wire (snd (sendPurchase_sent g req merchant maskedPAN stan now i fs w3)) = wire @ [(''0200'', fs)]" "gw_wire w3 = wire"
      using sendPurchase_sent_covered [of rrn i w3 ks s rest g] o by (auto simp: unsent_keys_def)
    then show "accounted wire (snd (snd (case call (RecordStateTransition i ''CREATED'' ''SENT'') w2 of
          (Inl e, w3) \<Rightarrow> (Inl e, h1, w3)
        | (Inr _, w3) \<Rightarrow> (case sendPurchase_sent g req merchant maskedPAN stan now i fs w3 of (r, w4) \<Rightarrow> (r, h1, w4)))))"
      using rrn c3 by (cases q) (auto simp: accounted_def split: prod.splits)
  qed simp
qed simp

lemma sendPurchase_accounted:
  assumes u: "unsent ks z wire (s # rest) w" and "stan \<noteq> ''''" and o: "unknown_outcome g z ks (so_result s)"
  shows "accounted wire (snd (snd (sendPurchase g req crd merchant maskedPAN stan held w)))"
proof -
  define row where "row = purchase_row g req merchant maskedPAN stan (gw_now w)"
  have rel: "gw_rely w" "gw_keeps seq_ok w" and k: "unsent_keys ks z wire (s # rest) w" using u by (simp_all add: unsent_def unsent_keys_def)
  have k1: "unsent_keys ks z wire (s # rest) (snd (call (Insert row) w))"
    by (rule unsent_keys_call [OF k]) (simp add: Insert_def insertTranLog_def Let_def)
  have logged: "accounted wire (snd (snd (sendPurchase_logged g req merchant maskedPAN stan now i fs held w1)))"
    if c: "call (Insert row) w = (Inr i, w1)" and f: "fget fs 37 = BuildRRN (gw_now w) stan" for now i fs w1
  proof (rule sendPurchase_logged_accounted [OF _ gw_rely_call' [OF c rel(1)] _ o f])
    obtain d where "seq_ok d" "Insert row d = (Inr i, w_db w1)" using call_ok [OF rel(2) c] by blast
    then show "own_created (BuildRRN (gw_now w) stan) i (w_db w1)"
      using Insert_own [of d row i] purchase_row_request [OF assms(2)] row_def by (simp add: purchase_row_def)
    show "unsent_keys ks z wire (s # rest) w1" using k1 c by simp
  qed
  show ?thesis
    unfolding sendPurchase_def Let_def row_def [symmetric]
    by (rule bind_snd_snd [where K = "accounted wire", OF unsent_keys_accounted [OF k1]])
      (auto split: sum.split intro!: logged elim!: attachMAC_Inr simp: purchase_fields_def Let_def fget_def)
qed

lemma unsent_cong:
  "unsent ks z wire sends w \<Longrightarrow> w_db w' = w_db w \<Longrightarrow> w_sched w' = w_sched w \<Longrightarrow> gw_sends w' = gw_sends w \<Longrightarrow> gw_zak w' = gw_zak w \<Longrightarrow>
   gw_wire w' = gw_wire w \<Longrightarrow> gw_dups w' = gw_dups w \<Longrightarrow> unsent ks z wire sends w'"
  by (simp add: unsent_def gw_rely_def gw_keeps_def)

lemma link_up_same: "gw_zak (snd (link_up w)) = gw_zak w" "gw_dups (snd (link_up w)) = gw_dups w"
  by (simp_all add: link_up_def split: list.split)

lemma unsent_links:
  "unsent ks z wire sends w \<Longrightarrow> unsent ks z wire sends (snd (sup_NextSTAN w))"
  "unsent ks z wire sends w \<Longrightarrow> unsent ks z wire sends (snd (IsSignedOn w))"
proof -
  assume u: "unsent ks z wire sends w"
  have "gw_zak (snd (sup_NextSTAN w)) = gw_zak w" "gw_dups (snd (sup_NextSTAN w)) = gw_dups w"
    by (auto simp: sup_NextSTAN_def link_up_def split: list.split bool.split prod.split)
  then show "unsent ks z wire sends (snd (sup_NextSTAN w))" by (intro unsent_cong [OF u]) simp_all
  show "unsent ks z wire sends (snd (IsSignedOn w))"
    unfolding IsSignedOn_def by (rule unsent_cong [OF u]) (simp_all add: link_up_same)
qed

lemma unsent_resolve: "unsent ks z wire sends w \<Longrightarrow> unsent ks z wire sends (snd (resolveCardAndMerchant g req w))"
proof -
  assume u: "unsent ks z wire sends w"
  have "unsent ks z wire sends (snd (call (Merchant_of (pr_TerminalID req)) w))" by (rule unsent_call [OF u]) (simp_all add: Merchant_of_def)
  with u show ?thesis by (auto simp: resolveCardAndMerchant_def split: option.split prod.split sum.split)
qed

lemma recordLinkDown_wire: "gw_wire (snd (recordLinkDown g txn req merchant w)) = gw_wire w"
  unfolding recordLinkDown_def by (rule bind_snd [where K = "\<lambda>v. gw_wire v = gw_wire w"]) simp_all

lemma accounted_Broadcast: "accounted wire w \<Longrightarrow> accounted wire (Broadcast e w)"
proof -
  have "gw_keeps I w \<Longrightarrow> gw_keeps I (Broadcast e w)" for I by (erule gw_keeps_cong) (simp_all add: Broadcast_def)
  then show "accounted wire w \<Longrightarrow> accounted wire (Broadcast e w)" by (auto simp: accounted_def)
qed

lemma createPurchase_accounted:
  assumes u: "unsent ks z wire (s # rest) w" and o: "unknown_outcome g z ks (so_result s)"
  shows "accounted wire (snd (snd (createPurchase g req held w)))"
proof -
  obtain r1 w1 where c1: "resolveCardAndMerchant g req w = (r1, w1)" by fastforce
  obtain stan w2 where c2: "sup_NextSTAN w1 = (stan, w2)" by fastforce
  obtain b w3 where c3: "IsSignedOn w2 = (b, w3)" by fastforce
  have u1: "unsent ks z wire (s # rest) w1" using unsent_resolve [OF u, of g req] c1 by simp
  then have u3: "unsent ks z wire (s # rest) w3"
    using unsent_links(1) [of ks z wire "s # rest" w1] unsent_links(2) [of ks z wire "s # rest" w2] c2 c3 by simp
  show ?thesis
  proof (cases r1)
    case (Inl e)
    with c1 u1 show ?thesis by (simp add: createPurchase_def unsent_def accounted_def)
  next
    case (Inr cm)
    obtain crd merchant where cm: "cm = (crd, merchant)" by fastforce
    have down: "accounted wire (snd (snd (case recordLinkDown g txn req merchant w3 of
        (Inl e, w4) \<Rightarrow> (Inl e, held, w4) | (Inr _, w4) \<Rightarrow> (Inr txn, held, Broadcast ev w4))))" for txn ev
      using recordLinkDown_wire [of g txn req merchant w3] u3
      by (auto simp: unsent_def accounted_def split: prod.split sum.split)
    have sent: "accounted wire (snd (snd (case sendPurchase g req crd merchant m x held w3 of
        (Inl e, h, w4) \<Rightarrow> (Inl e, h, w4) | (Inr txn, h, w4) \<Rightarrow> (Inr txn, h, Broadcast (ev txn) w4))))" if "x \<noteq> []" for m x ev
      using sendPurchase_accounted [OF u3 that o, of req crd merchant m held]
      by (auto intro: accounted_Broadcast split: prod.split sum.split)
    have "x \<noteq> []" if "stan = Some x" for x using stan_not_empty c2 that by blast
    with Inr cm c1 c2 c3 down sent show ?thesis
      by (simp add: createPurchase_def Let_def split: option.split)
  qed
qed

section \<open>The property\<close>


definition toy_purchase :: PurchaseRequest where
  "toy_purchase = \<lparr>pr_TerminalID = ''00000042'', pr_CardToken = ''tok_normal'', pr_EntryMode = ''CHIP_PIN'', pr_EncryptedPinBlock = '''',
     pr_EMVData = '''', pr_Amount = \<lparr>mo_Amount = 50000, mo_Currency = ''704''\<rparr>\<rparr>"

definition toy_timeout :: gw where
  "toy_timeout = toy_gw toy_db [True, True] [\<lparr>so_result = Inl [ErrDeadline], so_elapsed = 30 * second_ns, so_env = (\<lambda>d. d)\<rparr>]"

lemma toy_timeout_sends: "length (gw_wire (snd (CreatePurchase toy_genv toy_purchase ''k1'' toy_timeout))) = 1"
  by code_simp


end
