(* ===== verification/Gateway_System.thy ===== *)
theory Gateway_System
  imports Advtxn Purchase_Safety
begin

text \<open>
  The gateway as a whole, seen from the database. A step is one statement or transaction that some request, the delivery worker
  or the sweeper issues; concurrent sessions interleave steps arbitrarily, and a statement whose acknowledgement is lost is a step
  all the same. Beside the database the state holds the ids of the rows that requests have logged and not yet
  marked SENT: the local variable each request keeps between its \<open>Insert\<close> and its \<open>UpdateStatus\<close>. The invariants are shown by
  rule induction; the components are then shown to take only these steps.
\<close>

section \<open>Steps\<close>

text \<open>Statements that leave the transaction log and the queue alone: idempotency records, keys, events, reads, the clock.\<close>

definition same_log :: "db \<Rightarrow> db \<Rightarrow> bool" where
  "same_log d d' \<longleftrightarrow> db_tran d' = db_tran d \<and> db_saf d' = db_saf d \<and> db_tran_seq d' = db_tran_seq d \<and> db_saf_seq d' = db_saf_seq d"

inductive sys_step :: "db \<times> int set \<Rightarrow> db \<times> int set \<Rightarrow> bool" where
  other: "same_log d d' \<Longrightarrow> sys_step (d, own) (d', own)"
| log: "tl_Status row = ''CREATED'' \<Longrightarrow> Insert row d = (Inr i, d') \<Longrightarrow> sys_step (d, own) (d', insert i own)"
| log_completion: "tl_Status row = ''CREATED'' \<Longrightarrow> InsertCompletion row rrn d = (Inr i, d') \<Longrightarrow> sys_step (d, own) (d', insert i own)"
| log_declined: "tl_Status row = ''DECLINED'' \<Longrightarrow> Insert row d = (Inr i, d') \<Longrightarrow> sys_step (d, own) (d', own)"
| give_up: "own' \<subseteq> own \<Longrightarrow> sys_step (d, own) (d, own')"
| sending: "i \<in> own \<Longrightarrow> sys_step (d, own) (snd (UpdateStatus i ''SENT'' '''' '''' d), own - {i})"
| transition: "sys_step (d, own) (snd (RecordStateTransition i a b d), own)"
| answered: "st \<in> {''APPROVED'', ''DECLINED'', ''TIMED_OUT''} \<Longrightarrow> sys_step (d, own) (snd (UpdateStatusFrom i ''SENT'' st rc ac d), own)"
| amounts: "sys_step (d, own) (snd (UpdateAmounts i a b d), own)"
| late: "sys_step (d, own) (snd (UpdateLateResponse rrn rc d), own)"
| release_claim: "sys_step (d, own) (snd (ReleaseCompletion rrn c d), own)"
| queue_reversal: "clean_payload p \<Longrightarrow> st \<notin> {''CREATED'', ''REVERSAL_PENDING'', ''REVERSED''} \<Longrightarrow>
    sys_step (d, own) (snd (queue_tx i st reason p d), own)"
| queue_advice: "clean_payload p \<Longrightarrow> mti \<noteq> ''0420'' \<Longrightarrow> sys_step (d, own) (snd (enqueue_op i mti p d), own)"
| sweep: "sys_step (d, own) (snd (MarkTimedOut i d), own)"
| claim: "sys_step (d, own) (snd (ClaimDue n lease d), own)"
| identify: "clean_payload p \<Longrightarrow> sys_step (d, own) (snd (UpdatePayload i p d), own)"
| retry: "sys_step (d, own) (snd (MarkInFlight i a t e d), own)"
| dead: "sys_step (d, own) (snd (MarkDead i e d), own)"
| acked: "sys_step (d, own) (snd (MarkAcked i d), own)"

text \<open>A fresh gateway: nothing logged, nothing queued.\<close>

definition sys_init :: "db \<Rightarrow> bool" where
  "sys_init d \<longleftrightarrow> db_tran d = [] \<and> db_saf d = []"

inductive sys_reach :: "db \<times> int set \<Rightarrow> bool" where
  init: "sys_init d \<Longrightarrow> sys_reach (d, {})"
| step: "sys_reach s \<Longrightarrow> sys_step s s' \<Longrightarrow> sys_reach s'"

section \<open>The invariant\<close>

definition sys_inv :: "db \<times> int set \<Rightarrow> bool" where
  "sys_inv s \<longleftrightarrow> (case s of (d, own) \<Rightarrow> reversal_inv d \<and> (\<forall>i \<in> own. i \<le> db_tran_seq d \<and> (\<forall>r \<in> set (db_tran d). tl_ID r = i \<longrightarrow> tl_Status r = ''CREATED'')))"

lemma sys_invI:
  "reversal_inv d \<Longrightarrow> (\<And>i r. i \<in> own \<Longrightarrow> r \<in> set (db_tran d) \<Longrightarrow> tl_ID r = i \<Longrightarrow> tl_Status r = ''CREATED'') \<Longrightarrow>
   (\<And>i. i \<in> own \<Longrightarrow> i \<le> db_tran_seq d) \<Longrightarrow> sys_inv (d, own)"
  by (simp add: sys_inv_def)

lemma sys_invD:
  assumes "sys_inv (d, own)"
  shows "reversal_inv d" "i \<in> own \<Longrightarrow> i \<le> db_tran_seq d" "i \<in> own \<Longrightarrow> r \<in> set (db_tran d) \<Longrightarrow> tl_ID r = i \<Longrightarrow> tl_Status r = ''CREATED''"
  using assms by (auto simp: sys_inv_def)

lemma rinv_frame: "same_log d d' \<Longrightarrow> reversal_inv d' = reversal_inv d"
  by (simp add: same_log_def reversal_inv_def row_ok_def reversals_def saf_clean_def)

text \<open>A statement that keeps the reversal invariant, the ids, and every CREATED row CREATED keeps the whole invariant.\<close>

lemma sys_inv_keep:
  assumes "sys_inv (d, own)" "reversal_inv d'" "db_tran_seq d \<le> db_tran_seq d'"
    and "\<And>r'. r' \<in> set (db_tran d') \<Longrightarrow> tl_ID r' \<in> own \<Longrightarrow> \<exists>r \<in> set (db_tran d). tl_ID r = tl_ID r' \<and> (tl_Status r = ''CREATED'' \<longrightarrow> tl_Status r' = ''CREATED'')"
  shows "sys_inv (d', own)"
  using assms sys_invD [OF assms(1)] by (intro sys_invI) (fastforce+)

text \<open>A guarded update of rows: its effect on the rows and that it keeps the invariants.\<close>

lemma sys_inv_update:
  assumes "sys_inv (d, own)"
    and "\<And>r. r \<in> set (db_tran d) \<Longrightarrow> P r \<Longrightarrow> tl_ID (f r) = tl_ID r"
    and "\<And>r. r \<in> set (db_tran d) \<Longrightarrow> P r \<Longrightarrow> row_ok d r \<Longrightarrow> row_ok d (f r)"
    and "\<And>r. r \<in> set (db_tran d) \<Longrightarrow> P r \<Longrightarrow> tl_Status r = ''CREATED'' \<Longrightarrow> tl_Status (f r) = ''CREATED''"
  shows "sys_inv (update_tran P f d, own)"
proof (rule sys_inv_keep [OF assms(1)])
  show "reversal_inv (update_tran P f d)" by (rule rinv_update_tran [OF sys_invD(1) [OF assms(1)]]) (use assms(2,3) in auto)
  fix r' assume "r' \<in> set (db_tran (update_tran P f d))"
  then obtain r where "r \<in> set (db_tran d)" "r' = (if P r then f r else r)" by auto
  with assms(2,4) show "\<exists>r \<in> set (db_tran d). tl_ID r = tl_ID r' \<and> (tl_Status r = ''CREATED'' \<longrightarrow> tl_Status r' = ''CREATED'')"
    by (intro bexI [of _ r]) auto
qed simp

section \<open>Every step keeps the invariant\<close>

lemma sys_inv_history [simp]: "sys_inv (add_history i a b d, own) = sys_inv (d, own)"
  by (simp add: sys_inv_def rinv_history)

lemma sys_inv_saf:
  assumes "sys_inv (d, own)" "reversal_inv d'" "db_tran d' = db_tran d" "db_tran_seq d' = db_tran_seq d"
  shows "sys_inv (d', own)"
  by (rule sys_inv_keep [OF assms(1,2)]) (auto simp: assms(3,4))

lemma insertTranLog_effect:
  assumes "insertTranLog row d = (i, d')"
  obtains x where "db_tran d' = db_tran d @ [x]" "tl_ID x = i" "tl_Status x = tl_Status row" "i = db_tran_seq d + 1"
    "db_saf d' = db_saf d" "db_tran_seq d' = db_tran_seq d + 1"
proof -
  have "\<exists>x. db_tran d' = db_tran d @ [x] \<and> tl_ID x = i \<and> tl_Status x = tl_Status row"
    "i = db_tran_seq d + 1" "db_saf d' = db_saf d" "db_tran_seq d' = db_tran_seq d + 1"
    using assms [symmetric] by (simp_all add: insertTranLog_def Let_def)
  then show ?thesis using that by blast
qed

lemma sys_inv_insert:
  assumes inv: "sys_inv (d, own)" and st: "tl_Status row \<notin> reversal_states" and ins: "insertTranLog row d = (i, d')"
  shows "sys_inv (d', if tl_Status row = ''CREATED'' then insert i own else own)"
proof -
  note rinv = sys_invD(1) [OF inv]
  obtain x where x: "db_tran d' = db_tran d @ [x]" "tl_ID x = i" "tl_Status x = tl_Status row" "i = db_tran_seq d + 1"
    and d': "db_saf d' = db_saf d" "db_tran_seq d' = db_tran_seq d + 1"
    by (rule insertTranLog_effect [OF ins])
  have rev: "reversals d' j = reversals d j" for j by (simp add: reversals_def d')
  have fresh: "tl_ID r \<noteq> i" if "r \<in> set (db_tran d)" for r using rinvD(3) [OF rinv that] x(4) by (simp add: row_ok_def)
  have norev: "reversals d i = []" using rinvD(4) [OF rinv] x(4) by (fastforce simp: reversals_def filter_empty_conv)
  have "reversal_inv d'"
  proof (rule rinvI)
    have "i \<notin> tl_ID ` set (db_tran d)" using fresh by blast
    then show "distinct (map tl_ID (db_tran d'))" using rinvD(2) [OF rinv] by (simp add: x(1,2))
    show "row_ok d' r" if "r \<in> set (db_tran d')" for r
      using that rinvD(3) [OF rinv, of r] norev st by (auto simp: x row_ok_def rev d')
  qed (use rinvD [OF rinv] in \<open>auto simp: saf_clean_def d' rev intro: le_less_trans less_imp_le\<close>)
  then show ?thesis
    using sys_invD(3) [OF inv] fresh by (intro sys_invI)
      (auto simp: x(1-3) d'(2) x(4) split: if_splits dest: sys_invD(2) [OF inv])
qed

lemma sys_inv_completion:
  assumes inv: "sys_inv (d, own)" and st: "tl_Status row = ''CREATED''" and ins: "InsertCompletion row rrn d = (Inr i, d')"
  shows "sys_inv (d', insert i own)"
proof -
  let ?u = "update_tran (completable rrn) (\<lambda>r. r\<lparr>tl_CompletedBy := tl_RRN row\<rparr>) d"
  have "sys_inv (?u, own)" by (rule sys_inv_update [OF inv]) (auto simp: row_ok_def)
  moreover have "insertTranLog row ?u = (i, d')"
    using ins by (auto simp: InsertCompletion_def split: if_splits prod.splits)
  ultimately show ?thesis using sys_inv_insert [of ?u own row i d'] st by simp
qed

lemma sys_inv_sending:
  assumes inv: "sys_inv (d, own)" and i: "i \<in> own"
  shows "sys_inv (snd (UpdateStatus i ''SENT'' '''' '''' d), own - {i})"
proof -
  have "sys_inv (d, own - {i})" using inv by (auto simp: sys_inv_def)
  have ok: "row_ok d (r\<lparr>tl_Status := ''SENT'', tl_ResponseCode := '''', tl_AuthCode := '''', tl_RespondedAt := t\<rparr>)"
    if "r \<in> set (db_tran d)" "tl_ID r = i" for r t
    using sys_invD(3) [OF inv i that] rinvD(3) [OF sys_invD(1) [OF inv] that(1)] by (simp add: row_ok_def)
  let ?f = "\<lambda>r. r\<lparr>tl_Status := ''SENT'', tl_ResponseCode := '''', tl_AuthCode := '''', tl_RespondedAt := Some (db_now d)\<rparr>"
  have "reversal_inv (update_tran (\<lambda>r. tl_ID r = i) ?f d)"
    by (rule rinv_update_tran [OF sys_invD(1) [OF inv]]) (use ok in auto)
  then show ?thesis
    using sys_invD(2,3) [OF inv] unfolding UpdateStatus_def snd_conv by (intro sys_invI) (auto split: if_splits)
qed

lemma sys_inv_queue:
  assumes inv: "sys_inv (d, own)" and "clean_payload p" "st \<notin> {''CREATED'', ''REVERSAL_PENDING'', ''REVERSED''}"
  shows "sys_inv (snd (queue_tx i st reason p d), own)"
proof (rule sys_inv_keep [OF inv])
  show "reversal_inv (snd (queue_tx i st reason p d))"
    by (rule rinv_queue [OF sys_invD(1) [OF inv] assms(2)]) (use assms(3) in auto)
  fix r' assume "r' \<in> set (db_tran (snd (queue_tx i st reason p d)))"
  then obtain r where "r \<in> set (db_tran d)" "r' = (if tl_ID r = i \<and> tl_Status r = st
      then r\<lparr>tl_Status := statusReversalPending, tl_ReversalReasonCode := reason\<rparr> else r) \<or> r' = r"
    by (auto simp: queue_tx_def Let_def split: if_splits)
  with assms(3) show "\<exists>r \<in> set (db_tran d). tl_ID r = tl_ID r' \<and> (tl_Status r = ''CREATED'' \<longrightarrow> tl_Status r' = ''CREATED'')"
    by (intro bexI [of _ r]) auto
qed (simp add: queue_tx_def Let_def)

lemma sys_inv_acked:
  assumes inv: "sys_inv (d, own)"
  shows "sys_inv (snd (MarkAcked i d), own)"
proof (rule sys_inv_keep [OF inv])
  show "reversal_inv (snd (MarkAcked i d))" by (rule rinv_MarkAcked [OF sys_invD(1) [OF inv]])
  fix r' assume "r' \<in> set (db_tran (snd (MarkAcked i d)))"
  then show "\<exists>r \<in> set (db_tran d). tl_ID r = tl_ID r' \<and> (tl_Status r = ''CREATED'' \<longrightarrow> tl_Status r' = ''CREATED'')"
    by (fastforce simp: MarkAcked_def finishOnAck_def Let_def split: option.splits if_splits)
qed (simp add: MarkAcked_def finishOnAck_def Let_def split: option.split)

lemma sys_inv_step: "sys_step s s' \<Longrightarrow> sys_inv s \<Longrightarrow> sys_inv s'"
proof (induction rule: sys_step.induct)
  case (other d d' own)
  then show ?case by (auto simp: rinv_frame sys_inv_def) (auto simp: same_log_def)
next
  case (log row d i d' own)
  then show ?case using sys_inv_insert [of d own row i d'] by (simp add: Insert_def split: prod.splits)
next
  case (log_completion row rrn d i d' own)
  then show ?case by (intro sys_inv_completion)
next
  case (log_declined row d i d' own)
  then show ?case using sys_inv_insert [of d own row i d'] by (simp add: Insert_def split: prod.splits)
next
  case (give_up own' own d)
  then show ?case by (auto simp: sys_inv_def)
next
  case (sending i own d)
  then show ?case by (intro sys_inv_sending)
next
  case (answered st d own i rc ac)
  then show ?case
    unfolding UpdateStatusFrom_def by (auto simp: row_ok_def intro!: sys_inv_update)
next
  case (queue_reversal p st d own i reason)
  then show ?case by (intro sys_inv_queue)
next
  case (queue_advice p mti d own i)
  then have "reversal_inv (snd (enqueue_op i mti p d))" by (intro reversal.keeps_enqueue sys_invD(1))
  with queue_advice show ?case by (elim sys_inv_saf) (simp_all add: enqueue_op_def)
next
  case (sweep d own i)
  then show ?case unfolding MarkTimedOut_def by (auto simp: row_ok_def intro!: sys_inv_update)
next
  case (claim d own n lease)
  then show ?case by (intro sys_inv_saf [OF claim] reversal.keeps_ClaimDue sys_invD(1)) (simp_all add: ClaimDue_def Let_def)
next
  case (identify p d own i)
  then show ?case by (intro sys_inv_saf [OF identify(2)] reversal.keeps_UpdatePayload sys_invD(1)) (simp_all add: UpdatePayload_def)
next
  case (retry d own i a t e)
  then show ?case by (intro sys_inv_saf [OF retry] reversal.keeps_MarkInFlight sys_invD(1)) (simp_all add: MarkInFlight_def)
next
  case (dead d own i e)
  then show ?case by (intro sys_inv_saf [OF dead] reversal.keeps_MarkDead sys_invD(1)) (simp_all add: MarkDead_def)
next
  case (acked d own i)
  then show ?case by (intro sys_inv_acked)
next
  case (amounts d own i a b)
  then show ?case unfolding UpdateAmounts_def snd_conv by (rule sys_inv_update) (auto simp: row_ok_def)
next
  case (late d own rrn rc)
  then show ?case unfolding UpdateLateResponse_def snd_conv by (rule sys_inv_update) (auto simp: row_ok_def)
next
  case (release_claim d own rrn c)
  then show ?case unfolding ReleaseCompletion_def snd_conv by (rule sys_inv_update) (auto simp: row_ok_def)
qed (simp_all add: RecordStateTransition_def)

lemma sys_inv_reach: "sys_reach s \<Longrightarrow> sys_inv s"
proof (induction rule: sys_reach.induct)
  case (init d)
  then show ?case by (auto simp: sys_init_def reversal_inv_def saf_clean_def reversals_def intro!: sys_invI)
qed (rule sys_inv_step)

section \<open>The life of a transaction\<close>

text \<open>The abstract automaton of a transaction's status, and what never changes about a logged request.\<close>

definition statuses :: "string list" where
  "statuses = [''CREATED'', ''SENT'', ''APPROVED'', ''DECLINED'', ''TIMED_OUT'', ''REVERSAL_PENDING'', ''REVERSED'']"

definition lifecycle :: "string \<Rightarrow> string \<Rightarrow> bool" where
  "lifecycle a b \<longleftrightarrow> (a, b) \<in> set [(''CREATED'', ''SENT''), (''SENT'', ''APPROVED''), (''SENT'', ''DECLINED''), (''SENT'', ''TIMED_OUT''),
     (''SENT'', ''REVERSAL_PENDING''), (''APPROVED'', ''REVERSAL_PENDING''), (''DECLINED'', ''REVERSAL_PENDING''),
     (''TIMED_OUT'', ''REVERSAL_PENDING''), (''TIMED_OUT'', ''APPROVED''), (''REVERSAL_PENDING'', ''REVERSED'')]"

definition same_request :: "TranLogRow \<Rightarrow> TranLogRow \<Rightarrow> bool" where
  "same_request r r' \<longleftrightarrow> tl_ID r' = tl_ID r \<and> tl_RRN r' = tl_RRN r \<and> tl_Type r' = tl_Type r \<and> tl_MTI r' = tl_MTI r \<and>
     tl_Amount r' = tl_Amount r \<and> tl_Currency r' = tl_Currency r \<and> tl_NetworkSTAN r' = tl_NetworkSTAN r \<and> tl_CardToken r' = tl_CardToken r"

definition row_step :: "TranLogRow \<Rightarrow> TranLogRow \<Rightarrow> bool" where
  "row_step r r' \<longleftrightarrow> same_request r r' \<and> (tl_Status r' = tl_Status r \<or> lifecycle (tl_Status r) (tl_Status r'))"

text \<open>Rows are never removed; each keeps its place and moves at most one edge; new rows are CREATED, or DECLINED at once.\<close>

definition evolves :: "db \<Rightarrow> db \<Rightarrow> bool" where
  "evolves d d' \<longleftrightarrow> (\<exists>new. list_all (\<lambda>r. tl_Status r \<in> {''CREATED'', ''DECLINED''}) new \<and>
     (\<exists>old. db_tran d' = old @ new \<and> list_all2 row_step (db_tran d) old))"

lemma row_step_refl [simp]: "row_step r r"
  by (simp add: row_step_def same_request_def)

lemma evolves_same: "db_tran d' = db_tran d \<Longrightarrow> evolves d d'"
  unfolding evolves_def by (rule exI [of _ "[]"]) (simp add: list.rel_refl)

lemma evolves_update:
  assumes "\<And>r. r \<in> set (db_tran d) \<Longrightarrow> P r \<Longrightarrow> row_step r (f r)" "db_tran d' = db_tran (update_tran P f d)"
  shows "evolves d d'"
  unfolding evolves_def using assms by (intro exI [of _ "[]"]) (auto simp: list_all2_conv_all_nth)

lemma evolves_history: "evolves d d' \<Longrightarrow> evolves d (add_history i a b d')"
  by (simp add: evolves_def)

lemma evolves_insert:
  assumes "tl_Status row \<in> {''CREATED'', ''DECLINED''}" "insertTranLog row d = (i, d')" "list_all2 row_step (db_tran d0) (db_tran d)"
  shows "evolves d0 d'"
proof -
  obtain x where "db_tran d' = db_tran d @ [x]" "tl_Status x = tl_Status row" by (rule insertTranLog_effect [OF assms(2)])
  with assms(1,3) show ?thesis unfolding evolves_def by (intro exI [of _ "[x]"] conjI exI [of _ "db_tran d"]) simp_all
qed

text \<open>Every status of the log is one of the automaton.\<close>

definition statuses_ok :: "db \<Rightarrow> bool" where
  "statuses_ok d \<longleftrightarrow> list_all (\<lambda>r. tl_Status r \<in> set statuses) (db_tran d)"

lemma lifecycle_statuses: "lifecycle a b \<Longrightarrow> b \<in> set statuses"
  by (auto simp: lifecycle_def statuses_def)

lemma evolves_statuses: "evolves d d' \<Longrightarrow> statuses_ok d \<Longrightarrow> statuses_ok d'"
proof -
  assume "evolves d d'" and ok: "statuses_ok d"
  then obtain new old where n: "list_all (\<lambda>r. tl_Status r \<in> {''CREATED'', ''DECLINED''}) new"
    and o: "db_tran d' = old @ new" "list_all2 row_step (db_tran d) old" unfolding evolves_def by blast
  have "tl_Status r' \<in> set statuses" if "r' \<in> set old" for r'
    using that o(2) ok by (fastforce simp: in_set_conv_nth list_all2_conv_all_nth statuses_ok_def list_all_length row_step_def dest: lifecycle_statuses)
  moreover have "tl_Status r' \<in> set statuses" if "r' \<in> set new" for r' using that n by (auto simp: list_all_iff statuses_def)
  ultimately show ?thesis by (auto simp: statuses_ok_def list_all_iff o(1))
qed

text \<open>The two outcomes of an acknowledgement: \<open>finishOnAck\<close> moves along its edge.\<close>

lemma evolves_finish:
  assumes "lifecycle from to" "\<And>r. tl_Status (upd r) = to \<and> same_request r (upd r)" "db_tran d1 = db_tran d"
  shows "evolves d (finishOnAck t from to upd d1)"
proof (cases "affected (\<lambda>r. tl_ID r = t \<and> tl_Status r = from) d1 = 0")
  case True
  then show ?thesis by (intro evolves_same) (simp add: finishOnAck_def assms(3))
next
  case False
  show ?thesis
    by (rule evolves_update [where P = "\<lambda>r. tl_ID r = t \<and> tl_Status r = from" and f = upd])
      (use False assms in \<open>auto simp: finishOnAck_def row_step_def Let_def\<close>)
qed

lemmas edge_simps = row_step_def same_request_def lifecycle_def

lemma queue_evolves:
  assumes "statuses_ok d" "st \<notin> {''CREATED'', ''REVERSAL_PENDING'', ''REVERSED''}"
  shows "evolves d (snd (queue_tx i st reason p d))"
proof (cases "affected (\<lambda>r. tl_ID r = i \<and> tl_Status r = st) d = 0")
  case False
  show ?thesis
  proof (rule evolves_update [where P = "\<lambda>r. tl_ID r = i \<and> tl_Status r = st" and f = "\<lambda>r. r\<lparr>tl_Status := statusReversalPending, tl_ReversalReasonCode := reason\<rparr>"])
    fix r assume "r \<in> set (db_tran d)" "tl_ID r = i \<and> tl_Status r = st"
    moreover from this have "tl_Status r \<in> set statuses" using assms(1) by (auto simp: statuses_ok_def list_all_iff)
    ultimately have "tl_Status r \<in> {''SENT'', ''APPROVED'', ''DECLINED'', ''TIMED_OUT''}"
      using assms(2) by (auto simp: statuses_def)
    then show "row_step r (r\<lparr>tl_Status := statusReversalPending, tl_ReversalReasonCode := reason\<rparr>)"
      by (elim insertE) (simp_all add: edge_simps statusReversalPending_def)
  qed (use False in \<open>simp add: queue_tx_def Let_def\<close>)
qed (simp add: queue_tx_def evolves_same)

lemma sys_step_evolves:
  assumes "sys_step s s'" "sys_inv s" "statuses_ok (fst s)"
  shows "evolves (fst s) (fst s')"
  using assms
proof (induction rule: sys_step.induct)
  case (log row d i d' own)
  then show ?case using evolves_insert [of row d i d' d] by (simp add: Insert_def list.rel_refl split: prod.splits)
next
  case (log_declined row d i d' own)
  then show ?case using evolves_insert [of row d i d' d] by (simp add: Insert_def list.rel_refl split: prod.splits)
next
  case (log_completion row rrn d i d' own)
  let ?u = "update_tran (completable rrn) (\<lambda>r. r\<lparr>tl_CompletedBy := tl_RRN row\<rparr>) d"
  have "list_all2 row_step (db_tran d) (db_tran ?u)" by (auto simp: list_all2_conv_all_nth edge_simps)
  moreover have "insertTranLog row ?u = (i, d')"
    using log_completion(2) by (auto simp: InsertCompletion_def split: if_splits prod.splits)
  ultimately show ?case using evolves_insert [of row ?u i d' d] log_completion(1) by simp
next
  case (sending i own d)
  show ?case unfolding UpdateStatus_def fst_conv snd_conv
    by (rule evolves_update [OF _ refl]) (use sys_invD(3) [OF sending(2,1)] in \<open>auto simp: edge_simps\<close>)
next
  case (answered st d own i rc ac)
  then show ?case
    unfolding UpdateStatusFrom_def by (auto simp: edge_simps intro!: evolves_same evolves_update [OF _ refl])
next
  case (sweep d own i)
  then show ?case
    unfolding MarkTimedOut_def
    by (auto simp: edge_simps intro: evolves_same intro!: evolves_history evolves_update [OF _ refl])
next
  case (queue_reversal p st d own i reason)
  then show ?case by (simp add: queue_evolves)
next
  case (acked d own i)
  show ?case
    unfolding MarkAcked_def fst_conv
    by (auto simp: Let_def lifecycle_def same_request_def split: option.split intro!: evolves_finish intro: evolves_same)
next
  case (amounts d own i a b)
  show ?case unfolding UpdateAmounts_def fst_conv snd_conv by (rule evolves_update [OF _ refl]) (simp add: edge_simps)
next
  case (late d own rrn rc)
  show ?case unfolding UpdateLateResponse_def fst_conv snd_conv by (rule evolves_update [OF _ refl]) (simp add: edge_simps)
next
  case (release_claim d own rrn c)
  show ?case unfolding ReleaseCompletion_def fst_conv snd_conv by (rule evolves_update [OF _ refl]) (simp add: edge_simps)
qed (auto simp: same_log_def RecordStateTransition_def enqueue_op_def ClaimDue_def UpdatePayload_def MarkInFlight_def MarkDead_def Let_def intro!: evolves_same)

lemma statuses_reach: "sys_reach s \<Longrightarrow> statuses_ok (fst s)"
proof (induction rule: sys_reach.induct)
  case (init d)
  then show ?case by (simp add: sys_init_def statuses_ok_def)
next
  case (step s s')
  then show ?case using evolves_statuses [OF sys_step_evolves [OF step(2) sys_inv_reach [OF step(1)]]] by blast
qed

lemma sys_reach_steps: "sys_step\<^sup>*\<^sup>* s s' \<Longrightarrow> sys_reach s \<Longrightarrow> sys_reach s'"
  by (induction rule: rtranclp_induct) (auto intro: sys_reach.step)

lemma list_all2_member: "list_all2 P xs ys \<Longrightarrow> x \<in> set xs \<Longrightarrow> \<exists>y \<in> set ys. P x y"
  by (induction rule: list_all2_induct) auto

text \<open>Along any run a logged request keeps its identity and its status follows the automaton.\<close>

lemma row_follows_lifecycle:
  assumes "sys_step\<^sup>*\<^sup>* s s'" "sys_reach s" "r \<in> set (db_tran (fst s))"
  shows "\<exists>r' \<in> set (db_tran (fst s')). same_request r r' \<and> lifecycle\<^sup>*\<^sup>* (tl_Status r) (tl_Status r')"
  using assms(1)
proof (induction rule: rtranclp_induct)
  case base
  then show ?case using assms(3) by (auto simp: same_request_def)
next
  case (step t u)
  then obtain r1 where r1: "r1 \<in> set (db_tran (fst t))" "same_request r r1" "lifecycle\<^sup>*\<^sup>* (tl_Status r) (tl_Status r1)" by blast
  have t: "sys_reach t" by (rule sys_reach_steps [OF step(1) assms(2)])
  obtain old new where "db_tran (fst u) = old @ new" "list_all2 row_step (db_tran (fst t)) old"
    using sys_step_evolves [OF step(2) sys_inv_reach [OF t] statuses_reach [OF t]] by (auto simp: evolves_def)
  then obtain r2 where "r2 \<in> set (db_tran (fst u))" "row_step r1 r2"
    using r1(1) list_all2_member [of row_step "db_tran (fst t)" old r1] by auto
  with r1 show ?case by (intro bexI [of _ r2]) (auto simp: row_step_def same_request_def)
qed

end
