(* ===== verification/Gateway_Runs.thy ===== *)
theory Gateway_Runs
  imports Gateway_System
begin

text \<open>
  The gateway's operations take only the steps of \<open>Gateway_System\<close>: every request, and the background worker and sweeper,
  started in a reachable state and interleaved with other sessions that take such steps, ends in a state reached by such steps.
  What holds of all reachable states and along all runs therefore holds of the code: at most one reversal per transaction,
  and statuses that follow the automaton.
\<close>

section \<open>Runs of the system\<close>

definition reach_from :: "db \<times> int set \<Rightarrow> db \<Rightarrow> bool" where
  "reach_from s0 d \<longleftrightarrow> sys_reach s0 \<and> (\<exists>own. sys_step\<^sup>*\<^sup>* s0 (d, own))"

text \<open>This request has logged row \<open>i\<close> and not marked it SENT yet.\<close>

definition holding :: "db \<times> int set \<Rightarrow> int \<Rightarrow> db \<Rightarrow> bool" where
  "holding s0 i d \<longleftrightarrow> sys_reach s0 \<and> (\<exists>own. i \<in> own \<and> sys_step\<^sup>*\<^sup>* s0 (d, own))"

text \<open>The other sessions take steps of the system too, and never touch a row this request holds. (An interference is a function only because
  the schedule fixes what the others did at that point; anything they did in an actual run is such a function.)\<close>

definition tracks :: "db \<times> int set \<Rightarrow> gw \<Rightarrow> bool" where
  "tracks s0 w \<longleftrightarrow> gw_keeps (reach_from s0) w \<and>
     (\<forall>i. (\<forall>s \<in> set (w_sched w). \<forall>d. holding s0 i d \<longrightarrow> holding s0 i (sc_env s d)) \<and>
          (\<forall>s \<in> set (gw_sends w). \<forall>d. holding s0 i d \<longrightarrow> holding s0 i (so_env s d)))"

definition tracks_own :: "db \<times> int set \<Rightarrow> int \<Rightarrow> gw \<Rightarrow> bool" where
  "tracks_own s0 i w \<longleftrightarrow> tracks s0 w \<and> gw_keeps (holding s0 i) w"

lemma holding_reach: "holding s0 i d \<Longrightarrow> reach_from s0 d"
  by (auto simp: holding_def reach_from_def)

lemma tracks_ownI: "tracks s0 w \<Longrightarrow> holding s0 i (w_db w) \<Longrightarrow> tracks_own s0 i w"
  by (auto simp: tracks_own_def tracks_def gw_keeps_def)

lemma tracks_ownD: "tracks_own s0 i w \<Longrightarrow> tracks s0 w"
  by (simp add: tracks_own_def)

lemma tracks_cong:
  "tracks s0 w \<Longrightarrow> w_db w' = w_db w \<Longrightarrow> w_sched w' = w_sched w \<Longrightarrow> gw_sends w' = gw_sends w \<Longrightarrow> tracks s0 w'"
  by (simp add: tracks_def gw_keeps_def)

section \<open>Statements\<close>

text \<open>A statement that is a step whatever the state, and one that is a step once a condition on the database holds.\<close>

definition sys_op :: "'a dbop \<Rightarrow> bool" where
  "sys_op op \<longleftrightarrow> (\<forall>d own. sys_step (d, own) (snd (op d), own))"

lemma reach_from_step: "reach_from s0 d \<Longrightarrow> (\<And>own. \<exists>own'. sys_step (d, own) (d', own')) \<Longrightarrow> reach_from s0 d'"
  unfolding reach_from_def by (meson rtranclp.rtrancl_into_rtrancl)

lemma sys_op_keeps:
  assumes "sys_op op"
  shows "reach_from s0 d \<Longrightarrow> reach_from s0 (snd (op d))" "holding s0 i d \<Longrightarrow> holding s0 i (snd (op d))"
  using assms unfolding reach_from_def holding_def sys_op_def by (blast intro: rtranclp.rtrancl_into_rtrancl)+

lemma tracks_env_call: "tracks s0 w \<Longrightarrow> gw_keeps (reach_from s0) (snd (call op w)) \<Longrightarrow> tracks s0 (snd (call op w))"
  using call_sched [of op w] unfolding tracks_def by (auto dest: subsetD)

lemma tracks_call: "tracks s0 w \<Longrightarrow> sys_op op \<Longrightarrow> tracks s0 (snd (call op w))"
  by (rule tracks_env_call) (auto simp: tracks_def intro: gw_keeps_call sys_op_keeps)

lemma tracks_own_call: "tracks_own s0 i w \<Longrightarrow> sys_op op \<Longrightarrow> tracks_own s0 i (snd (call op w))"
  unfolding tracks_own_def by (auto intro: tracks_call gw_keeps_call sys_op_keeps)

lemma sys_op_other: "(\<And>d. same_log d (snd (op d))) \<Longrightarrow> sys_op op"
  by (auto simp: sys_op_def intro: sys_step.other)

named_theorems sys_ops

lemma idem_ops_seq:
  "db_saf_seq (snd (reserve_insert key route h d)) = db_saf_seq d" "db_saf_seq (snd (Reclaim key route h t d)) = db_saf_seq d"
  "db_saf_seq (snd (Store_response key route h st b d)) = db_saf_seq d" "db_saf_seq (snd (Release key route tok d)) = db_saf_seq d"
  "db_saf_seq (snd (idem_AttachRRN key route tok rrn d)) = db_saf_seq d"
  by (auto simp: reserve_insert_def Reclaim_def Store_response_def Release_def idem_AttachRRN_def update_idem_def Let_def split: option.splits)

lemma sys_op_reads [sys_ops]:
  "sys_op (Get rrn)" "sys_op (Merchant_of tid)" "sys_op (reserve_select key route)" "sys_op (reserve_insert key route h)"
  "sys_op (Reclaim key route h t)" "sys_op (Store_response key route h st b)" "sys_op (Release key route tok)"
  "sys_op (idem_AttachRRN key route tok rrn)" "sys_op (FindPending kt ow)" "sys_op (FindRecentlyRetired kt ow k)"
  "sys_op (RecordEvent sev easy tech)"
  by (rule sys_op_other;
      simp add: same_log_def idem_ops_frame idem_ops_seq reserve_select_def Get_def Merchant_of_def FindPending_def FindRecentlyRetired_def
        RecordEvent_def AppendEvent_def Let_def)+

lemma sys_op_steps [sys_ops]:
  "sys_op (RecordStateTransition i a b)" "sys_op (UpdateAmounts i x y)" "sys_op (UpdateLateResponse rrn rc)"
  "sys_op (ReleaseCompletion rrn c)"
  by (auto simp: sys_op_def intro: sys_step.intros)

lemma sys_op_answered [sys_ops]:
  "st \<in> {''APPROVED'', ''DECLINED'', ''TIMED_OUT''} \<Longrightarrow> sys_op (UpdateStatusFrom i ''SENT'' st rc ac)"
  by (auto simp: sys_op_def intro: sys_step.answered)

lemma sys_op_queue [sys_ops]:
  "clean_payload p \<Longrightarrow> st \<notin> {''CREATED'', ''REVERSAL_PENDING'', ''REVERSED''} \<Longrightarrow> sys_op (queue_tx i st reason p)"
  "clean_payload p \<Longrightarrow> mti \<noteq> ''0420'' \<Longrightarrow> sys_op (enqueue_op i mti p)"
  by (auto simp: sys_op_def intro: sys_step.queue_reversal sys_step.queue_advice)

lemma sys_op_Insert_declined [sys_ops]: "tl_Status row = ''DECLINED'' \<Longrightarrow> sys_op (Insert row)"
  by (auto simp: sys_op_def Insert_def split: prod.split intro!: sys_step.log_declined [of row])

section \<open>Logging, sending, verifying\<close>

lemma reach_from_holding: "reach_from s0 d \<Longrightarrow> (\<And>own. sys_step (d, own) (d', insert i own)) \<Longrightarrow> holding s0 i d'"
  unfolding reach_from_def holding_def by (meson insertI1 rtranclp.rtrancl_into_rtrancl)

text \<open>A statement that logs a CREATED row: whatever is reported, the run goes on; when the id is reported, the row is held.\<close>

lemma tracks_log:
  assumes w: "tracks s0 w" and op: "\<And>d i d' own. op d = (Inr i, d') \<Longrightarrow> sys_step (d, own) (d', insert i own)"
    "\<And>d e d'. op d = (Inl e, d') \<Longrightarrow> d' = d" and c: "call op w = (r, w')"
  shows "tracks s0 w' \<and> (\<forall>i. r = Inr i \<longrightarrow> tracks_own s0 i w')"
proof -
  have keeps: "reach_from s0 (snd (op d))" if "reach_from s0 d" for d
  proof (cases "fst (op d)")
    case (Inl e)
    with op(2) [of d e "snd (op d)"] that show ?thesis by (metis prod.collapse)
  next
    case (Inr i)
    then have "holding s0 i (snd (op d))" by (intro reach_from_holding [OF that] op(1)) (metis prod.collapse)
    then show ?thesis by (rule holding_reach)
  qed
  have t: "tracks s0 w'" using tracks_env_call [OF w gw_keeps_call [of "reach_from s0" w op]] w c keeps by (simp add: tracks_def)
  moreover have "tracks_own s0 i w'" if i: "r = Inr i" for i
  proof -
    obtain d0 where "reach_from s0 d0" "op d0 = (Inr i, w_db w')"
      using call_ok [of "reach_from s0" w op i w'] w c i by (auto simp: tracks_def)
    with op(1) have "holding s0 i (w_db w')" by (intro reach_from_holding)
    with t show ?thesis by (rule tracks_ownI)
  qed
  ultimately show ?thesis by blast
qed

lemma tracks_Insert:
  assumes "tracks s0 w" "tl_Status row = ''CREATED''" "call (Insert row) w = (r, w')"
  shows "tracks s0 w' \<and> (\<forall>i. r = Inr i \<longrightarrow> tracks_own s0 i w')"
  by (rule tracks_log [OF assms(1) _ _ assms(3)]) (auto simp: assms(2) Insert_def split: prod.splits intro: sys_step.log [OF assms(2)])

lemma tracks_InsertCompletion:
  assumes "tracks s0 w" "tl_Status row = ''CREATED''" "call (InsertCompletion row rrn) w = (r, w')"
  shows "tracks s0 w' \<and> (\<forall>i. r = Inr i \<longrightarrow> tracks_own s0 i w')"
  by (rule tracks_log [OF assms(1) _ _ assms(3)])
    (use assms(2) in \<open>auto intro: sys_step.log_completion\<close>, simp add: InsertCompletion_def split: if_splits prod.splits)

lemma tracks_sending:
  assumes "tracks_own s0 i w"
  shows "tracks s0 (snd (call (UpdateStatus i ''SENT'' '''' '''') w))"
proof (rule tracks_env_call)
  show "tracks s0 w" using assms by (rule tracks_ownD)
  let ?op = "UpdateStatus i ''SENT'' '''' ''''"
  have k: "gw_keeps (holding s0 i) w" using assms by (simp add: tracks_own_def)
  have s: "reach_from s0 (snd (?op d))" if "holding s0 i d" for d
    using that unfolding holding_def reach_from_def by (blast intro: rtranclp.rtrancl_into_rtrancl sys_step.sending)
  have "reach_from s0 (w_db (snd (call ?op w)))"
    using k by (cases w ?op rule: call_cases) (auto simp: gw_keeps_def intro: s holding_reach)
  moreover have "set (w_sched (snd (call ?op w))) \<subseteq> set (w_sched w)" by (rule call_sched)
  ultimately show "gw_keeps (reach_from s0) (snd (call ?op w))"
    using tracks_ownD [OF assms] by (auto simp: tracks_def gw_keeps_def)
qed

lemma tracks_Send: "tracks s0 w \<Longrightarrow> tracks s0 (snd (mux_Send mti fs w))"
  by (auto simp: tracks_def gw_keeps_def mux_Send_def split: list.split)

lemma tracks_links: "tracks s0 w \<Longrightarrow> tracks s0 (snd (sup_NextSTAN w))" "tracks s0 w \<Longrightarrow> tracks s0 (snd (IsSignedOn w))"
  "tracks s0 w \<Longrightarrow> tracks s0 (Broadcast e w)"
  by (erule tracks_cong; simp add: IsSignedOn_def Broadcast_def)+

lemma Verify_keeps:
  assumes ro: "\<And>v t ow. K v \<Longrightarrow> K (snd (call (FindPending t ow) v))" "\<And>v t ow k. K v \<Longrightarrow> K (snd (call (FindRecentlyRetired t ow k) v))"
    and "K w"
  shows "K (snd (Verify g zak mti resp w))"
proof -
  have "K (snd (FallbackKeys t ow k w))" for t ow k
    using ro(1) [OF assms(3), of t ow] ro(2) [of "snd (call (FindPending t ow) w)" t ow k]
    by (auto simp: FallbackKeys_def split: prod.splits sum.splits)
  then have "K (snd (fallbackZAKs w))"
    by (auto simp: fallbackZAKs_def split: prod.splits sum.splits) (metis snd_conv)+
  with assms(3) show ?thesis
    by (auto simp: Verify_def macMatchesRecentlyRetiredZAK_def Let_def split: option.splits sum.splits if_splits prod.splits)
qed

lemma tracks_Verify: "tracks s0 w \<Longrightarrow> tracks s0 (snd (Verify g zak mti resp w))"
  by (rule Verify_keeps [where K = "tracks s0"]) (auto intro: tracks_call sys_ops)

lemma tracks_Queue:
  assumes "tracks s0 w" "tl_Status row \<notin> {''CREATED'', ''REVERSAL_PENDING'', ''REVERSED''}"
  shows "tracks s0 (snd (Queue g row reason w))"
  using assms by (auto simp: Queue_def split: sum.splits intro!: tracks_call sys_ops intro: encodePayload_clean reversalAdvice_clean)

lemma tracks_QueueAdvice: "tracks s0 w \<Longrightarrow> mti \<noteq> ''0420'' \<Longrightarrow> tracks s0 (snd (QueueAdvice g i mti sent w))"
  by (auto simp: QueueAdvice_def advice_filter_clean split: sum.splits intro!: tracks_call sys_ops elim: encodePayload_clean)

section \<open>Purchases\<close>

text \<open>The outcomes of a send, and the status a request reports after recording one.\<close>

abbreviation outcome_states :: "string set" where
  "outcome_states \<equiv> {''APPROVED'', ''DECLINED'', ''TIMED_OUT''}"

lemma tracks_recordStatus:
  assumes "tracks s0 w" "tx_Status txn \<in> outcome_states"
  shows "tracks s0 (snd (recordStatus i txn w))"
  unfolding recordStatus_def
proof (rule bind_snd [where K = "tracks s0"])
  show "tracks s0 (snd (call (UpdateStatusFrom i ''SENT'' (tx_Status txn) (tx_ResponseCode txn) (tx_AuthCode txn)) w))"
    using assms by (intro tracks_call sys_ops)
  show "tracks s0 (snd (case call (RecordStateTransition i ''SENT'' (tx_Status txn)) w1 of
      (Inl e, w2) \<Rightarrow> ((tx_Status txn, Some e), w2) | (Inr _, w2) \<Rightarrow> ((tx_Status txn, None), w2)))" if "tracks s0 w1" for w1
    by (rule bind_snd [where K = "tracks s0"]) (auto intro: tracks_call sys_ops that)
qed simp

lemma recordStatus_current:
  "recordStatus i txn w = ((current, e), w') \<Longrightarrow> current = ''SENT'' \<or> current = tx_Status txn"
  by (auto simp: recordStatus_def split: prod.splits sum.splits)

lemma tracks_finalizeSendResult:
  assumes "tracks s0 w" "tx_Status txn \<in> outcome_states"
  shows "tracks s0 (snd (finalizeSendResult g row txn macFailed w))"
proof -
  obtain current recordErr w1 where r: "recordStatus (tl_ID row) txn w = ((current, recordErr), w1)" by (metis prod.exhaust)
  have t: "tracks s0 w1" using tracks_recordStatus [OF assms, of "tl_ID row"] r by simp
  have "tracks s0 (snd (Queue g (row\<lparr>tl_Status := current\<rparr>) reason w1))" for reason
    using recordStatus_current [OF r] assms(2) by (intro tracks_Queue [OF t]) auto
  with t show ?thesis
    unfolding finalizeSendResult_def r Let_def prod.case
    by (intro if_snd [where K = "tracks s0"] bind_snd [where K = "tracks s0"]) simp_all
qed

lemma tracks_mapSendOutcome:
  assumes "tracks s0 w" "mapSendOutcome g txn result w = ((t, m), w')"
  shows "tracks s0 w' \<and> tx_Status t \<in> outcome_states"
proof (cases result)
  case (Inr resp)
  obtain b w1 where v: "Verify (mac_env.truncate g) (gw_zak w) ''0210'' resp w = (b, w1)" by fastforce
  have "tracks s0 w1" using tracks_Verify [OF assms(1), of "mac_env.truncate g" "gw_zak w" "''0210''" resp] v by simp
  moreover from this have "tracks s0 (w1\<lparr>gw_macFailures := gw_macFailures w1 + 1\<rparr>)" by (rule tracks_cong) simp_all
  ultimately show ?thesis using assms(2) Inr v by (cases b) (auto simp: mapSendOutcome_def Let_def)
qed (use assms in \<open>auto simp: mapSendOutcome_def SendFailureStatus_def split: if_splits\<close>)

lemma tracks_duplicate: "tracks s0 w \<Longrightarrow> tracks s0 (sendDuplicateIfActive fs w)"
proof -
  assume w: "tracks s0 w"
  have "tracks s0 (snd (duplicateHook w))" by (rule tracks_cong [OF w]) (simp_all add: duplicateHook_def split: list.split)
  then show ?thesis by (auto simp: sendDuplicateIfActive_def split: prod.split bool.split intro: tracks_Send)
qed

lemma snd_rewrap: "snd (case p of (r, v) \<Rightarrow> (f r, v)) = snd p" "snd (snd (case p of (r, v) \<Rightarrow> (f r, h, v))) = snd p"
  by (cases p; simp)+

lemma tracks_sendPurchase_sent:
  assumes "tracks s0 w"
  shows "tracks s0 (snd (sendPurchase_sent g req merchant maskedPAN stan now i fs w))"
proof -
  define w1 where "w1 = sendDuplicateIfActive fs w"
  obtain result w2 where m: "mux_Send ''0200'' fs w1 = (result, w2)" by fastforce
  obtain t mf w3 where o: "mapSendOutcome g (baseTransaction g req merchant (BuildRRN now stan) stan maskedPAN now) result w2 = ((t, mf), w3)"
    by (metis prod.exhaust)
  have "tracks s0 w2" using tracks_Send [of s0 w1 "''0200''" fs] tracks_duplicate [OF assms, of fs] m by (simp add: w1_def)
  then have "tracks s0 w3" "tx_Status t \<in> outcome_states" using tracks_mapSendOutcome o by blast+
  then show ?thesis
    unfolding sendPurchase_sent_def w1_def [symmetric] m o prod.case Let_def
    unfolding snd_rewrap by (intro tracks_finalizeSendResult) (auto split: sum.split)
qed

lemma tracks_own_AttachRRN: "tracks_own s0 i w \<Longrightarrow> tracks_own s0 i (snd (snd (AttachRRN rrn held w)))"
proof (cases held)
  case (Some h)
  assume "tracks_own s0 i w"
  then have "tracks_own s0 i (snd (call (idem_AttachRRN (rv_key h) (rv_route h) (rv_token h) rrn) w))"
    by (rule tracks_own_call) (rule sys_ops)
  then show ?thesis using Some by (auto simp: AttachRRN_def split: prod.split sum.split)
qed (simp add: AttachRRN_def)

lemma tracks_sendPurchase_logged:
  assumes "tracks_own s0 i w"
  shows "tracks s0 (snd (snd (sendPurchase_logged g req merchant maskedPAN stan now i fs held w)))"
  unfolding sendPurchase_logged_def
proof (rule bind_held [where K = "tracks s0"])
  have a: "tracks_own s0 i (snd (snd (AttachRRN (BuildRRN now stan) held w)))" by (rule tracks_own_AttachRRN [OF assms])
  then show "tracks s0 (snd (snd (AttachRRN (BuildRRN now stan) held w)))" by (rule tracks_ownD)
  fix x h1 w1 assume "AttachRRN (BuildRRN now stan) held w = (Inr x, h1, w1)"
  with a have w1: "tracks_own s0 i w1" by simp
  show "tracks s0 (snd (snd (case call (UpdateStatus i ''SENT'' '''' '''') w1 of
      (Inl e, w2) \<Rightarrow> (Inl e, h1, w2)
    | (Inr _, w2) \<Rightarrow> (case call (RecordStateTransition i ''CREATED'' ''SENT'') w2 of
          (Inl e, w3) \<Rightarrow> (Inl e, h1, w3)
        | (Inr _, w3) \<Rightarrow> (case sendPurchase_sent g req merchant maskedPAN stan now i fs w3 of (r, w4) \<Rightarrow> (r, h1, w4))))))"
    by (intro bind_snd_snd [where K = "tracks s0"] tracks_sending [OF w1])
      (auto simp: snd_rewrap intro: tracks_call sys_ops tracks_sendPurchase_sent)
qed simp

lemma tracks_sendPurchase:
  assumes "tracks s0 w"
  shows "tracks s0 (snd (snd (sendPurchase g req crd merchant maskedPAN stan held w)))"
proof -
  define row where "row = purchase_row g req merchant maskedPAN stan (gw_now w)"
  obtain r w1 where c: "call (Insert row) w = (r, w1)" by fastforce
  have "tracks s0 w1 \<and> (\<forall>i. r = Inr i \<longrightarrow> tracks_own s0 i w1)"
    by (rule tracks_Insert [OF assms _ c]) (simp add: row_def purchase_row_def)
  then show ?thesis
    unfolding sendPurchase_def Let_def row_def [symmetric] c
    by (auto split: sum.split intro: tracks_sendPurchase_logged)
qed

lemma tracks_recordLinkDown: "tracks s0 w \<Longrightarrow> tracks s0 (snd (recordLinkDown g txn req merchant w))"
  unfolding recordLinkDown_def by (rule bind_snd [where K = "tracks s0"]) (auto intro!: tracks_call sys_ops)

lemma tracks_createPurchase:
  assumes "tracks s0 w"
  shows "tracks s0 (snd (snd (createPurchase g req held w)))"
proof -
  obtain r1 w1 where c1: "resolveCardAndMerchant g req w = (r1, w1)" by fastforce
  obtain stan w2 where c2: "sup_NextSTAN w1 = (stan, w2)" by fastforce
  obtain b w3 where c3: "IsSignedOn w2 = (b, w3)" by fastforce
  have "tracks s0 (snd (resolveCardAndMerchant g req w))"
    unfolding resolveCardAndMerchant_def
    by (auto simp: assms split: option.split intro!: bind_snd [where K = "tracks s0"] tracks_call sys_ops)
  then have t: "tracks s0 w1" "tracks s0 w3"
    using c1 c2 c3 tracks_links(1) [of s0 w1] tracks_links(2) [of s0 w2] by simp_all
  have down: "tracks s0 (snd (snd (case recordLinkDown g txn req merchant w3 of
        (Inl e, w4) \<Rightarrow> (Inl e, held, w4) | (Inr _, w4) \<Rightarrow> (Inr txn, held, Broadcast ev w4))))" for txn ev merchant
    by (rule bind_snd_snd [where K = "tracks s0"]) (auto intro: tracks_recordLinkDown t tracks_links)
  have sent: "tracks s0 (snd (snd (case sendPurchase g req crd merchant m x held w3 of
        (Inl e, h, w4) \<Rightarrow> (Inl e, h, w4) | (Inr txn, h, w4) \<Rightarrow> (Inr txn, h, Broadcast (ev txn) w4))))" for m x ev crd merchant
    by (rule bind_held [where K = "tracks s0"]) (auto intro: tracks_sendPurchase t tracks_links)
  show ?thesis
    using c1 c2 c3 t down sent by (auto simp: createPurchase_def Let_def split: option.split sum.split)
qed

lemma tracks_client: "idem_client (tracks s0) None" "idem_client (tracks s0) (Some fromLog)" "idem_client (tracks s0) (Some adv_fromLog)"
proof -
  have "tracks s0 (snd (fromLog rrn w))" "tracks s0 (snd (adv_fromLog rrn w))" if "tracks s0 w" for rrn w
    using tracks_call [OF that sys_op_reads(1), of rrn] by (auto simp: fromLog_def adv_fromLog_def split: prod.split sum.split)
  then show "idem_client (tracks s0) None" "idem_client (tracks s0) (Some fromLog)" "idem_client (tracks s0) (Some adv_fromLog)"
    by (unfold_locales; auto intro: tracks_call sys_ops)+
qed

interpretation tracked_cancel: idem_phases "tracks s0" "tracks s0" None for s0
  by (intro idem_phases.intro idem_phases_axioms.intro tracks_client)

interpretation tracked_purchase: idem_phases "tracks s0" "tracks s0" "Some fromLog" for s0
  by (intro idem_phases.intro idem_phases_axioms.intro tracks_client)

interpretation tracked_adv: idem_phases "tracks s0" "tracks s0" "Some adv_fromLog" for s0
  by (intro idem_phases.intro idem_phases_axioms.intro tracks_client)

lemma tracks_cancelPurchase:
  assumes "tracks s0 w"
  shows "tracks s0 (snd (snd (cancelPurchase g rrn held w)))"
  unfolding cancelPurchase_def
proof (rule bind_snd_snd [where K = "tracks s0"])
  show "tracks s0 (snd (call (Get rrn) w))" by (intro tracks_call assms sys_ops)
  fix row w1 assume w1: "tracks s0 w1"
  show "tracks s0 (snd (snd (if tl_Type row \<noteq> ''PURCHASE'' \<or> tl_Status row \<noteq> ''APPROVED'' then (Inl [ErrNotReversible], held, w1)
      else (case Queue g row ''17'' w1 of
              (Inl e, w2) \<Rightarrow> (Inl e, held, w2)
            | (Inr _, w2) \<Rightarrow>
                let txn = transactionFromRow (row\<lparr>tl_Status := ''REVERSAL_PENDING'', tl_ReversalReasonCode := ''17''\<rparr>)
                in (Inr txn, held, Broadcast (HubTransaction ''transaction.updated'' txn) w2)))))"
    using w1 tracks_Queue [OF w1, of row g "''17''"] by (auto simp: Let_def tracks_links split: prod.split sum.split)
qed simp

lemma tracks_BroadcastUpdate: "tracks s0 w \<Longrightarrow> tracks s0 (snd (BroadcastUpdate rrn w))"
  unfolding BroadcastUpdate_def by (rule bind_snd [where K = "tracks s0"]) (auto intro: tracks_call sys_ops tracks_links)

lemma tracks_RecordLateResponse: "tracks s0 w \<Longrightarrow> tracks s0 (snd (RecordLateResponse rrn rc w))"
  unfolding RecordLateResponse_def Let_def
  by (intro bind_snd [where K = "tracks s0"] if_snd [where K = "tracks s0"])
    (auto intro: tracks_call sys_ops tracks_links tracks_BroadcastUpdate)

section \<open>Pre-authorizations, completions, refunds, balance inquiries\<close>

lemma tracks_nextSTAN: "tracks s0 w \<Longrightarrow> tracks s0 (snd (nextSTAN w))"
  using tracks_links(1) [of s0 w] tracks_links(2) [of s0 "snd (sup_NextSTAN w)"]
  by (auto simp: nextSTAN_def split: prod.split option.split bool.split)

lemma tracks_finalizeFields: "tracks s0 w \<Longrightarrow> tracks s0 (snd (finalizeFields g p w))"
  unfolding finalizeFields_def Let_def
  by (rule bind_snd [where K = "tracks s0"]) (auto intro: tracks_call sys_ops split: sum.split)

lemma tracks_outcome:
  assumes "tracks s0 w" "outcome g p result w = ((t, m), w')"
  shows "tracks s0 w' \<and> tx_Status t \<in> outcome_states"
proof (cases result)
  case (Inr resp)
  obtain b w1 where v: "Verify (mac_env.truncate g) (gw_zak w) (responseMTI (sp_mti p)) resp w = (b, w1)" by fastforce
  have "tracks s0 w1" using tracks_Verify [OF assms(1), of "mac_env.truncate g" "gw_zak w" "responseMTI (sp_mti p)" resp] v by simp
  moreover from this have "tracks s0 (w1\<lparr>gw_macFailures := gw_macFailures w1 + 1\<rparr>)" by (rule tracks_cong) simp_all
  ultimately show ?thesis
    using assms(2) Inr v by (cases b) (auto simp: outcome_def mapResponseToTransaction_def Let_def split: if_splits)
qed (use assms in \<open>auto simp: outcome_def SendFailureStatus_def split: if_splits\<close>)

lemma tracks_recordAmounts: "tracks s0 w \<Longrightarrow> tracks s0 (snd (recordAmounts i txn w))"
  by (auto simp: recordAmounts_def snd_rewrap intro: tracks_call sys_ops)

lemma tracks_releaseClaim: "tracks s0 w \<Longrightarrow> tracks s0 (snd (releaseClaim p w))"
  by (auto simp: releaseClaim_def snd_rewrap intro: tracks_call sys_ops)

lemma tracks_reverseIfOwed:
  assumes "tracks s0 w" "tl_Status row \<notin> {''CREATED'', ''REVERSAL_PENDING'', ''REVERSED''}"
  shows "tracks s0 (snd (reverseIfOwed g row txn macFailed e w))"
  unfolding reverseIfOwed_def Let_def
  by (intro if_snd [where K = "tracks s0"] bind_snd [where K = "tracks s0"] tracks_Queue assms) (simp_all add: assms(1))

lemma tracks_finalize:
  assumes "tracks s0 w" "tx_Status txn \<in> outcome_states" "sp_mti p \<noteq> ''0420''"
  shows "tracks s0 (snd (finalize g p row txn macFailed w))"
proof -
  obtain current e w1 where r: "recordStatus (tl_ID row) txn w = ((current, e), w1)" by (metis prod.exhaust)
  obtain f w2 where a: "recordAmounts (tl_ID row) txn w1 = (f, w2)" by fastforce
  have t1: "tracks s0 w1" using tracks_recordStatus [OF assms(1,2), of "tl_ID row"] r by simp
  then have t2: "tracks s0 w2" using tracks_recordAmounts [of s0 w1 "tl_ID row" txn] a by simp
  have rev: "tracks s0 (snd (reverseIfOwed g (row\<lparr>tl_Status := current\<rparr>) txn macFailed x w2))" for x
    using recordStatus_current [OF r] assms(2) by (intro tracks_reverseIfOwed [OF t2]) auto
  have adv: "tracks s0 (snd (case QueueAdvice g (tl_ID row) (sp_mti p) (sp_fields p) w2 of
      (Inl e, w3) \<Rightarrow> (Inl (h e), w3) | (Inr _, w3) \<Rightarrow> (k, w3)))" for h and k :: "goerror + Transaction"
    by (rule bind_snd [where K = "tracks s0"]) (auto intro: tracks_QueueAdvice [OF t2 assms(3)])
  show ?thesis
    unfolding finalize_def advtxn_copies r a prod.case Let_def
    by (intro if_snd [where K = "tracks s0"]) (auto simp: snd_rewrap t1 t2 rev adv intro: tracks_releaseClaim)
qed

lemma tracks_send_sent:
  assumes "tracks s0 w" "sp_mti p \<noteq> ''0420''"
  shows "tracks s0 (snd (send_sent g p merchant i w))"
proof -
  obtain result w1 where m: "mux_Send (sp_mti p) (sp_fields p) w = (result, w1)" by fastforce
  obtain t mf w2 where o: "outcome g p result w1 = ((t, mf), w2)" by (metis prod.exhaust)
  have "tracks s0 w1" using tracks_Send [OF assms(1), of "sp_mti p" "sp_fields p"] m by simp
  then have "tracks s0 w2" "tx_Status t \<in> outcome_states" using tracks_outcome o by blast+
  with assms(2) show ?thesis
    unfolding send_sent_def m o prod.case Let_def snd_rewrap
    by (intro tracks_finalize) (auto simp: describe_def split: sum.split)
qed

lemma tracks_markSending:
  assumes "tracks_own s0 i w"
  shows "tracks s0 (snd (snd (markSending i p held w)))"
  unfolding markSending_def
proof (rule bind_held [where K = "tracks s0"])
  have a: "tracks_own s0 i (snd (snd (AttachRRN (sp_rrn p) held w)))" by (rule tracks_own_AttachRRN [OF assms])
  then show "tracks s0 (snd (snd (AttachRRN (sp_rrn p) held w)))" by (rule tracks_ownD)
  fix x h1 w1 assume "AttachRRN (sp_rrn p) held w = (Inr x, h1, w1)"
  with a have w1: "tracks_own s0 i w1" by simp
  show "tracks s0 (snd (snd (case transition i ''CREATED'' ''SENT'' '''' '''' w1 of (r, w2) \<Rightarrow> (r, h1, w2))))"
    unfolding snd_rewrap transition_def
    by (rule bind_snd [where K = "tracks s0", OF tracks_sending [OF w1]]) (auto intro: tracks_call sys_ops)
qed simp

lemma tracks_insert_request:
  assumes "tracks s0 w" "insert_request p (request_row_of g p merchant) w = (r, w')"
  shows "tracks s0 w' \<and> (\<forall>i. r = Inr i \<longrightarrow> tracks_own s0 i w')"
proof -
  have "tl_Status (request_row_of g p merchant) = ''CREATED''" by (simp add: request_row_of_def)
  with assms show ?thesis
    by (cases "sp_txnType p = ''COMPLETION''") (auto simp: insert_request_def dest: tracks_Insert tracks_InsertCompletion)
qed

lemma tracks_sendAndRecord:
  assumes "tracks s0 w" "sp_mti p \<noteq> ''0420''"
  shows "tracks s0 (snd (snd (sendAndRecord g p merchant held w)))"
proof -
  obtain r w1 where c: "insert_request p (request_row_of g p merchant) w = (r, w1)" by fastforce
  have t: "tracks s0 w1" "r = Inr i \<Longrightarrow> tracks_own s0 i w1" for i using tracks_insert_request [OF assms(1) c] by auto
  have "tracks s0 (snd (snd (case markSending i p held w1 of
      (Inl e, held1, w2) \<Rightarrow> (case releaseClaim p w2 of (f, w3) \<Rightarrow> (Inl (h e f), held1, w3))
    | (Inr _, held1, w2) \<Rightarrow> (case send_sent g p merchant i w2 of (r, w3) \<Rightarrow> (r, held1, w3)))))" if "r = Inr i" for i h
    by (rule bind_held [where K = "tracks s0", OF tracks_markSending [OF t(2) [OF that]]])
      (simp_all add: snd_rewrap tracks_releaseClaim tracks_send_sent [OF _ assms(2)])
  with t(1) show ?thesis unfolding sendAndRecord_def c by (auto split: sum.split)
qed

lemma tracks_send:
  assumes "tracks s0 w" "sp_mti p \<noteq> ''0420''"
  shows "tracks s0 (snd (snd (send g p held w)))"
  unfolding send_def
proof (rule bind_snd_snd [where K = "tracks s0"])
  show "tracks s0 (snd (finalizeFields g (p\<lparr>sp_businessDate := Current (ge_calendar g) (sp_sentAt p)\<rparr>) w))"
    by (rule tracks_finalizeFields [OF assms(1)])
  fix mp w1 assume c: "finalizeFields g (p\<lparr>sp_businessDate := Current (ge_calendar g) (sp_sentAt p)\<rparr>) w = (Inr mp, w1)"
    and w1: "tracks s0 w1"
  obtain merchant p1 where mp: "mp = (merchant, p1)" by fastforce
  have mti: "sp_mti p1 \<noteq> ''0420''"
    using c assms(2) mp by (auto simp: finalizeFields_def Let_def split: prod.splits sum.splits)
  have down: "tracks s0 (snd (adv_recordLinkDown g p1 merchant w1))"
    unfolding adv_recordLinkDown_def Let_def
    by (rule bind_snd [where K = "tracks s0"]) (auto intro!: tracks_call sys_ops w1)
  show "tracks s0 (snd (snd (case mp of (merchant, p1) \<Rightarrow>
      if \<not> sp_linkUp p1 then (case adv_recordLinkDown g p1 merchant w1 of
           (Inl e, w2) \<Rightarrow> (Inl e, held, w2)
         | (Inr txn, w2) \<Rightarrow> (Inr txn, held, Broadcast (HubTransaction ''transaction.created'' txn) w2))
      else (case sendAndRecord g p1 merchant held w1 of
           (Inl e, held1, w2) \<Rightarrow> (Inl e, held1, w2)
         | (Inr txn, held1, w2) \<Rightarrow> (Inr txn, held1, Broadcast (HubTransaction ''transaction.created'' txn) w2)))))"
    unfolding mp prod.case
    by (cases "sp_linkUp p1")
      (simp_all add: tracks_links bind_snd_snd [where K = "tracks s0", OF down]
        bind_held [where K = "tracks s0", OF tracks_sendAndRecord [OF w1 mti, of g merchant held]])
qed simp

lemma tracks_creates:
  assumes w: "tracks s0 w"
  shows "tracks s0 (snd (snd (createPreAuth g req held w)))" "tracks s0 (snd (snd (createRefund g req held w)))"
    "tracks s0 (snd (snd (createBalanceInquiry g breq held w)))" "tracks s0 (snd (snd (createCompletion g rrn amount held w)))"
proof -
  have n: "tracks s0 v \<Longrightarrow> (\<And>stan up v1. sp_mti (q stan up v1) \<noteq> ''0420'') \<Longrightarrow>
      tracks s0 (snd (snd (case nextSTAN v of ((stan, up), v1) \<Rightarrow> send g (q stan up v1) held v1)))" for v q
    using tracks_nextSTAN [of s0 v] by (auto split: prod.split intro: tracks_send)
  show "tracks s0 (snd (snd (createPreAuth g req held w)))" "tracks s0 (snd (snd (createRefund g req held w)))"
    "tracks s0 (snd (snd (createBalanceInquiry g breq held w)))"
    unfolding createPreAuth_def createRefund_def createBalanceInquiry_def
    by (auto simp: w preauth_params_def refund_params_def balance_params_def split: option.split intro!: n)
  show "tracks s0 (snd (snd (createCompletion g rrn amount held w)))"
    unfolding createCompletion_def
  proof (rule bind_snd_snd [where K = "tracks s0"])
    show "tracks s0 (snd (call (Get rrn) w))" by (intro tracks_call w sys_ops)
    fix x w1 assume w1: "tracks s0 w1"
    then show "tracks s0 (snd (snd (if tl_Type x \<noteq> ''PREAUTH'' \<or> tl_Status x \<noteq> ''APPROVED'' \<or> tl_CompletedBy x \<noteq> []
          then (Inl [ErrNotCompletable], held, w1)
          else if tl_Amount x < mo_Amount amount then (Inl [ErrExceedsHold], held, w1)
          else (case nextSTAN w1 of ((stan, linkUp), w2) \<Rightarrow> send g (completion_params rrn amount x stan linkUp (gw_now w2)) held w2))))"
      by (auto simp: completion_params_def intro!: n)
  qed simp
qed

section \<open>Worker and sweeper\<close>

lemma reach_from_inv: "reach_from s0 d \<Longrightarrow> \<exists>own. sys_reach (d, own) \<and> sys_inv (d, own)"
  unfolding reach_from_def using sys_reach_steps sys_inv_reach by blast

interpretation steps: saf_invariant "reach_from s0" for s0
proof
  fix d p i status reason mti n lease a t e
  assume d: "reach_from s0 d"
  then show "saf_clean d" using reach_from_inv sys_invD(1) rinvD(1) by blast
  have s: "reach_from s0 d'" if "\<And>own. sys_step (d, own) (d', own)" for d' using reach_from_step [OF d] that by blast
  show "reach_from s0 (snd (queue_tx i status reason p d))"
    if "clean_payload p" "status \<notin> {''CREATED'', ''REVERSAL_PENDING'', ''REVERSED''}"
    using that by (intro s sys_step.queue_reversal)
  show "reach_from s0 (snd (enqueue_op i mti p d))" if "clean_payload p" "mti \<noteq> ''0420''"
    using that by (intro s sys_step.queue_advice)
  show "reach_from s0 (snd (UpdatePayload i p d))" if "clean_payload p" using that by (intro s sys_step.identify)
  show "reach_from s0 (snd (MarkTimedOut i d))" "reach_from s0 (snd (ClaimDue n lease d))" "reach_from s0 (snd (MarkInFlight i a t e d))"
    "reach_from s0 (snd (MarkDead i e d))" "reach_from s0 (snd (MarkAcked i d))"
    by (rule s, rule sys_step.intros)+
qed

section \<open>Operations of the gateway\<close>

text \<open>What the gateway runs: the API's requests and its two background loops.\<close>

datatype operation =
    DoPurchase PurchaseRequest string
  | DoCancel string string
  | DoPreAuth PreAuthRequest string
  | DoCompletion string Money string
  | DoRefund PreAuthRequest string
  | DoBalance CardPresentData string
  | DoLateResponse string string
  | DoWorker "wake list"
  | DoSweep int "wake list"

fun operate :: "genv \<Rightarrow> operation \<Rightarrow> gw \<Rightarrow> gw" where
  "operate g (DoPurchase req key) w = snd (CreatePurchase g req key w)"
| "operate g (DoCancel rrn key) w = snd (CancelPurchase g rrn key w)"
| "operate g (DoPreAuth req key) w = snd (CreatePreAuth g req key w)"
| "operate g (DoCompletion rrn amount key) w = snd (CreateCompletion g rrn amount key w)"
| "operate g (DoRefund req key) w = snd (CreateRefund g req key w)"
| "operate g (DoBalance req key) w = snd (CreateBalanceInquiry g req key w)"
| "operate g (DoLateResponse rrn rc) w = snd (RecordLateResponse rrn rc w)"
| "operate g (DoWorker wakes) w = Worker_Run g wakes w"
| "operate g (DoSweep age wakes) w = Sweeper_Run g age wakes w"

lemma operate_reach:
  assumes "tracks s0 w"
  shows "reach_from s0 (w_db (operate g op w))"
proof -
  have k: "gw_keeps (reach_from s0) w" using assms by (simp add: tracks_def)
  have t: "tracks s0 v \<Longrightarrow> reach_from s0 (w_db v)" for v by (simp add: tracks_def gw_keeps_def)
  show ?thesis
  proof (cases op)
    case (DoWorker wakes)
    then show ?thesis using gw_keeps_db [OF steps.Worker_Run_keeps [OF k]] by simp
  next
    case (DoSweep age wakes)
    then show ?thesis using gw_keeps_db [OF steps.Sweeper_Run_keeps [OF k]] by simp
  qed (auto simp: CreatePurchase_def CancelPurchase_def CreatePreAuth_def CreateCompletion_def CreateRefund_def
      CreateBalanceInquiry_def idempotent_def intro!: t tracks_RecordLateResponse assms
      tracked_purchase.Idempotent_phases tracked_cancel.Idempotent_phases tracked_adv.Idempotent_phases
      tracks_createPurchase tracks_cancelPurchase tracks_creates)
qed

section \<open>Properties of the whole gateway\<close>


text \<open>A toy system: one purchase logged and marked SENT.\<close>

definition toy_marked :: db where
  "toy_marked = snd (UpdateStatus 1 ''SENT'' '''' '''' (snd (Insert (toy_row\<lparr>tl_Status := ''CREATED''\<rparr>) toy_db)))"

lemma toy_reach: "sys_reach (toy_db, {})" "sys_reach (toy_marked, {})"
proof -
  show i: "sys_reach (toy_db, {})" by (rule sys_reach.init) (simp add: sys_init_def toy_db_def)
  have "Insert (toy_row\<lparr>tl_Status := ''CREATED''\<rparr>) toy_db = (Inr 1, snd (Insert (toy_row\<lparr>tl_Status := ''CREATED''\<rparr>) toy_db))"
    by (simp add: Insert_def insertTranLog_def Let_def toy_db_def)
  then have "sys_reach (snd (Insert (toy_row\<lparr>tl_Status := ''CREATED''\<rparr>) toy_db), {1})"
    by (intro sys_reach.step [OF i sys_step.log]) simp_all
  then show "sys_reach (toy_marked, {})"
    unfolding toy_marked_def using sys_reach.step sys_step.sending [of 1 "{1}"] by fastforce
qed

lemma toy_tracks:
  assumes "sys_reach (d, {})" "w_db w = d" "w_sched w = []" "\<And>s. s \<in> set (gw_sends w) \<Longrightarrow> so_env s = (\<lambda>d. d)"
  shows "tracks (d, {}) w"
  using assms by (auto simp: tracks_def gw_keeps_def reach_from_def)




end
