(* ===== verification/Idempotency_Protocol.thy ===== *)
theory Idempotency_Protocol
  imports Advtxn
begin

text \<open>
  The fencing of idempotency keys as a state machine. Any number of requests carry the same key on the same route; their statements on
  \<open>idempotency_record\<close> (\<open>Reserve\<close>, \<open>Reclaim\<close>, \<open>AttachRRN\<close>, \<open>Release\<close>, \<open>Store\<close> of \<open>store/tranlog.go\<close>, as \<open>purchase/idempotency.go\<close> issues them)
  interleave arbitrarily with the passing of the database clock, crashes and lost acknowledgements. A request is named by the token
  it was given; its phase says how far it has come.
\<close>

section \<open>Requests and steps\<close>

datatype phase =
    Holding    \<comment> \<open>reserved or reclaimed, nothing attached\<close>
  | Attached   \<comment> \<open>\<open>AttachRRN\<close> reported success: the request goes on to send\<close>
  | Sent
  | Over       \<comment> \<open>failed before the send, or crashed\<close>

record session =
  se_reserved :: time
  se_phase :: phase

type_synonym idem_state = "db \<times> (nat \<rightharpoonup> session)"

definition set_phase :: "nat \<Rightarrow> phase \<Rightarrow> (nat \<rightharpoonup> session) \<Rightarrow> (nat \<rightharpoonup> session)" where
  "set_phase tok p m = m(tok := map_option (\<lambda>s. s\<lparr>se_phase := p\<rparr>) (m tok))"

inductive idem_step :: "string \<Rightarrow> string \<Rightarrow> idem_state \<Rightarrow> idem_state \<Rightarrow> bool" for key route where
  elsewhere: "filter (idem_match key route) (db_idem d') = filter (idem_match key route) (db_idem d) \<Longrightarrow> db_uuid d' = db_uuid d \<Longrightarrow>
    db_now d \<le> db_now d' \<Longrightarrow> idem_step key route (d, m) (d', m)"
| reserve: "reserve_insert key route h d = (Inr (Some tok), d') \<Longrightarrow>
    idem_step key route (d, m) (d', m(tok \<mapsto> \<lparr>se_reserved = db_now d, se_phase = Holding\<rparr>))"
| reclaim: "Reclaim key route h stale d = (Inr (Some tok), d') \<Longrightarrow>
    idem_step key route (d, m) (d', m(tok \<mapsto> \<lparr>se_reserved = db_now d, se_phase = Holding\<rparr>))"
| attach: "m tok = Some s \<Longrightarrow> se_phase s = Holding \<Longrightarrow> rrn \<noteq> '''' \<Longrightarrow> idem_AttachRRN key route tok rrn d = (Inr (), d') \<Longrightarrow>
    idem_step key route (d, m) (d', set_phase tok Attached m)"
| attach_unacked: "m tok = Some s \<Longrightarrow> se_phase s = Holding \<Longrightarrow>
    idem_step key route (d, m) (snd (idem_AttachRRN key route tok rrn d), set_phase tok Over m)"
| sent: "m tok = Some s \<Longrightarrow> se_phase s = Attached \<Longrightarrow> idem_step key route (d, m) (d, set_phase tok Sent m)"
| release: "m tok = Some s \<Longrightarrow> se_phase s \<noteq> Sent \<Longrightarrow>
    idem_step key route (d, m) (snd (Release key route tok d), set_phase tok Over m)"
| crash: "m tok = Some s \<Longrightarrow> se_phase s \<noteq> Sent \<Longrightarrow> idem_step key route (d, m) (d, set_phase tok Over m)"
| store: "idem_step key route (d, m) (snd (Store_response key route h st body d), m)"

inductive_cases idem_stepE: "idem_step key route s s'"

inductive idem_reach :: "string \<Rightarrow> string \<Rightarrow> idem_state \<Rightarrow> bool" for key route where
  init: "filter (idem_match key route) (db_idem d) = [] \<Longrightarrow> idem_reach key route (d, Map.empty)"
| step: "idem_reach key route s \<Longrightarrow> idem_step key route s s' \<Longrightarrow> idem_reach key route s'"

section \<open>The invariant\<close>

definition committed :: "(nat \<rightharpoonup> session) \<Rightarrow> nat \<Rightarrow> time \<Rightarrow> bool" where
  "committed m tok c \<longleftrightarrow> (\<exists>s. m tok = Some s \<and> se_phase s \<in> {Attached, Sent} \<and> se_reserved s = c)"

text \<open>The records of the key: none or one.\<close>

definition records :: "string \<Rightarrow> string \<Rightarrow> db \<Rightarrow> IdempotencyRow list" where
  "records key route d = filter (idem_match key route) (db_idem d)"

text \<open>A record is that of request \<open>tok\<close>, reserved at \<open>c\<close>, with its RRN; or it is of more than a TTL later.\<close>

definition honours :: "nat \<Rightarrow> time \<Rightarrow> IdempotencyRow \<Rightarrow> bool" where
  "honours tok c r \<longleftrightarrow> id_Token r = Some tok \<and> id_CreatedAt r = c \<and> id_RRN r \<noteq> '''' \<or> c + idempotencyTTL < id_CreatedAt r"

definition apart :: "time \<Rightarrow> time \<Rightarrow> bool" where
  "apart a b \<longleftrightarrow> a + idempotencyTTL < b \<or> b + idempotencyTTL < a"

definition key_inv :: "IdempotencyRow list \<Rightarrow> time \<Rightarrow> nat \<Rightarrow> (nat \<rightharpoonup> session) \<Rightarrow> bool" where
  "key_inv rs now uuid m \<longleftrightarrow>
     length rs \<le> 1 \<and> (\<forall>tok s. m tok = Some s \<longrightarrow> tok < uuid) \<and>
     (\<forall>r \<in> set rs. id_CreatedAt r \<le> now \<and> (\<forall>tok. id_Token r = Some tok \<longrightarrow> (\<exists>s. m tok = Some s \<and> se_reserved s = id_CreatedAt r))) \<and>
     (\<forall>tok c. committed m tok c \<longrightarrow> (rs = [] \<longrightarrow> c + idempotencyTTL < now) \<and> (\<forall>r \<in> set rs. honours tok c r)) \<and>
     (\<forall>a b ca cb. committed m a ca \<longrightarrow> committed m b cb \<longrightarrow> a \<noteq> b \<longrightarrow> apart ca cb)"

definition idem_inv :: "string \<Rightarrow> string \<Rightarrow> idem_state \<Rightarrow> bool" where
  "idem_inv key route s \<longleftrightarrow> (case s of (d, m) \<Rightarrow> key_inv (records key route d) (db_now d) (db_uuid d) m)"

section \<open>Every step keeps the invariant\<close>

text \<open>How each statement changes the records of the key.\<close>

lemma records_find: "find (idem_match key route) (db_idem d) = (case records key route d of [] \<Rightarrow> None | r # _ \<Rightarrow> Some r)"
proof -
  have "find P xs = (case filter P xs of [] \<Rightarrow> None | x # _ \<Rightarrow> Some x)" for P and xs :: "IdempotencyRow list"
    by (induction xs) auto
  then show ?thesis by (simp add: records_def)
qed

lemma records_update:
  assumes "\<And>r. P r \<Longrightarrow> idem_match key route r" "\<And>r. P r \<Longrightarrow> idem_match key route (f r)"
  shows "records key route (update_idem P f d) = map (\<lambda>r. if P r then f r else r) (records key route d)"
proof -
  have "filter (idem_match key route) (map (\<lambda>r. if P r then f r else r) xs) = map (\<lambda>r. if P r then f r else r) (filter (idem_match key route) xs)" for xs
    using assms by (induction xs) auto
  then show ?thesis by (simp add: records_def update_idem_def)
qed

lemma idem_match_simps [simp]:
  "idem_match key route (r\<lparr>id_RRN := x\<rparr>) = idem_match key route r"
  "idem_match key route (r\<lparr>id_CreatedAt := c, id_Token := t\<rparr>) = idem_match key route r"
  "idem_match key route (r\<lparr>id_RequestHash := h, id_Response := p\<rparr>) = idem_match key route r"
  "holds_token key route tok r \<Longrightarrow> idem_match key route r" "reclaimable key route h b r \<Longrightarrow> idem_match key route r"
  by (simp_all add: idem_match_def holds_token_def reclaimable_def)

lemma records_match: "records key route d = q # qs \<Longrightarrow> idem_match key route q"
  by (metis records_def filter_eq_ConsD)

lemma update_idem_simps [simp]: "db_uuid (update_idem P f d) = db_uuid d" "db_now (update_idem P f d) = db_now d"
  by (simp_all add: update_idem_def)

lemma records_more [simp]: "records key route (d\<lparr>db_uuid := n\<rparr>) = records key route d"
  by (simp add: records_def)

lemma list_ex_records:
  assumes "\<And>r. P r \<Longrightarrow> idem_match key route r"
  shows "list_ex P (db_idem d) = list_ex P (records key route d)"
  using assms by (auto simp: records_def list_ex_iff)

lemma reserve_records:
  assumes "reserve_insert key route h d = (Inr (Some tok), d')" "length (records key route d) \<le> 1"
  obtains r where "records key route d' = [r]" "id_Token r = Some tok" "id_CreatedAt r = db_now d" "tok = db_uuid d"
    "db_uuid d' = db_uuid d + 1" "db_now d' = db_now d"
    "records key route d = [] \<or> (\<exists>q. records key route d = [q] \<and> id_CreatedAt q + idempotencyTTL < db_now d)"
proof (cases "records key route d")
  case Nil
  then have d': "d' = d\<lparr>db_idem := db_idem d @ [\<lparr>id_Key = key, id_Route = route, id_RequestHash = h, id_Response = pending_response,
      id_CreatedAt = db_now d, id_RRN = '''', id_Token = Some (db_uuid d)\<rparr>], db_uuid := db_uuid d + 1\<rparr>" "tok = db_uuid d"
    using assms(1) by (auto simp: reserve_insert_def Let_def records_find)
  then have "\<exists>r. records key route d' = [r] \<and> id_Token r = Some tok \<and> id_CreatedAt r = db_now d"
    using Nil by (auto simp: records_def idem_match_def)
  then obtain r where "records key route d' = [r]" "id_Token r = Some tok" "id_CreatedAt r = db_now d" by blast
  with d' Nil show ?thesis by (intro that [of r]) simp_all
next
  case (Cons q qs)
  then have q: "records key route d = [q]" using assms(2) by simp
  let ?fresh = "\<lparr>id_Key = key, id_Route = route, id_RequestHash = h, id_Response = pending_response, id_CreatedAt = db_now d,
      id_RRN = '''', id_Token = Some (db_uuid d)\<rparr>"
  have f: "idem_match key route ?fresh" by (simp add: idem_match_def)
  have old: "id_CreatedAt q < db_now d - idempotencyTTL"
    and d': "d' = (update_idem (idem_match key route) (\<lambda>_. ?fresh) d)\<lparr>db_uuid := db_uuid d + 1\<rparr>" "tok = db_uuid d"
    using assms(1) q by (auto simp: reserve_insert_def Let_def records_find split: if_splits)
  have "records key route d' = [?fresh]"
    unfolding d'(1) records_more using q records_match [OF q] f by (subst records_update) simp_all
  with old d' q show ?thesis by (intro that [of ?fresh]) auto
qed

lemma reclaim_records:
  assumes "Reclaim key route h stale d = (Inr (Some tok), d')" "length (records key route d) \<le> 1"
  obtains q r where "records key route d = [q]" "id_RRN q = ''''" "records key route d' = [r]" "id_Token r = Some tok" "id_CreatedAt r = db_now d"
    "tok = db_uuid d" "db_uuid d' = db_uuid d + 1" "db_now d' = db_now d"
proof -
  let ?P = "reclaimable key route h (db_now d - stale)"
  have ex: "list_ex ?P (db_idem d)"
    and d': "d' = (update_idem ?P (\<lambda>r. r\<lparr>id_CreatedAt := db_now d, id_Token := Some (db_uuid d)\<rparr>) d)\<lparr>db_uuid := db_uuid d + 1\<rparr>" "tok = db_uuid d"
    using assms(1) by (auto simp: Reclaim_def Let_def split: if_splits)
  have "list_ex ?P (records key route d)"
    using ex list_ex_records [of ?P key route d] by simp
  with assms(2) obtain q where q: "records key route d = [q]" "?P q" by (cases "records key route d") auto
  let ?f = "\<lambda>r. r\<lparr>id_CreatedAt := db_now d, id_Token := Some (db_uuid d)\<rparr>"
  have "records key route (update_idem ?P ?f d) = [?f q]"
    using q by (subst records_update) simp_all
  then have "records key route d' = [?f q]" by (simp add: d')
  moreover have "id_RRN q = ''''" using q(2) by (simp add: reclaimable_def)
  ultimately show ?thesis using q(1) d' by (intro that [of q "?f q"]) simp_all
qed

lemma attach_records:
  "records key route (snd (idem_AttachRRN key route tok rrn d)) =
     map (\<lambda>r. if holds_token key route tok r then r\<lparr>id_RRN := rrn\<rparr> else r) (records key route d)"
  "idem_AttachRRN key route tok rrn d = (Inr (), d') \<Longrightarrow> list_ex (holds_token key route tok) (records key route d)"
  "db_uuid (snd (idem_AttachRRN key route tok rrn d)) = db_uuid d" "db_now (snd (idem_AttachRRN key route tok rrn d)) = db_now d"
proof -
  have e: "list_ex (holds_token key route tok) (db_idem d) = list_ex (holds_token key route tok) (records key route d)"
    by (rule list_ex_records) simp
  have u: "records key route (update_idem (holds_token key route tok) (\<lambda>r. r\<lparr>id_RRN := rrn\<rparr>) d) =
     map (\<lambda>r. if holds_token key route tok r then r\<lparr>id_RRN := rrn\<rparr> else r) (records key route d)"
    by (rule records_update) simp_all
  show "records key route (snd (idem_AttachRRN key route tok rrn d)) =
     map (\<lambda>r. if holds_token key route tok r then r\<lparr>id_RRN := rrn\<rparr> else r) (records key route d)"
    by (cases "list_ex (holds_token key route tok) (records key route d)")
      (simp_all add: idem_AttachRRN_def e u, auto simp: list_ex_iff intro!: map_idI [symmetric])
  show "idem_AttachRRN key route tok rrn d = (Inr (), d') \<Longrightarrow> list_ex (holds_token key route tok) (records key route d)"
    by (auto simp: idem_AttachRRN_def e split: if_splits)
qed (auto simp: idem_AttachRRN_def)

lemma release_records:
  "records key route (snd (Release key route tok d)) = filter (\<lambda>r. \<not> holds_token key route tok r) (records key route d)"
  "db_uuid (snd (Release key route tok d)) = db_uuid d" "db_now (snd (Release key route tok d)) = db_now d"
  by (auto simp: Release_def records_def conj_commute intro: filter_cong)

lemma store_records:
  assumes "length (records key route d) \<le> 1"
  shows "(records key route d = [] \<and> (\<exists>r. records key route (snd (Store_response key route h st body d)) = [r] \<and> id_Token r = None \<and> id_CreatedAt r = db_now d)) \<or>
    (\<exists>q r. records key route d = [q] \<and> records key route (snd (Store_response key route h st body d)) = [r] \<and>
       id_Token r = id_Token q \<and> id_CreatedAt r = id_CreatedAt q \<and> id_RRN r = id_RRN q)"
    and "db_uuid (snd (Store_response key route h st body d)) = db_uuid d" "db_now (snd (Store_response key route h st body d)) = db_now d"
proof -
  show "db_uuid (snd (Store_response key route h st body d)) = db_uuid d" "db_now (snd (Store_response key route h st body d)) = db_now d"
    by (auto simp: Store_response_def Let_def split: option.split)
  show "(records key route d = [] \<and> (\<exists>r. records key route (snd (Store_response key route h st body d)) = [r] \<and> id_Token r = None \<and> id_CreatedAt r = db_now d)) \<or>
    (\<exists>q r. records key route d = [q] \<and> records key route (snd (Store_response key route h st body d)) = [r] \<and>
       id_Token r = id_Token q \<and> id_CreatedAt r = id_CreatedAt q \<and> id_RRN r = id_RRN q)"
  proof (cases "records key route d")
    case Nil
    then show ?thesis by (auto simp: Store_response_def Let_def records_find) (auto simp: records_def idem_match_def)
  next
    case (Cons q qs)
    then have q: "records key route d = [q]" using assms by simp
    let ?f = "\<lambda>r. r\<lparr>id_RequestHash := h, id_Response := \<lparr>sr_Status = st, sr_Body = Some body\<rparr>\<rparr>"
    have "records key route (update_idem (idem_match key route) ?f d) = [?f q]"
      using q records_match [OF q] by (subst records_update) simp_all
    then have "records key route (snd (Store_response key route h st body d)) = [?f q]"
      using q by (simp add: Store_response_def Let_def records_find)
    with q show ?thesis by simp
  qed
qed

text \<open>The steps on the invariant.\<close>

lemma key_invD:
  assumes "key_inv rs now uuid m"
  shows "length rs \<le> 1" "m tok = Some s \<Longrightarrow> tok < uuid" "r \<in> set rs \<Longrightarrow> id_CreatedAt r \<le> now"
    "r \<in> set rs \<Longrightarrow> id_Token r = Some tok \<Longrightarrow> \<exists>s. m tok = Some s \<and> se_reserved s = id_CreatedAt r"
    "committed m tok c \<Longrightarrow> rs = [] \<Longrightarrow> c + idempotencyTTL < now" "committed m tok c \<Longrightarrow> r \<in> set rs \<Longrightarrow> honours tok c r"
    "committed m a ca \<Longrightarrow> committed m b cb \<Longrightarrow> a \<noteq> b \<Longrightarrow> apart ca cb"
  using assms by (auto simp: key_inv_def)

lemma committed_fresh: "m tok = None \<Longrightarrow> committed (m(tok \<mapsto> \<lparr>se_reserved = n, se_phase = Holding\<rparr>)) t c = committed m t c"
  by (auto simp: committed_def)

lemma committed_set_phase:
  "committed (set_phase tok p m) t c = (if t = tok then p \<in> {Attached, Sent} \<and> (\<exists>s. m tok = Some s \<and> se_reserved s = c) else committed m t c)"
  by (auto simp: committed_def set_phase_def)

lemma set_phase_known:
  "(set_phase tok p m t = Some s) \<Longrightarrow> \<exists>s'. m t = Some s'"
  "(\<exists>s. set_phase tok p m t = Some s \<and> se_reserved s = c) = (\<exists>s. m t = Some s \<and> se_reserved s = c)"
  by (auto simp: set_phase_def split: if_splits)

text \<open>A new reservation takes the place of a record that commits nobody within the TTL.\<close>

lemma key_inv_new:
  assumes inv: "key_inv rs now uuid m" and r: "id_Token r = Some uuid" "id_CreatedAt r = now"
    and old: "\<And>tok c. committed m tok c \<Longrightarrow> c + idempotencyTTL < now"
  shows "key_inv [r] now (uuid + 1) (m(uuid \<mapsto> \<lparr>se_reserved = now, se_phase = Holding\<rparr>))"
proof -
  have n: "m uuid = None" using key_invD(2) [OF inv, of uuid] by (cases "m uuid") auto
  note c = committed_fresh [of m uuid, OF n]
  have "tok < uuid + 1" if "(m(uuid \<mapsto> \<lparr>se_reserved = now, se_phase = Holding\<rparr>)) tok = Some s" for tok s
    using that key_invD(2) [OF inv, of tok] by (cases "tok = uuid") fastforce+
  then show ?thesis
    unfolding key_inv_def c using r key_invD(7) [OF inv] by (auto simp: honours_def dest: old)
qed

text \<open>A request that is not committed changes phase without committing itself.\<close>

lemma key_inv_phase:
  assumes inv: "key_inv rs now uuid m" and p: "p \<notin> {Attached, Sent}"
  shows "key_inv rs now uuid (set_phase tok p m)"
  unfolding key_inv_def committed_set_phase set_phase_known(2)
  using p key_invD [OF inv] by (auto dest!: set_phase_known(1))

lemma key_inv_rrn:
  assumes "key_inv rs now uuid m" "\<And>c. \<not> committed m tok c"
    and "\<And>r. r \<in> set rs \<Longrightarrow> P r \<Longrightarrow> id_Token r = Some tok"
  shows "key_inv (map (\<lambda>r. if P r then r\<lparr>id_RRN := rrn\<rparr> else r) rs) now uuid m"
proof -
  have "honours t c (r\<lparr>id_RRN := rrn\<rparr>)" if "committed m t c" "r \<in> set rs" "P r" for t c r
    using key_invD(6) [OF assms(1) that(1,2)] assms(2) [of c] assms(3) [OF that(2)] that(1,3) by (cases "t = tok") (auto simp: honours_def)
  then show ?thesis
    unfolding key_inv_def using key_invD [OF assms(1)] by (auto split: if_splits)
qed

lemma key_inv_attach:
  assumes inv: "key_inv rs now uuid m" and tok: "m tok = Some s" "se_phase s = Holding"
    and r: "rs = [r]" "id_Token r = Some tok" "id_RRN r \<noteq> ''''"
  shows "key_inv rs now uuid (set_phase tok Attached m)"
proof -
  have res: "se_reserved s = id_CreatedAt r" using key_invD(4) [OF inv, of r tok] r tok(1) by simp
  have far: "c + idempotencyTTL < id_CreatedAt r" if "committed m t c" "t \<noteq> tok" for t c
    using key_invD(6) [OF inv that(1), of r] r that(2) by (simp add: honours_def)
  show ?thesis
    unfolding key_inv_def committed_set_phase set_phase_known(2)
    using key_invD(1-4,7) [OF inv] key_invD(6) [OF inv, of _ _ r] r tok(1) res far
    by (auto simp: honours_def apart_def dest!: set_phase_known(1))
qed

lemma key_inv_sent:
  assumes inv: "key_inv rs now uuid m" and tok: "m tok = Some s" "se_phase s = Attached"
  shows "key_inv rs now uuid (set_phase tok Sent m)"
proof -
  have "committed (set_phase tok Sent m) t c = committed m t c" for t c
    using tok by (auto simp: committed_set_phase) (auto simp: committed_def)
  then show ?thesis
    unfolding key_inv_def set_phase_known(2) using key_invD [OF inv] by (auto dest!: set_phase_known(1))
qed

lemma key_inv_drop:
  assumes inv: "key_inv rs now uuid m" and tok: "\<And>c. \<not> committed m tok c" "\<And>r. r \<in> set rs \<Longrightarrow> \<not> P r \<Longrightarrow> id_Token r = Some tok"
  shows "key_inv (filter P rs) now uuid m"
proof -
  have "c + idempotencyTTL < now" if c: "committed m t c" "filter P rs = []" for t c
  proof (cases rs)
    case Nil
    then show ?thesis using key_invD(5) [OF inv c(1)] by simp
  next
    case (Cons r qs)
    then have "id_Token r = Some tok" using tok(2) [of r] c(2) by (auto split: if_splits)
    moreover have "t \<noteq> tok" using tok(1) c(1) by blast
    ultimately have "c + idempotencyTTL < id_CreatedAt r" using key_invD(6) [OF inv c(1), of r] Cons by (auto simp: honours_def)
    then show ?thesis using key_invD(3) [OF inv, of r] Cons by simp
  qed
  moreover have "length (filter P rs) \<le> 1" using key_invD(1) [OF inv] length_filter_le [of P rs] by linarith
  ultimately show ?thesis unfolding key_inv_def using key_invD [OF inv] by auto
qed

lemma key_inv_later: "key_inv rs now uuid m \<Longrightarrow> now \<le> now' \<Longrightarrow> key_inv rs now' uuid m"
  unfolding key_inv_def by fastforce

lemma not_committed: "m tok = Some s \<Longrightarrow> se_phase s \<notin> {Attached, Sent} \<Longrightarrow> \<not> committed m tok c"
  by (simp add: committed_def)

lemma idem_inv_step: "idem_step key route s s' \<Longrightarrow> idem_inv key route s \<Longrightarrow> idem_inv key route s'"
proof (induction rule: idem_step.induct)
  case (elsewhere d' d m)
  then show ?case using key_inv_later by (auto simp: idem_inv_def records_def)
next
  case (reserve h d tok d' m)
  then have inv: "key_inv (records key route d) (db_now d) (db_uuid d) m" by (simp add: idem_inv_def)
  obtain r where r: "records key route d' = [r]" "id_Token r = Some tok" "id_CreatedAt r = db_now d" "tok = db_uuid d"
    "db_uuid d' = db_uuid d + 1" "db_now d' = db_now d"
    "records key route d = [] \<or> (\<exists>q. records key route d = [q] \<and> id_CreatedAt q + idempotencyTTL < db_now d)"
    using reserve_records [OF reserve(1) key_invD(1) [OF inv]] by blast
  have "c + idempotencyTTL < db_now d" if "committed m t c" for t c
    using r(7) key_invD(3,5,6) [OF inv] that by (fastforce simp: honours_def)
  then show ?case using key_inv_new [OF inv, of r] r by (simp add: idem_inv_def)
next
  case (reclaim h stale d tok d' m)
  then have inv: "key_inv (records key route d) (db_now d) (db_uuid d) m" by (simp add: idem_inv_def)
  obtain q r where r: "records key route d = [q]" "id_RRN q = ''''" "records key route d' = [r]" "id_Token r = Some tok" "id_CreatedAt r = db_now d"
    "tok = db_uuid d" "db_uuid d' = db_uuid d + 1" "db_now d' = db_now d"
    using reclaim_records [OF reclaim(1) key_invD(1) [OF inv]] by blast
  have "c + idempotencyTTL < db_now d" if "committed m t c" for t c
    using r(1,2) key_invD(3) [OF inv, of q] key_invD(6) [OF inv that, of q] by (auto simp: honours_def)
  then show ?case using key_inv_new [OF inv, of r] r by (simp add: idem_inv_def)
next
  case (attach m tok s rrn d d')
  then have inv: "key_inv (records key route d) (db_now d) (db_uuid d) m" by (simp add: idem_inv_def)
  have d': "d' = snd (idem_AttachRRN key route tok rrn d)" using attach(4) by simp
  have "list_ex (holds_token key route tok) (records key route d)" by (rule attach_records(2) [OF attach(4)])
  then obtain r where r: "records key route d = [r]" "holds_token key route tok r"
    using key_invD(1) [OF inv] by (cases "records key route d") auto
  have nc: "\<not> committed m tok c" for c using attach(1,2) by (simp add: not_committed)
  have "key_inv (records key route d') (db_now d) (db_uuid d) m"
    unfolding d' attach_records by (rule key_inv_rrn [OF inv nc]) (simp add: holds_token_def)
  moreover have "records key route d' = [r\<lparr>id_RRN := rrn\<rparr>]" using r by (simp add: d' attach_records)
  ultimately have "key_inv (records key route d') (db_now d) (db_uuid d) (set_phase tok Attached m)"
    using r attach(1-3) by (intro key_inv_attach [where m = m and tok = tok and s = s and r = "r\<lparr>id_RRN := rrn\<rparr>"]) (simp_all add: holds_token_def)
  then show ?case by (simp add: idem_inv_def d' attach_records)
next
  case (attach_unacked m tok s d rrn)
  then have inv: "key_inv (records key route d) (db_now d) (db_uuid d) m" by (simp add: idem_inv_def)
  have nc: "\<not> committed m tok c" for c using attach_unacked(1,2) by (simp add: not_committed)
  show ?case unfolding idem_inv_def prod.case attach_records
    by (rule key_inv_phase [OF key_inv_rrn [OF inv nc]]) (simp_all add: holds_token_def)
next
  case (release m tok s d)
  then have inv: "key_inv (records key route d) (db_now d) (db_uuid d) (set_phase tok Over m)" by (simp add: idem_inv_def key_inv_phase)
  show ?case unfolding idem_inv_def prod.case release_records
    by (rule key_inv_drop [OF inv]) (auto simp: committed_set_phase holds_token_def)
next
  case (store d m h st body)
  then have inv: "key_inv (records key route d) (db_now d) (db_uuid d) m" by (simp add: idem_inv_def)
  then show ?case
    using store_records [OF key_invD(1) [OF inv], of h st body] unfolding idem_inv_def key_inv_def
    by (auto simp: honours_def) (metis)+
qed (auto simp: idem_inv_def key_inv_phase intro: key_inv_sent)

lemma idem_inv_reach: "idem_reach key route s \<Longrightarrow> idem_inv key route s"
proof (induction rule: idem_reach.induct)
  case (init d)
  then have "records key route d = []" by (simp add: records_def)
  then show ?case by (simp add: idem_inv_def key_inv_def committed_def)
qed (rule idem_inv_step)

section \<open>The properties\<close>

text \<open>C3: A key sends once. However the requests that carry one idempotency key interleave with each other, with crashes, lost acknowledgements, stale take-overs,
  releases and stored responses, two different reservations of the key whose requests were both sent are more than the TTL of 24 hours apart.\<close>

theorem one_send_per_key:
  assumes "idem_reach key route (d, m)"
    and "m a = Some sa" "se_phase sa = Sent" "m b = Some sb" "se_phase sb = Sent" "a \<noteq> b"
  shows "idempotencyTTL < abs (se_reserved sa - se_reserved sb)"
proof -
  have "key_inv (records key route d) (db_now d) (db_uuid d) m" using idem_inv_reach [OF assms(1)] by (simp add: idem_inv_def)
  moreover have "committed m a (se_reserved sa)" "committed m b (se_reserved sb)" using assms(2-5) by (simp_all add: committed_def)
  ultimately have "apart (se_reserved sa) (se_reserved sb)" using key_invD(7) assms(6) by blast
  then show ?thesis by (auto simp: apart_def)
qed

text \<open>A key used twice, a day and an hour apart.\<close>

definition toy_idem1 :: db where
  "toy_idem1 = snd (idem_AttachRRN ''k'' ''r'' 0 ''627614000042'' (snd (reserve_insert ''k'' ''r'' ''h'' toy_db)))"

definition toy_idem2 :: db where
  "toy_idem2 = toy_idem1\<lparr>db_now := db_now toy_idem1 + 25 * 3600 * second_ns\<rparr>"

definition toy_idem3 :: db where
  "toy_idem3 = snd (idem_AttachRRN ''k'' ''r'' 1 ''627715000043'' (snd (reserve_insert ''k'' ''r'' ''h'' toy_idem2)))"

lemma idem_reach_send:
  assumes r: "idem_reach key route (d, m)" and op: "reserve_insert key route h d = (Inr (Some tok), d1)" "idem_AttachRRN key route tok rrn d1 = (Inr (), d2)" "rrn \<noteq> ''''"
  shows "idem_reach key route (d2, m(tok \<mapsto> \<lparr>se_reserved = db_now d, se_phase = Sent\<rparr>))"
proof -
  have "idem_reach key route (d1, m(tok \<mapsto> \<lparr>se_reserved = db_now d, se_phase = Holding\<rparr>))"
    by (rule idem_reach.step [OF r idem_step.reserve [OF op(1)]])
  from idem_reach.step [OF this idem_step.attach [OF _ _ op(3,2)]]
  have "idem_reach key route (d2, m(tok \<mapsto> \<lparr>se_reserved = db_now d, se_phase = Attached\<rparr>))" by (simp add: set_phase_def)
  from idem_reach.step [OF this idem_step.sent [where tok = tok and s = "\<lparr>se_reserved = db_now d, se_phase = Attached\<rparr>"]] show ?thesis
    by (simp add: set_phase_def)
qed

lemma toy_idem_reach:
  "idem_reach ''k'' ''r'' (toy_idem3, [0 \<mapsto> \<lparr>se_reserved = db_now toy_db, se_phase = Sent\<rparr>, 1 \<mapsto> \<lparr>se_reserved = db_now toy_idem2, se_phase = Sent\<rparr>])"
proof -
  have "idem_reach ''k'' ''r'' (toy_db, Map.empty)" by (rule idem_reach.init) (simp add: toy_db_def)
  moreover have "reserve_insert ''k'' ''r'' ''h'' toy_db = (Inr (Some 0), snd (reserve_insert ''k'' ''r'' ''h'' toy_db))"
    "idem_AttachRRN ''k'' ''r'' 0 ''627614000042'' (snd (reserve_insert ''k'' ''r'' ''h'' toy_db)) = (Inr (), toy_idem1)"
    by (simp_all add: toy_idem1_def reserve_insert_def idem_AttachRRN_def toy_db_def Let_def holds_token_def idem_match_def pending_response_def)
  ultimately have "idem_reach ''k'' ''r'' (toy_idem1, [0 \<mapsto> \<lparr>se_reserved = db_now toy_db, se_phase = Sent\<rparr>])"
    by (rule idem_reach_send) simp
  moreover have "idem_step ''k'' ''r'' (toy_idem1, m) (toy_idem2, m)" for m
    by (rule idem_step.elsewhere) (simp_all add: toy_idem2_def second_ns_def)
  ultimately have "idem_reach ''k'' ''r'' (toy_idem2, [0 \<mapsto> \<lparr>se_reserved = db_now toy_db, se_phase = Sent\<rparr>])"
    by (rule idem_reach.step)
  moreover have "reserve_insert ''k'' ''r'' ''h'' toy_idem2 = (Inr (Some 1), snd (reserve_insert ''k'' ''r'' ''h'' toy_idem2))"
    "idem_AttachRRN ''k'' ''r'' 1 ''627715000043'' (snd (reserve_insert ''k'' ''r'' ''h'' toy_idem2)) = (Inr (), toy_idem3)"
    by (simp_all add: toy_idem3_def toy_idem2_def toy_idem1_def reserve_insert_def idem_AttachRRN_def toy_db_def Let_def holds_token_def idem_match_def
        pending_response_def update_idem_def idempotencyTTL_def second_ns_def)
  ultimately show ?thesis by (rule idem_reach_send) simp
qed

theorem one_send_per_key_witness: "idempotencyTTL < abs (db_now toy_db - db_now toy_idem2)"
  using one_send_per_key [OF toy_idem_reach, of 0 "\<lparr>se_reserved = db_now toy_db, se_phase = Sent\<rparr>" 1 "\<lparr>se_reserved = db_now toy_idem2, se_phase = Sent\<rparr>"]
  by simp

text \<open>The requests follow the protocol: nothing leaves before the RRN is attached.\<close>

definition attached_first :: "reservation \<Rightarrow> (string \<times> fields) list \<Rightarrow> reservation option \<times> gw \<Rightarrow> bool" where
  "attached_first h wire res \<longleftrightarrow> gw_wire (snd res) = wire \<or>
     (\<exists>rrn v v'. AttachRRN rrn (Some h) v = (Inr (), fst res, v') \<and> gw_wire v' = wire \<and> fst res = Some (h\<lparr>rv_rrn := rrn\<rparr>))"

lemma call_wire: "call op w = (r, w') \<Longrightarrow> gw_wire w' = gw_wire w"
  using call_gw_fields(2) [of op w] by simp

lemma AttachRRN_wire: "gw_wire (snd (snd (AttachRRN rrn held w))) = gw_wire w"
proof (cases held)
  case (Some h)
  then show ?thesis by (auto simp: AttachRRN_def split: prod.split sum.split dest: call_wire)
qed (simp add: AttachRRN_def)

lemma AttachRRN_held: "AttachRRN rrn (Some h) w = (Inr u, h1, w1) \<Longrightarrow> h1 = Some (h\<lparr>rv_rrn := rrn\<rparr>)"
  by (auto simp: AttachRRN_def split: prod.splits sum.splits)

lemma AttachRRN_first: "AttachRRN rrn (Some h) w = (Inr u, h1, w1) \<Longrightarrow> gw_wire w = wire \<Longrightarrow> attached_first h wire (h1, w2)"
  using AttachRRN_held [of rrn h w u h1 w1] AttachRRN_wire [of rrn "Some h" w] unfolding attached_first_def
  by (intro disjI2 exI [of _ rrn] exI [of _ w] exI [of _ w1]) simp

lemma sendPurchase_first: "attached_first h (gw_wire w) (snd (sendPurchase g req crd merchant m stan (Some h) w))"
proof -
  obtain r w1 where c: "call (Insert (purchase_row g req merchant m stan (gw_now w))) w = (r, w1)" by fastforce
  then have w1: "gw_wire w1 = gw_wire w" by (rule call_wire)
  have "attached_first h (gw_wire w) (snd (sendPurchase_logged g req merchant m stan now i fs (Some h) w1))" for now i fs
  proof -
    obtain q h1 w2 where a: "AttachRRN (BuildRRN now stan) (Some h) w1 = (q, h1, w2)" by (metis prod.exhaust)
    show ?thesis
    proof (cases q)
      case (Inl e)
      then show ?thesis using a w1 AttachRRN_wire [of "BuildRRN now stan" "Some h" w1] by (simp add: sendPurchase_logged_def attached_first_def)
    next
      case (Inr u)
      then show ?thesis
        using AttachRRN_first [of "BuildRRN now stan" h w1 u h1 w2 "gw_wire w"] a w1
        by (auto simp: sendPurchase_logged_def split: prod.split sum.split)
    qed
  qed
  then show ?thesis using c w1 by (auto simp: sendPurchase_def Let_def attached_first_def split: sum.split)
qed

lemma sendAndRecord_first: "attached_first h (gw_wire w) (snd (sendAndRecord g p merchant (Some h) w))"
proof -
  obtain r w1 where c: "insert_request p (request_row_of g p merchant) w = (r, w1)" by fastforce
  have w1: "gw_wire w1 = gw_wire w"
    using c by (auto simp: insert_request_def split: if_splits dest: call_wire)
  have release: "gw_wire (snd (releaseClaim p v)) = gw_wire v" for v
    by (auto simp: releaseClaim_def split: prod.split dest: call_wire)
  show ?thesis
  proof (cases r)
    case (Inl e)
    then show ?thesis using c w1 by (simp add: sendAndRecord_def attached_first_def)
  next
    case (Inr i)
    obtain q h1 w2 where a: "AttachRRN (sp_rrn p) (Some h) w1 = (q, h1, w2)" by (metis prod.exhaust)
    show ?thesis
    proof (cases q)
      case (Inl e)
      then show ?thesis
        using Inr a c w1 AttachRRN_wire [of "sp_rrn p" "Some h" w1] release [of w2]
        by (auto simp: sendAndRecord_def markSending_def attached_first_def split: prod.split)
    next
      case q: (Inr u)
      then show ?thesis
        using AttachRRN_first [of "sp_rrn p" h w1 u h1 w2 "gw_wire w"] a w1 Inr c
        by (auto simp: sendAndRecord_def markSending_def split: prod.split sum.split)
    qed
  qed
qed

lemma attached_first_start: "gw_wire v = wire \<Longrightarrow> attached_first h (gw_wire v) res \<Longrightarrow> attached_first h wire res"
  by simp

lemma attached_first_broadcast:
  "attached_first h wire (snd p) \<Longrightarrow> attached_first h wire (snd (case p of (Inl e, h1, w1) \<Rightarrow> (Inl e, h1, w1) | (Inr t, h1, w1) \<Rightarrow> (Inr t, h1, Broadcast (ev t) w1)))"
  by (cases p; cases "fst p") (auto simp: attached_first_def)

lemma quiet_wire: "gw_wire (snd (IsSignedOn w)) = gw_wire w" "gw_wire (snd (nextSTAN w)) = gw_wire w"
proof -
  show s: "gw_wire (snd (IsSignedOn w)) = gw_wire w" for w by (simp add: IsSignedOn_def)
  obtain st w1 where n: "sup_NextSTAN w = (st, w1)" by fastforce
  then have "gw_wire w1 = gw_wire w" using sup_NextSTAN_simps(3) [of w] by simp
  then show "gw_wire (snd (nextSTAN w)) = gw_wire w"
    using n s [of w1] by (auto simp: nextSTAN_def split: prod.split option.split bool.split)
qed

lemma send_first: "attached_first h (gw_wire w) (snd (send g p (Some h) w))"
proof -
  obtain q w1 where c: "finalizeFields g (p\<lparr>sp_businessDate := Current (ge_calendar g) (sp_sentAt p)\<rparr>) w = (q, w1)" by fastforce
  then have w1: "gw_wire w1 = gw_wire w"
    by (auto simp: finalizeFields_def Let_def split: prod.splits sum.splits dest: call_wire)
  have down: "gw_wire (snd (adv_recordLinkDown g p1 merchant w1)) = gw_wire w" for p1 merchant
    unfolding adv_recordLinkDown_def Let_def by (rule bind_snd [where K = "\<lambda>v. gw_wire v = gw_wire w"]) (simp_all add: w1)
  have sent: "attached_first h (gw_wire w) (snd (sendAndRecord g p1 merchant (Some h) w1))" for p1 merchant
    using sendAndRecord_first [of h w1 g p1 merchant] w1 by simp
  show ?thesis
  proof (cases q)
    case (Inr mp)
    then show ?thesis
      using c down attached_first_broadcast [OF sent]
      by (auto simp: send_def attached_first_def [of h "gw_wire w" "(a, b)" for a b] split: prod.split sum.split) (metis snd_conv)+
  qed (use c w1 in \<open>simp add: send_def attached_first_def\<close>)
qed


end
