(* ===== verification/Journey.thy ===== *)
theory Journey
  imports Advtxn
begin

text \<open>
  The story of one transaction, \<open>src/gateway-go/internal/journey\<close>: the steps, messages and money rows of \<open>BuildJourney\<close>, rebuilt from the stored
  row, its state history and its queued reversal. Shown: the steps are numbered and in time order, the messages shown are the ones that
  were sent, a clear PAN is never shown, and a confirmed reversal returns exactly the money.
\<close>

section \<open>Types\<close>

datatype Actor = ActorPOS | ActorAcquirer | ActorIssuer | ActorSAF
datatype StepKind = KindOK | KindBad | KindWarn | KindInfo | KindReversal
datatype StepCode =
    CodePOSRequest | CodeRequestSent | CodeLocalDecline | CodeIssuerApproved | CodeIssuerDeclined | CodeNoResponse
  | CodeReversalQueued | CodePOSResult | CodeReversalSent | CodeReversalConfirmed | CodeLateResponse

record IsoField =
  isf_DE :: string
  isf_EasyName :: string
  isf_TechnicalName :: string
  isf_Format :: string
  isf_Value :: string

record IsoMessage =
  ism_MTI :: string
  ism_Fields :: "IsoField list"

record JourneyStep =
  js_Seq :: int
  js_Code :: StepCode
  js_Actor :: Actor
  js_OffsetMs :: int
  js_Title :: string
  js_EasyText :: string
  js_TechnicalText :: string
  js_Kind :: StepKind
  js_Message :: "IsoMessage option"

record MoneyRow =
  mr_Label :: string
  mr_Delta :: int
  mr_BalanceAfter :: "int option"
  mr_AtStep :: int

record Journey =
  jn_Steps :: "JourneyStep list"
  jn_Money :: "MoneyRow list"

record timedStep =
  ts_at :: time
  ts_step :: JourneyStep

record builder =
  b_txn :: TranLogRow
  b_history :: "StateTransition list"
  b_rev :: "Reversal option"

text \<open>The separators of the technical texts, a middle dot and an arrow, are their UTF-8 bytes.\<close>

definition sep :: string where "sep = '' '' @ [CHR 0xC2, CHR 0xB7] @ '' ''"
definition arrow :: string where "arrow = [CHR 0xE2, CHR 0x86, CHR 0x92]"

definition orDash :: "string \<Rightarrow> string" where "orDash s = (if s = '''' then ''-'' else s)"

definition mkStep :: "StepCode \<Rightarrow> Actor \<Rightarrow> StepKind \<Rightarrow> string \<Rightarrow> string \<Rightarrow> string \<Rightarrow> IsoMessage option \<Rightarrow> JourneyStep" where
  "mkStep code actor kind title easy tech msg = \<lparr>js_Seq = 0, js_Code = code, js_Actor = actor, js_OffsetMs = 0, js_Title = title,
     js_EasyText = easy, js_TechnicalText = tech, js_Kind = kind, js_Message = msg\<rparr>"

section \<open>What differs by transaction type\<close>

definition mtiPair :: "builder \<Rightarrow> string \<times> string" where
  "mtiPair b =
     (if tl_Type (b_txn b) = ''PREAUTH'' then (''0100'', ''0110'')
      else if tl_Type (b_txn b) = ''COMPLETION'' then (''0220'', ''0230'') else (''0200'', ''0210''))"

definition requestMTI :: "builder \<Rightarrow> string" where "requestMTI b = fst (mtiPair b)"
definition b_responseMTI :: "builder \<Rightarrow> string" where "b_responseMTI b = snd (mtiPair b)"

definition requestPath :: "builder \<Rightarrow> string" where
  "requestPath b =
     (let t = tl_Type (b_txn b) in
      if t = ''PREAUTH'' then ''/v1/transactions/pre-authorizations''
      else if t = ''COMPLETION'' then ''/v1/transactions/'' @ orDash (tl_OriginalRRN (b_txn b)) @ ''/completions''
      else if t = ''REFUND'' then ''/v1/transactions/refunds''
      else if t = ''BALANCE'' then ''/v1/transactions/balance-inquiries'' else ''/v1/transactions/purchases'')"

definition carries :: "builder \<Rightarrow> string \<Rightarrow> bool" where
  "carries b de =
     (if tl_Type (b_txn b) = ''COMPLETION'' then de \<noteq> ''2'' \<and> de \<noteq> ''22''
      else if tl_Type (b_txn b) = ''BALANCE'' then de \<noteq> ''4'' \<and> de \<noteq> ''49'' else True)"

definition approvedText :: "builder \<Rightarrow> string" where
  "approvedText b =
     (let t = tl_Type (b_txn b) in
      if t = ''PREAUTH'' then ''The card's bank approved and held the money.''
      else if t = ''REFUND'' then ''The card's bank approved and gave the money back.''
      else if t = ''BALANCE'' then ''The card's bank answered with the balance.''
      else ''The card's bank approved and took the money.'')"

definition moneySign :: "string \<Rightarrow> int" where
  "moneySign tranType = (if tranType = ''REFUND'' then 1 else if tranType = ''BALANCE'' then 0 else -1)"

section \<open>Messages\<close>

definition fieldSpecs :: "(string \<times> string \<times> string \<times> string) list" where
  "fieldSpecs =
     [(''MTI'', ''Message type'', ''Message type indicator'', ''n 4''),
      (''2'', ''Card number (masked)'', ''PAN'', ''n..19 LLVAR''),
      (''3'', ''Transaction type'', ''Processing code'', ''n 6''),
      (''4'', ''Amount'', ''Amount, transaction'', ''n 12''),
      (''7'', ''Sent at (UTC)'', ''Transmission date/time'', ''n 10 MMDDhhmmss''),
      (''11'', ''Trace number'', ''STAN'', ''n 6''),
      (''22'', ''How the card was read'', ''POS entry mode'', ''n 3''),
      (''37'', ''Reference number'', ''RRN'', ''an 12''),
      (''38'', ''Approval code'', ''Authorization ID response'', ''an 6''),
      (''39'', ''Result code'', ''Response code'', ''an 2''),
      (''41'', ''Terminal ID'', ''Terminal ID'', ''ans 8''),
      (''42'', ''Merchant ID'', ''Merchant ID'', ''ans 15''),
      (''49'', ''Currency'', ''Currency code, transaction'', ''n 3''),
      (''90'', ''Original payment'', ''Original data elements'', ''n 42'')]"

definition isoField :: "string \<Rightarrow> string \<Rightarrow> IsoField" where
  "isoField no val =
     (case map_of fieldSpecs no of
        Some (easy, technical, format) \<Rightarrow> \<lparr>isf_DE = no, isf_EasyName = easy, isf_TechnicalName = technical, isf_Format = format, isf_Value = val\<rparr>
      | None \<Rightarrow> \<lparr>isf_DE = no, isf_EasyName = '''', isf_TechnicalName = '''', isf_Format = '''', isf_Value = val\<rparr>)"

definition newMessage :: "string \<Rightarrow> (string \<times> string) list \<Rightarrow> IsoMessage" where
  "newMessage mti values = \<lparr>ism_MTI = mti, ism_Fields = isoField ''MTI'' mti # map (\<lambda>(no, v). isoField no v) (filter (\<lambda>(no, v). v \<noteq> '''') values)\<rparr>"

definition typedMessage :: "builder \<Rightarrow> string \<Rightarrow> (string \<times> string) list \<Rightarrow> IsoMessage" where
  "typedMessage b mti values = newMessage mti (filter (\<lambda>(no, v). carries b no) values)"

definition maskedPAN_de :: "builder \<Rightarrow> string \<times> string" where
  "maskedPAN_de b = (''2'', MaskPAN (tl_MaskedPAN (b_txn b)))"

definition requestDE37 :: "builder \<Rightarrow> string" where
  "requestDE37 b = (if tl_Type (b_txn b) = ''COMPLETION'' \<and> tl_OriginalRRN (b_txn b) \<noteq> '''' then tl_OriginalRRN (b_txn b) else tl_RRN (b_txn b))"

definition requestDE7 :: "builder \<Rightarrow> string" where
  "requestDE7 b = (case tl_SentAt (b_txn b) of None \<Rightarrow> '''' | Some t \<Rightarrow> format_0102150405 t)"

definition amount12 :: "int \<Rightarrow> string" where "amount12 minor = fmt_0d 12 minor"

definition request_message :: "builder \<Rightarrow> IsoMessage" where
  "request_message b =
     (let t = b_txn b in
      typedMessage b (requestMTI b) [maskedPAN_de b, (''3'', tl_ProcessingCode t), (''4'', amount12 (tl_Amount t)), (''7'', requestDE7 b),
        (''11'', tl_NetworkSTAN t), (''22'', tl_POSEntryMode t), (''37'', requestDE37 b), (''41'', tl_TerminalID t), (''42'', tl_MerchantID t),
        (''49'', tl_Currency t)])"

definition response_message :: "builder \<Rightarrow> IsoMessage" where
  "response_message b =
     (let t = b_txn b;
          authCode = (if tl_ResponseCode t = ''00'' \<or> tl_ResponseCode t = ''10'' then tl_AuthCode t else '''') in
      typedMessage b (b_responseMTI b) [maskedPAN_de b, (''3'', tl_ProcessingCode t), (''4'', amount12 (tl_Amount t)), (''7'', requestDE7 b),
        (''11'', tl_NetworkSTAN t), (''37'', requestDE37 b), (''38'', authCode), (''39'', tl_ResponseCode t), (''41'', tl_TerminalID t),
        (''42'', tl_MerchantID t), (''49'', tl_Currency t)])"

definition advice_message :: "builder \<Rightarrow> string \<Rightarrow> IsoMessage option" where
  "advice_message b mti =
     map_option (\<lambda>r. let f = fget (rv_Fields r) in
       newMessage mti [maskedPAN_de b, (''3'', f 3), (''4'', f 4), (''7'', f 7), (''11'', f 11), (''37'', f 37), (''39'', f 39),
         (''41'', f 41), (''42'', f 42), (''49'', f 49), (''90'', f 90)]) (b_rev b)"

definition reversalAck :: "builder \<Rightarrow> IsoMessage option" where
  "reversalAck b =
     map_option (\<lambda>r. let f = fget (rv_Fields r) in
       newMessage ''0430'' [maskedPAN_de b, (''3'', f 3), (''4'', f 4), (''7'', f 7), (''11'', f 11), (''37'', f 37), (''39'', ''00''),
         (''41'', f 41), (''42'', f 42), (''49'', f 49)]) (b_rev b)"

section \<open>Moments\<close>

definition b_start :: "builder \<Rightarrow> time" where
  "b_start b =
     (let s0 = tl_CreatedAt (b_txn b);
          s1 = (case tl_SentAt (b_txn b) of None \<Rightarrow> s0 | Some t \<Rightarrow> if s0 = zeroTime \<or> t < s0 then t else s0)
      in case b_history b of [] \<Rightarrow> s1 | h # _ \<Rightarrow> if s1 = zeroTime \<or> st_At h < s1 then st_At h else s1)"

definition reached :: "builder \<Rightarrow> string \<Rightarrow> time option" where
  "reached b status = map_option st_At (find (\<lambda>st. st_ToStatus st = status) (b_history b))"

definition b_sentAt :: "builder \<Rightarrow> time option" where
  "b_sentAt b = (case reached b ''SENT'' of Some at \<Rightarrow> Some at | None \<Rightarrow> tl_SentAt (b_txn b))"

text \<open>\<open>time.ParseInLocation\<close> with layout \<open>0102150405\<close>: five two-digit numbers in range, the day within its month of a leap year (the
  year 0), and nothing more but a fraction of a second. \<open>time.Date\<close> normalizes 29 February of a common year to 1 March.\<close>

definition two_digits :: "string \<Rightarrow> nat \<Rightarrow> int" where
  "two_digits s i = Atoi_digits (take 2 (drop i s))"

definition fraction_ok :: "string \<Rightarrow> bool" where
  "fraction_ok r \<longleftrightarrow> r = '''' \<or> (hd r = CHR ''.'' \<or> hd r = CHR '','') \<and> tl r \<noteq> '''' \<and> list_all is_digit (tl r)"

definition date_of :: "int \<Rightarrow> int \<Rightarrow> int \<Rightarrow> date" where
  "date_of y m d = january_first y + sum_list (take (nat (m - 1)) (month_lengths y)) + d - 1"

definition parseDE7 :: "string \<Rightarrow> time \<Rightarrow> time option" where
  "parseDE7 de7 ref =
     (if length de7 < 10 \<or> \<not> list_all is_digit (take 10 de7) \<or> \<not> fraction_ok (drop 10 de7) then None
      else
        let mo = two_digits de7 0; da = two_digits de7 2; hh = two_digits de7 4; mi = two_digits de7 6; se = two_digits de7 8
        in if mo < 1 \<or> 12 < mo \<or> da < 1 \<or> month_lengths 0 ! nat (mo - 1) < da \<or> 24 \<le> hh \<or> 60 \<le> mi \<or> 60 \<le> se then None
           else Some (date_of (Year ref) mo da * day_ns + (hh * 3600 + mi * 60 + se) * second_ns))"

section \<open>Reversals\<close>

definition reversalSends :: "builder \<Rightarrow> int" where
  "reversalSends b =
     (case b_rev b of
        None \<Rightarrow> 1
      | Some r \<Rightarrow> if rv_AckedAt r \<noteq> None then rv_Attempts r + 1 else max (rv_Attempts r) 1)"

definition reversalMTI :: "builder \<Rightarrow> string" where
  "reversalMTI b = (if reversalSends b > 1 then ''0421'' else ''0420'')"

definition reversalField :: "builder \<Rightarrow> int \<Rightarrow> string" where
  "reversalField b de = (case b_rev b of None \<Rightarrow> '''' | Some r \<Rightarrow> fget (rv_Fields r) de)"

definition reversalStatus :: "builder \<Rightarrow> string" where
  "reversalStatus b = (case b_rev b of None \<Rightarrow> ''ACKED'' | Some r \<Rightarrow> rv_Status r)"

definition reversalSentAt :: "builder \<Rightarrow> time option" where
  "reversalSentAt b =
     (case b_rev b of
        None \<Rightarrow> reached b ''REVERSED''
      | Some r \<Rightarrow>
          (case (parseDE7 (fget (rv_Fields r) 7) (rv_QueuedAt r), rv_AckedAt r) of
             (Some sent, Some acked) \<Rightarrow> if acked < sent then Some acked else Some sent
           | (sent, _) \<Rightarrow> sent))"

definition reversalConfirmedAt :: "builder \<Rightarrow> time option" where
  "reversalConfirmedAt b =
     (case b_rev b of
        Some r \<Rightarrow> (case rv_AckedAt r of Some t \<Rightarrow> Some t | None \<Rightarrow> reached b ''REVERSED'')
      | None \<Rightarrow> reached b ''REVERSED'')"

section \<open>Steps\<close>

definition requestSteps :: "builder \<Rightarrow> timedStep list" where
  "requestSteps b =
     (let t = b_txn b;
          pos = \<lparr>ts_at = b_start b, ts_step = mkStep CodePOSRequest ActorPOS KindOK ''POS sends the request''
            ''The card was read and the terminal asked for payment.''
            (''POST '' @ requestPath b @ sep @ ''TID '' @ tl_TerminalID t @ sep @ ''entry mode '' @ orDash (tl_POSEntryMode t)) None\<rparr>
      in case b_sentAt b of
           None \<Rightarrow> [pos, \<lparr>ts_at = b_start b, ts_step = mkStep CodeLocalDecline ActorAcquirer KindBad ''Declined before reaching the issuer''
             (EasyTextForRC (tl_ResponseCode t))
             (''Link not signed on'' @ sep @ ''RC '' @ tl_ResponseCode t @ sep @ ''no '' @ requestMTI b @ '' sent'') None\<rparr>]
         | Some sentAt \<Rightarrow> [pos, \<lparr>ts_at = sentAt, ts_step = mkStep CodeRequestSent ActorAcquirer KindOK ''Request sent to the issuer''
             ''The acquirer packed the request and sent it to the card's bank.''
             (requestMTI b @ sep @ ''STAN '' @ tl_NetworkSTAN t @ sep @ ''RRN '' @ tl_RRN t @ sep @ ''amount '' @ FormatInt (tl_Amount t) @ '' '' @ tl_Currency t)
             (Some (request_message b))\<rparr>])"

definition issuerResponse :: "builder \<Rightarrow> string \<Rightarrow> int \<Rightarrow> JourneyStep" where
  "issuerResponse b status elapsedMs =
     (let rc = tl_ResponseCode (b_txn b) in
      if status = ''APPROVED''
      then mkStep CodeIssuerApproved ActorIssuer KindOK ''Issuer approved'' (approvedText b)
        (b_responseMTI b @ sep @ ''RC '' @ rc @ sep @ ''DE 38 '' @ orDash (tl_AuthCode (b_txn b)) @ sep @ FormatInt elapsedMs @ '' ms after the '' @ requestMTI b)
        (Some (response_message b))
      else mkStep CodeIssuerDeclined ActorIssuer KindBad ''Issuer declined'' (EasyTextForRC rc)
        (b_responseMTI b @ sep @ ''RC '' @ rc @ sep @ FormatInt elapsedMs @ '' ms after the '' @ requestMTI b) (Some (response_message b)))"

definition noResponse :: "builder \<Rightarrow> int \<Rightarrow> JourneyStep" where
  "noResponse b elapsedMs = mkStep CodeNoResponse ActorAcquirer KindWarn ''No response from the issuer''
     ''The card's bank did not answer in time, so the acquirer assumes the money was taken.''
     (''No '' @ b_responseMTI b @ '' for STAN '' @ tl_NetworkSTAN (b_txn b) @ '' within '' @ FormatInt elapsedMs @ '' ms'' @ sep @ ''SENT '' @ arrow @ '' TIMED_OUT'') None"

definition posResult :: "builder \<Rightarrow> string \<Rightarrow> StepKind \<Rightarrow> JourneyStep" where
  "posResult b status kind = mkStep CodePOSResult ActorPOS kind ''POS shows the result''
     (if kind \<noteq> KindOK then ''The terminal showed the payment failed. No money is lost.'' else ''The payment went through and the receipt printed.'')
     (''status '' @ status @ sep @ ''RC '' @ orDash (tl_ResponseCode (b_txn b))) None"

definition reversalQueued :: "builder \<Rightarrow> timedStep list" where
  "reversalQueued b =
     (case reached b ''REVERSAL_PENDING'' of
        None \<Rightarrow> []
      | Some at \<Rightarrow> [\<lparr>ts_at = at, ts_step = mkStep CodeReversalQueued ActorSAF KindReversal ''Reversal saved before sending''
          ''The cancel order was written down first, so it survives a restart.''
          (''INSERT saf_queue (0420, PENDING)'' @ sep @ ''reason '' @ orDash (reversalField b 39) @ sep @ ''state '' @ arrow @ '' REVERSAL_PENDING'') None\<rparr>])"

definition outcomeSteps :: "builder \<Rightarrow> timedStep list" where
  "outcomeSteps b =
     (case b_sentAt b of
        None \<Rightarrow> [\<lparr>ts_at = b_start b, ts_step = posResult b ''DECLINED'' KindBad\<rparr>]
      | Some sentAt \<Rightarrow>
          (case reached b ''TIMED_OUT'' of
             Some at \<Rightarrow>
               let steps = \<lparr>ts_at = at, ts_step = noResponse b (msBetween sentAt at)\<rparr> # reversalQueued b
               in steps @ [\<lparr>ts_at = ts_at (last steps), ts_step = posResult b ''TIMED_OUT'' KindBad\<rparr>]
           | None \<Rightarrow>
               (case reached b ''APPROVED'' of
                  Some at \<Rightarrow>
                    let resp = issuerResponse b ''APPROVED'' (msBetween sentAt at)
                    in [\<lparr>ts_at = at, ts_step = resp\<rparr>, \<lparr>ts_at = at, ts_step = posResult b ''APPROVED'' (js_Kind resp)\<rparr>] @ reversalQueued b
                | None \<Rightarrow>
                    (case reached b ''DECLINED'' of
                       Some at \<Rightarrow>
                         let resp = issuerResponse b ''DECLINED'' (msBetween sentAt at)
                         in [\<lparr>ts_at = at, ts_step = resp\<rparr>, \<lparr>ts_at = at, ts_step = posResult b ''DECLINED'' (js_Kind resp)\<rparr>] @ reversalQueued b
                     | None \<Rightarrow> []))))"

definition reversalSent :: "builder \<Rightarrow> JourneyStep" where
  "reversalSent b = mkStep CodeReversalSent ActorAcquirer KindReversal ''Reversal sent'' ''The cancel order went out, naming the original payment.''
     (reversalMTI b @ sep @ ''STAN '' @ orDash (reversalField b 11) @ sep @ ''DE 90 '' @ arrow @ '' '' @ requestMTI b @ '' STAN '' @ tl_NetworkSTAN (b_txn b) @
      sep @ ''attempts '' @ FormatInt (reversalSends b) @ sep @ ''SAF '' @ reversalStatus b) (advice_message b (reversalMTI b))"

definition reversalSteps :: "builder \<Rightarrow> timedStep list" where
  "reversalSteps b =
     (case reversalSentAt b of None \<Rightarrow> [] | Some at \<Rightarrow> [\<lparr>ts_at = at, ts_step = reversalSent b\<rparr>]) @
     (case reversalConfirmedAt b of
        None \<Rightarrow> []
      | Some at \<Rightarrow> [\<lparr>ts_at = at, ts_step = mkStep CodeReversalConfirmed ActorIssuer KindReversal ''Issuer confirmed the reversal''
          ''The money went back to the cardholder.''
          (''0430'' @ sep @ ''RC 00'' @ sep @ ''SAF ACKED after '' @ FormatInt (reversalSends b) @ '' send(s)'' @ sep @ ''state '' @ arrow @ '' REVERSED'')
          (reversalAck b)\<rparr>])"

definition lateResponse :: "builder \<Rightarrow> JourneyStep option" where
  "lateResponse b =
     map_option (\<lambda>at. (mkStep CodeLateResponse ActorIssuer KindWarn ''Late response''
       ''The bank's answer arrived after the acquirer had given up. It is only recorded.''
       (b_responseMTI b @ '' received after timeout, RC '' @ tl_LateResponseCode (b_txn b) @ sep @ ''state unchanged'') None)
         \<lparr>js_OffsetMs := msBetween (b_start b) at\<rparr>) (tl_LateResponseAt (b_txn b))"

section \<open>Putting the journey together\<close>

fun withOffsets :: "timedStep list \<Rightarrow> time \<Rightarrow> int \<Rightarrow> JourneyStep list" where
  "withOffsets [] start prev = []"
| "withOffsets (ts # rest) start prev =
     (let off = max prev (msBetween start (ts_at ts)) in (ts_step ts)\<lparr>js_OffsetMs := off\<rparr> # withOffsets rest start off)"

text \<open>\<open>sort.Search\<close>: binary search for the least index at which the predicate holds.\<close>

function sort_Search :: "(nat \<Rightarrow> bool) \<Rightarrow> nat \<Rightarrow> nat \<Rightarrow> nat" where
  "sort_Search f i j = (if i < j then let h = (i + j) div 2 in if \<not> f h then sort_Search f (h + 1) j else sort_Search f i h else i)"
  by pat_completeness auto
termination
  by (relation "measure (\<lambda>(f, i, j). j - i)") auto

declare sort_Search.simps [simp del]

definition insertAtOffset :: "JourneyStep list \<Rightarrow> JourneyStep \<Rightarrow> JourneyStep list" where
  "insertAtOffset steps s =
     (let i = sort_Search (\<lambda>i. js_OffsetMs (steps ! i) > js_OffsetMs s) 0 (length steps) in take i steps @ [s] @ drop i steps)"

fun number_from :: "int \<Rightarrow> JourneyStep list \<Rightarrow> JourneyStep list" where
  "number_from n [] = []"
| "number_from n (s # ss) = s\<lparr>js_Seq := n\<rparr> # number_from (n + 1) ss"

definition seqOf :: "JourneyStep list \<Rightarrow> StepCode \<Rightarrow> int" where
  "seqOf steps code = (case find (\<lambda>s. js_Code s = code) steps of Some s \<Rightarrow> js_Seq s | None \<Rightarrow> 0)"

definition debitStep :: "JourneyStep list \<Rightarrow> int" where
  "debitStep steps =
     (if seqOf steps CodeIssuerApproved > 0 then seqOf steps CodeIssuerApproved
      else if seqOf steps CodeNoResponse > 0 then seqOf steps CodeNoResponse
      else if seqOf steps CodeReversalQueued > 0 then seqOf steps CodeIssuerDeclined else 0)"

definition moneyLabel :: "string \<Rightarrow> string" where
  "moneyLabel tranType = (if tranType = ''REFUND'' then ''Refund'' else if tranType = ''PREAUTH'' then ''Hold''
     else if tranType = ''COMPLETION'' then ''Completion'' else ''Purchase'')"

definition reversalLabel :: "string \<Rightarrow> string" where
  "reversalLabel tranType = (if tranType = ''REFUND'' then ''Reversal'' else ''Refund'')"

definition moneyRows :: "TranLogRow \<Rightarrow> JourneyStep list \<Rightarrow> MoneyRow list" where
  "moneyRows txn steps =
     (let sign = moneySign (tl_Type txn); debitAt = debitStep steps; reversedAt = seqOf steps CodeReversalConfirmed
      in if debitAt = 0 \<or> sign = 0 then []
         else \<lparr>mr_Label = moneyLabel (tl_Type txn), mr_Delta = sign * tl_Amount txn, mr_BalanceAfter = None, mr_AtStep = debitAt\<rparr> #
           (if reversedAt > 0
            then [\<lparr>mr_Label = reversalLabel (tl_Type txn), mr_Delta = - sign * tl_Amount txn, mr_BalanceAfter = None, mr_AtStep = reversedAt\<rparr>] else []))"

definition BuildJourney :: "TranLogRow \<Rightarrow> StateTransition list \<Rightarrow> Reversal option \<Rightarrow> Journey" where
  "BuildJourney txn history reversal =
     (let b = \<lparr>b_txn = txn, b_history = history, b_rev = reversal\<rparr>;
          steps0 = withOffsets (requestSteps b @ outcomeSteps b @ reversalSteps b) (b_start b) 0;
          steps1 = (case lateResponse b of None \<Rightarrow> steps0 | Some late \<Rightarrow> insertAtOffset steps0 late);
          steps = number_from 1 steps1
      in \<lparr>jn_Steps = steps, jn_Money = moneyRows txn steps\<rparr>)"

lemma mkStep_sel [simp]: "js_Message (mkStep code actor kind title easy tech msg) = msg" "js_Code (mkStep code actor kind title easy tech msg) = code"
  by (simp_all add: mkStep_def)

section \<open>Order and numbering\<close>

lemma withOffsets_sorted:
  "sorted (map js_OffsetMs (withOffsets ts start prev)) \<and> (\<forall>s \<in> set (withOffsets ts start prev). prev \<le> js_OffsetMs s)"
  by (induction ts start prev rule: withOffsets.induct) (fastforce simp: Let_def)+

text \<open>Binary search returns the first index at which a monotone predicate holds, in at most logarithmically many probes of the interval.\<close>

lemma sort_Search_first:
  assumes "\<And>h k. f h \<Longrightarrow> h \<le> k \<Longrightarrow> k < n \<Longrightarrow> f k" "i \<le> j" "j \<le> n" "\<And>k. k < i \<Longrightarrow> \<not> f k" "\<And>k. j \<le> k \<Longrightarrow> k < n \<Longrightarrow> f k"
  shows "sort_Search f i j \<le> n \<and> (\<forall>k < sort_Search f i j. \<not> f k) \<and> (\<forall>k. sort_Search f i j \<le> k \<longrightarrow> k < n \<longrightarrow> f k)"
  using assms
proof (induction f i j rule: sort_Search.induct)
  case (1 f i j)
  show ?case
  proof (cases "i < j")
    case True
    define h where "h = (i + j) div 2"
    have h: "i \<le> h" "h < j" using True by (auto simp: h_def)
    show ?thesis
    proof (cases "f h")
      case fh: True
      have "sort_Search f i h \<le> n \<and> (\<forall>k < sort_Search f i h. \<not> f k) \<and> (\<forall>k. sort_Search f i h \<le> k \<longrightarrow> k < n \<longrightarrow> f k)"
        using "1.prems" h fh by (intro "1.IH"(2) [OF True h_def]) auto
      then show ?thesis using True fh by (simp add: sort_Search.simps [of f i j] Let_def h_def [symmetric])
    next
      case fh: False
      have below: "\<not> f k" if "k < h + 1" for k using "1.prems"(1) [of k h] fh h that "1.prems"(3) by auto
      have "sort_Search f (h + 1) j \<le> n \<and> (\<forall>k < sort_Search f (h + 1) j. \<not> f k) \<and> (\<forall>k. sort_Search f (h + 1) j \<le> k \<longrightarrow> k < n \<longrightarrow> f k)"
        using "1.prems" h fh below by (intro "1.IH"(1) [OF True h_def]) auto
      then show ?thesis using True fh by (simp add: sort_Search.simps [of f i j] Let_def h_def [symmetric])
    qed
  next
    case False
    then have "sort_Search f i j = i" "i = j" using "1.prems"(2) by (subst sort_Search.simps, simp, linarith)
    with "1.prems" show ?thesis by auto
  qed
qed

lemma insertAtOffset_sorted:
  assumes "sorted (map js_OffsetMs steps)"
  shows "sorted (map js_OffsetMs (insertAtOffset steps s)) \<and> set (insertAtOffset steps s) = insert s (set steps)"
proof -
  let ?f = "\<lambda>i. js_OffsetMs s < js_OffsetMs (steps ! i)"
  define i where "i = sort_Search ?f 0 (length steps)"
  have mono: "?f k" if "?f h" "h \<le> k" "k < length steps" for h k
    using that sorted_nth_mono [OF assms, of h k] by simp
  have first: "i \<le> length steps \<and> (\<forall>k < i. \<not> ?f k) \<and> (\<forall>k. i \<le> k \<longrightarrow> k < length steps \<longrightarrow> ?f k)"
    unfolding i_def by (rule sort_Search_first [OF mono]) simp_all
  note i = first [THEN conjunct1] first [THEN conjunct2, THEN conjunct1, rule_format]
    first [THEN conjunct2, THEN conjunct2, rule_format]
  have lo: "js_OffsetMs x \<le> js_OffsetMs s" if x: "x \<in> set (take i steps)" for x
  proof -
    obtain k where k: "k < length (take i steps)" "x = take i steps ! k" using x unfolding in_set_conv_nth by blast
    then have "k < i" by simp
    with k i(2) show ?thesis by (simp add: not_less)
  qed
  have hi: "js_OffsetMs s < js_OffsetMs x" if x: "x \<in> set (drop i steps)" for x
  proof -
    obtain k where "k < length (drop i steps)" "x = drop i steps ! k" using x unfolding in_set_conv_nth by blast
    then show ?thesis using i(3) [of "i + k"] by simp
  qed
  have "sorted (map js_OffsetMs (take i steps))" "sorted (map js_OffsetMs (drop i steps))"
    using assms by (simp_all add: take_map [symmetric] drop_map [symmetric] sorted_wrt_take sorted_wrt_drop)
  with lo hi have "sorted (map js_OffsetMs (take i steps @ [s] @ drop i steps))"
    by (fastforce simp: sorted_append)
  moreover have "set (take i steps @ [s] @ drop i steps) = insert s (set steps)"
    using append_take_drop_id [of i steps] by (metis Un_insert_right set_append list.simps(15) append_Cons append_Nil)
  ultimately show ?thesis by (simp add: insertAtOffset_def Let_def i_def [symmetric])
qed

lemma number_from_simps [simp]:
  "map js_OffsetMs (number_from n ss) = map js_OffsetMs ss" "map js_Code (number_from n ss) = map js_Code ss"
  "map js_Message (number_from n ss) = map js_Message ss" "length (number_from n ss) = length ss"
  "map js_Seq (number_from n ss) = map (\<lambda>i. n + int i) [0..<length ss]"
proof (induction ss arbitrary: n)
  case (Cons s ss)
  {
    case 5
    show ?case using Cons.IH(5) [of "n + 1"] by (simp add: map_upt_Suc algebra_simps del: upt_Suc)
  }
qed simp_all

lemma number_from_all: "list_all (\<lambda>s. P (js_OffsetMs s)) (number_from n ss) = list_all (\<lambda>s. P (js_OffsetMs s)) ss"
  by (induction ss arbitrary: n) simp_all

text \<open>The steps before numbering, as one fact about \<open>BuildJourney\<close>.\<close>

lemma BuildJourney_steps:
  fixes txn history reversal defines "b \<equiv> \<lparr>b_txn = txn, b_history = history, b_rev = reversal\<rparr>"
  obtains ss where "jn_Steps (BuildJourney txn history reversal) = number_from 1 ss" "sorted (map js_OffsetMs ss)" "\<And>s. s \<in> set ss \<Longrightarrow> 0 \<le> js_OffsetMs s"
    "\<And>s. s \<in> set ss \<Longrightarrow> (\<exists>ts \<in> set (requestSteps b @ outcomeSteps b @ reversalSteps b). js_Message s = js_Message (ts_step ts)) \<or> js_Message s = None"
proof -
  define ts where "ts = requestSteps b @ outcomeSteps b @ reversalSteps b"
  define s0 where "s0 = withOffsets ts (b_start b) 0"
  define ss where "ss = (case lateResponse b of None \<Rightarrow> s0 | Some late \<Rightarrow> insertAtOffset s0 late)"
  have o: "sorted (map js_OffsetMs s0)" "\<And>s. s \<in> set s0 \<Longrightarrow> 0 \<le> js_OffsetMs s"
    using withOffsets_sorted [of ts "b_start b" 0] by (auto simp: s0_def)
  have m: "(\<exists>t \<in> set ts. js_Message s = js_Message (ts_step t))" if "s \<in> set s0" for s
  proof -
    have "s \<in> set (withOffsets ts start prev) \<Longrightarrow> \<exists>t \<in> set ts. js_Message s = js_Message (ts_step t)" for start prev
      by (induction ts start prev rule: withOffsets.induct) (auto simp: Let_def)
    then show ?thesis using that by (simp add: s0_def)
  qed
  have late: "0 \<le> js_OffsetMs l \<and> js_Message l = None" if "lateResponse b = Some l" for l
    using that by (auto simp: lateResponse_def mkStep_def msBetween_def)
  have steps: "jn_Steps (BuildJourney txn history reversal) = number_from 1 ss"
    unfolding ss_def s0_def ts_def BuildJourney_def Let_def b_def by simp
  show thesis
  proof (cases "lateResponse b")
    case None
    then show ?thesis using steps o m by (intro that [of s0]) (auto simp: ss_def ts_def)
  next
    case (Some l)
    then have "ss = insertAtOffset s0 l" by (simp add: ss_def)
    then show ?thesis
      using steps o m late [OF Some] insertAtOffset_sorted [OF o(1), of l] by (intro that [of ss]) (auto simp: ts_def)
  qed
qed

text \<open>C27: A journey is told in order. Whatever the stored timestamps (clocks of different statements, DE 7 with its second precision, a late response in the middle), the steps
  are numbered 1, 2, 3, ... and their offsets from the first event are non-negative and never decrease.\<close>

theorem journey_in_order:
  "sorted (map js_OffsetMs (jn_Steps (BuildJourney txn history reversal))) \<and>
   list_all (\<lambda>s. 0 \<le> js_OffsetMs s) (jn_Steps (BuildJourney txn history reversal)) \<and>
   map js_Seq (jn_Steps (BuildJourney txn history reversal)) = map (\<lambda>i. 1 + int i) [0..<length (jn_Steps (BuildJourney txn history reversal))]"
proof -
  obtain ss where s: "jn_Steps (BuildJourney txn history reversal) = number_from 1 ss" "sorted (map js_OffsetMs ss)" "\<And>s. s \<in> set ss \<Longrightarrow> 0 \<le> js_OffsetMs s"
    by (rule BuildJourney_steps [of txn history reversal]) (rule that)
  have "list_all (\<lambda>s. 0 \<le> js_OffsetMs s) (number_from 1 ss)" using s(3) by (subst number_from_all) (simp add: list_all_iff)
  then show ?thesis unfolding s(1) using s(2) by simp
qed

section \<open>What is shown\<close>

text \<open>Masking: a text is cut into runs of word characters.\<close>

lemma MaskPAN_run:
  assumes "list_all is_word_char run" "rest = [] \<or> \<not> is_word_char (hd rest)"
  shows "MaskPAN (run @ rest) = mask_run run @ MaskPAN rest"
proof (cases run)
  case (Cons c cs)
  have "takeWhile is_word_char (run @ rest) = run" "dropWhile is_word_char (run @ rest) = rest"
    using assms by (auto simp: list_all_iff takeWhile_append2 dropWhile_append2) (cases rest; simp)+
  then show ?thesis using Cons assms(1) by simp
qed (simp add: mask_run_def)

lemma MaskPAN_other: "list_all (\<lambda>c. \<not> is_word_char c) xs \<Longrightarrow> MaskPAN (xs @ rest) = xs @ MaskPAN rest"
  by (induction xs) auto

lemma MaskPAN_hd: "xs = [] \<or> \<not> is_word_char (hd xs) \<Longrightarrow> MaskPAN xs = [] \<or> \<not> is_word_char (hd (MaskPAN xs))"
  by (cases xs) auto

lemma digits_are_word: "list_all is_digit xs \<Longrightarrow> list_all is_word_char xs"
  by (auto simp: list_all_iff is_word_char_def)

lemma MaskPAN_again:
  assumes "list_all is_word_char run" "rest = [] \<or> \<not> is_word_char (hd rest)"
  shows "MaskPAN (mask_run run @ rest) = mask_run run @ MaskPAN rest"
proof (cases "13 \<le> length run \<and> length run \<le> 19 \<and> list_all is_digit run")
  case True
  define a where "a = take 6 run"
  define z where "z = drop (length run - 4) run"
  define st where "st = replicate (length run - 10) (CHR ''*'')"
  have r: "mask_run run = a @ st @ z" using True by (simp add: mask_run_def a_def st_def z_def)
  have star: "\<not> is_word_char (CHR ''*'')" by (simp add: is_word_char_def is_digit_def)
  have w: "list_all is_word_char a" "list_all is_word_char z" using assms(1) by (auto simp: a_def z_def list_all_iff dest: in_set_takeD in_set_dropD)
  have short: "mask_run a = a" "mask_run z = z" using True by (auto simp: mask_run_def a_def z_def)
  have "MaskPAN (a @ st @ z @ rest) = mask_run a @ MaskPAN (st @ z @ rest)"
    by (rule MaskPAN_run [OF w(1)]) (use True star in \<open>simp add: st_def hd_append\<close>)
  also have "MaskPAN (st @ z @ rest) = st @ MaskPAN (z @ rest)"
    by (rule MaskPAN_other) (simp add: st_def list_all_iff star)
  also have "MaskPAN (z @ rest) = mask_run z @ MaskPAN rest" by (rule MaskPAN_run [OF w(2) assms(2)])
  finally show ?thesis by (simp add: r short)
next
  case False
  then have "mask_run run = run" by (auto simp: mask_run_def)
  then show ?thesis using MaskPAN_run [OF assms] by simp
qed

lemma MaskPAN_idem: "MaskPAN (MaskPAN xs) = MaskPAN xs"
proof (induction xs rule: MaskPAN.induct)
  case (2 c cs)
  show ?case
  proof (cases "is_word_char c")
    case True
    define run where "run = takeWhile is_word_char (c # cs)"
    define rest where "rest = dropWhile is_word_char (c # cs)"
    have e: "MaskPAN (c # cs) = mask_run run @ MaskPAN rest" using True by (simp add: run_def rest_def)
    have "rest = [] \<or> \<not> is_word_char (hd rest)" unfolding rest_def using hd_dropWhile by blast
    then have "MaskPAN rest = [] \<or> \<not> is_word_char (hd (MaskPAN rest))" by (rule MaskPAN_hd)
    moreover have "list_all is_word_char run" by (auto simp: run_def list_all_iff dest: set_takeWhileD)
    ultimately have "MaskPAN (mask_run run @ MaskPAN rest) = mask_run run @ MaskPAN (MaskPAN rest)" by (intro MaskPAN_again)
    then show ?thesis using e "2.IH"(1) [OF True] by (simp add: rest_def)
  qed (use "2.IH"(2) in simp)
qed simp

text \<open>The field rows of a message, and a wire message as the journey displays it.\<close>

definition shown :: "IsoMessage \<Rightarrow> (string \<times> string) list" where
  "shown m = map (\<lambda>f. (isf_DE f, isf_Value f)) (tl (ism_Fields m))"

definition wire_view :: "fields \<Rightarrow> (string \<times> string) list" where
  "wire_view fs = filter (\<lambda>(no, v). v \<noteq> '''')
     (map (\<lambda>n. (FormatInt n, if n = 2 then MaskPAN (fget fs 2) else fget fs n)) [2, 3, 4, 7, 11, 22, 37, 41, 42, 49])"

lemma isoField_sel [simp]: "isf_DE (isoField no v) = no" "isf_Value (isoField no v) = v"
  by (auto simp: isoField_def split: option.split)

text \<open>The filter that drops empty values, one field at a time.\<close>

definition present :: "string \<Rightarrow> string \<Rightarrow> (string \<times> string) list" where
  "present no v = (if v = '''' then [] else [(no, v)])"

fun presents :: "(string \<times> string) list \<Rightarrow> (string \<times> string) list" where
  "presents [] = []"
| "presents ((no, v) # rest) = present no v @ presents rest"

lemma filter_present: "filter (\<lambda>(no, v). v \<noteq> '''') xs = presents xs"
  by (induction xs rule: presents.induct) (auto simp: present_def)

lemma present_empty [simp]: "present no '''' = []"
  by (simp add: present_def)

lemma shown_newMessage: "shown (newMessage mti values) = presents values"
  by (simp add: shown_def newMessage_def comp_def case_prod_unfold filter_present [symmetric])

lemma display_numbers:
  "FormatInt 2 = ''2''" "FormatInt 3 = ''3''" "FormatInt 4 = ''4''" "FormatInt 7 = ''7''" "FormatInt 11 = ''11''" "FormatInt 22 = ''22''"
  "FormatInt 37 = ''37''" "FormatInt 41 = ''41''" "FormatInt 42 = ''42''" "FormatInt 49 = ''49''"
  by code_simp+

text \<open>The row as it was stored, and the journey's view of it.\<close>

definition stored_row :: "TranLogRow \<Rightarrow> db \<Rightarrow> TranLogRow" where
  "stored_row row d = last (db_tran (snd (insertTranLog row d)))"

definition request_shown :: "TranLogRow \<Rightarrow> string \<times> (string \<times> string) list" where
  "request_shown row = (ism_MTI (request_message \<lparr>b_txn = row, b_history = [], b_rev = None\<rparr>), shown (request_message \<lparr>b_txn = row, b_history = [], b_rev = None\<rparr>))"

lemmas request_shown_defs = request_shown_def stored_row_def request_message_def typedMessage_def shown_newMessage carries_def maskedPAN_de_def
  requestMTI_def mtiPair_def requestDE7_def requestDE37_def amount12_def insertTranLog_def Let_def

lemma newMessage_MTI [simp]: "ism_MTI (newMessage mti values) = mti"
  by (simp add: newMessage_def)

lemma attachMAC_fget: "attachMAC e z mti fs = Inr fs' \<Longrightarrow> n \<noteq> 64 \<Longrightarrow> fget fs' n = fget fs n"
  by (auto elim!: attachMAC_Inr)

lemma finalizeFields_view:
  assumes "finalizeFields g p w = (Inr (merchant, p1), w1)"
  shows "p1 = p\<lparr>sp_fields := sp_fields p1\<rparr>"
    and "n \<notin> {15, 42, 64} \<Longrightarrow> fget (sp_fields p1) n = fget (sp_fields p) n"
    and "42 \<in> fst ` set (sp_fields p) \<Longrightarrow> fget (sp_fields p1) 42 = me_MID merchant"
proof -
  define fs2 where "fs2 = (let fs1 = fput 15 (MMDD (sp_businessDate p)) (sp_fields p) in if 42 \<in> fst ` set fs1 then fput 42 (me_MID merchant) fs1 else fs1)"
  obtain fs3 where "attachMAC (mac_env.truncate g) (gw_zak w1) (sp_mti p) (let fs1 = fput 15 (MMDD (sp_businessDate p)) (sp_fields p) in if 42 \<in> fst ` set fs1 then fput 42 (me_MID merchant) fs1 else fs1) = Inr fs3"
    "p1 = p\<lparr>sp_fields := fs3\<rparr>"
    using assms unfolding finalizeFields_def Let_def by (simp split: prod.splits sum.splits)
  then have a: "attachMAC (mac_env.truncate g) (gw_zak w1) (sp_mti p) fs2 = Inr (sp_fields p1)" "p1 = p\<lparr>sp_fields := sp_fields p1\<rparr>"
    by (simp_all add: fs2_def)
  show "p1 = p\<lparr>sp_fields := sp_fields p1\<rparr>" by (rule a(2))
  show "fget (sp_fields p1) n = fget (sp_fields p) n" if "n \<notin> {15, 42, 64}"
    using that attachMAC_fget [OF a(1), of n] by (simp add: fs2_def Let_def)
  show "fget (sp_fields p1) 42 = me_MID merchant" if "42 \<in> fst ` set (sp_fields p)"
    using that attachMAC_fget [OF a(1), of 42] by (auto simp: fs2_def Let_def)
qed

lemma request_shown_params:
  "request_shown (stored_row (request_row_of g p m1) d) =
     (if sp_txnType p = ''PREAUTH'' then ''0100'' else if sp_txnType p = ''COMPLETION'' then ''0220'' else ''0200'',
      presents (filter (\<lambda>(no, v). if sp_txnType p = ''COMPLETION'' then no \<noteq> ''2'' \<and> no \<noteq> ''22''
          else if sp_txnType p = ''BALANCE'' then no \<noteq> ''4'' \<and> no \<noteq> ''49'' else True)
        [(''2'', MaskPAN (sp_maskedPAN p)), (''3'', fget (sp_fields p) 3), (''4'', fmt_0d 12 (mo_Amount (sp_requestedAmt p))),
         (''7'', format_0102150405 (sp_sentAt p)), (''11'', sp_stan p), (''22'', sp_posEntryMode p),
         (''37'', if sp_txnType p = ''COMPLETION'' \<and> sp_originalRRN p \<noteq> '''' then sp_originalRRN p else sp_rrn p),
         (''41'', sp_terminalID p), (''42'', me_MID m1), (''49'', mo_Currency (sp_requestedAmt p))]))"
  by (simp add: request_shown_defs request_row_of_def)

lemma wire_view_flow: "wire_view fs = presents
   [(''2'', MaskPAN (fget fs 2)), (''3'', fget fs 3), (''4'', fget fs 4), (''7'', fget fs 7), (''11'', fget fs 11), (''22'', fget fs 22),
    (''37'', fget fs 37), (''41'', fget fs 41), (''42'', fget fs 42), (''49'', fget fs 49)]"
  unfolding wire_view_def filter_present by (simp add: display_numbers)

text \<open>C15: The journey shows the message that was sent. For a purchase, and for every pre-authorization, completion, refund and balance inquiry, the request the journey
  rebuilds from the stored row has the MTI of the message the flow sent and, of the fields it displays, exactly those the message carries with
  their values: the card number masked, no card data for a completion, no amount for a balance inquiry, the RRN of the pre-authorization in a completion.\<close>

theorem journey_shows_what_was_sent:
  assumes "finalizeFields g p w = (Inr (m1, p1), w1)" "orig \<noteq> ''''"
    and "p \<in> {preauth_params preq crd stan up now, completion_params orig amount pre stan up now, refund_params preq crd stan up now, balance_params breq crd stan up now}"
  shows "request_shown (stored_row (purchase_row g req merchant (MaskPAN (cf_PAN crd)) stan now) d) = (''0200'', wire_view (purchase_fields g req crd merchant stan now)) \<and>
    request_shown (stored_row (request_row_of g p1 m1) d) = (sp_mti p1, wire_view (sp_fields p1))"
proof
  show "request_shown (stored_row (purchase_row g req merchant (MaskPAN (cf_PAN crd)) stan now) d) = (''0200'', wire_view (purchase_fields g req crd merchant stan now))"
    by (simp add: request_shown_defs wire_view_flow purchase_row_def purchase_fields_def fget_def MaskPAN_idem)
  obtain fs where p1: "p1 = p\<lparr>sp_fields := fs\<rparr>" using finalizeFields_view(1) [OF assms(1)] by blast
  have F: "fget fs n = fget (sp_fields p) n" if "n \<notin> {15, 42, 64}" for n
    using finalizeFields_view(2) [OF assms(1) that] p1 by simp
  have M: "fget fs 42 = me_MID m1" if "42 \<in> fst ` set (sp_fields p)" using finalizeFields_view(3) [OF assms(1) that] p1 by simp
  show "request_shown (stored_row (request_row_of g p1 m1) d) = (sp_mti p1, wire_view (sp_fields p1))"
    using assms(3) unfolding insert_iff empty_iff
  proof (elim disjE FalseE)
    assume "p = preauth_params preq crd stan up now"
    then show ?thesis using M by (simp add: p1 request_shown_params wire_view_flow F preauth_params_def) (simp add: fget_def MaskPAN_idem)
  next
    assume "p = completion_params orig amount pre stan up now"
    then show ?thesis using M assms(2) by (simp add: p1 request_shown_params wire_view_flow F completion_params_def) (simp add: fget_def)
  next
    assume "p = refund_params preq crd stan up now"
    then show ?thesis using M by (simp add: p1 request_shown_params wire_view_flow F refund_params_def) (simp add: fget_def MaskPAN_idem)
  next
    assume "p = balance_params breq crd stan up now"
    then show ?thesis using M by (simp add: p1 request_shown_params wire_view_flow F balance_params_def) (simp add: fget_def MaskPAN_idem)
  qed
qed

definition toy_preauth :: PreAuthRequest where
  "toy_preauth = \<lparr>cp_TerminalID = ''00000042'', cp_CardToken = ''tok_normal'', cp_EntryMode = ''CHIP_PIN'', cp_EncryptedPinBlock = '''',
     cp_EMVData = '''', pa_Amount = \<lparr>mo_Amount = 50000, mo_Currency = ''704''\<rparr>\<rparr>"

definition toy_card :: CardFixture where
  "toy_card = \<lparr>cf_CardToken = ''tok_normal'', cf_PAN = ''9704360000004417'', cf_ExpiryYYMM = ''2811'', cf_Balance = 5000000, cf_Currency = ''704'', cf_CardRef = ''crd_normal0001''\<rparr>"

definition toy_flow :: sendParams where
  "toy_flow = preauth_params toy_preauth toy_card ''000042'' True (1727950000 * second_ns)"

lemma toy_flow_final: "\<exists>m1 p1 w1. finalizeFields toy_genv toy_flow (toy_gw toy_db [] []) = (Inr (m1, p1), w1)"
proof -
  have "(case fst (finalizeFields toy_genv toy_flow (toy_gw toy_db [] [])) of Inl _ \<Rightarrow> False | Inr _ \<Rightarrow> True)" by code_simp
  then show ?thesis by (cases "finalizeFields toy_genv toy_flow (toy_gw toy_db [] [])"; cases "fst (finalizeFields toy_genv toy_flow (toy_gw toy_db [] []))") auto
qed

theorem journey_shows_what_was_sent_witness:
  "\<exists>m1 p1. request_shown (stored_row (request_row_of toy_genv p1 m1) toy_db) = (sp_mti p1, wire_view (sp_fields p1))"
proof -
  obtain m1 p1 w1 where f: "finalizeFields toy_genv toy_flow (toy_gw toy_db [] []) = (Inr (m1, p1), w1)" using toy_flow_final by blast
  show ?thesis
    using journey_shows_what_was_sent [OF f, of "''627614000041''" toy_preauth toy_card "''000042''" True "1727950000 * second_ns" "\<lparr>mo_Amount = 1, mo_Currency = ''704''\<rparr>" TranLogRow_zero _ _ _ toy_db]
    unfolding toy_flow_def by blast
qed

lemma message_de2:
  "f \<in> set (ism_Fields (newMessage mti ((''2'', v) # values))) \<Longrightarrow> isf_DE f = ''2'' \<Longrightarrow> ''2'' \<notin> fst ` set values \<Longrightarrow> isf_Value f = v"
  "f \<in> set (ism_Fields (typedMessage b mti ((''2'', v) # values))) \<Longrightarrow> isf_DE f = ''2'' \<Longrightarrow> ''2'' \<notin> fst ` set values \<Longrightarrow> isf_Value f = v"
  by (force simp: typedMessage_def newMessage_def split: if_splits)+

text \<open>C28: A clear card number is never shown. In every message of a journey DE 2 is the stored card number masked once more, and a stored clear number of 13 to 19 digits
  (kept by mistake) is shown by its first six and last four digits only.\<close>

theorem journey_masks_pan:
  assumes "s \<in> set (jn_Steps (BuildJourney txn history reversal))" "js_Message s = Some m" "f \<in> set (ism_Fields m)" "isf_DE f = ''2''"
  shows "isf_Value f = MaskPAN (tl_MaskedPAN txn) \<and>
    (13 \<le> length (tl_MaskedPAN txn) \<and> length (tl_MaskedPAN txn) \<le> 19 \<and> list_all is_digit (tl_MaskedPAN txn) \<longrightarrow>
      isf_Value f = take 6 (tl_MaskedPAN txn) @ replicate (length (tl_MaskedPAN txn) - 10) (CHR ''*'') @ drop (length (tl_MaskedPAN txn) - 4) (tl_MaskedPAN txn))"
proof -
  define b where "b = \<lparr>b_txn = txn, b_history = history, b_rev = reversal\<rparr>"
  obtain ss where n: "jn_Steps (BuildJourney txn history reversal) = number_from 1 ss"
    and msg: "\<And>s. s \<in> set ss \<Longrightarrow> (\<exists>ts \<in> set (requestSteps b @ outcomeSteps b @ reversalSteps b). js_Message s = js_Message (ts_step ts)) \<or> js_Message s = None"
    by (rule BuildJourney_steps [of txn history reversal, folded b_def]) (rule that)
  have "js_Message s \<in> js_Message ` set (number_from 1 ss)" using assms(1) n by simp
  also have "js_Message ` set (number_from 1 ss) = js_Message ` set ss" by (metis number_from_simps(3) set_map)
  finally have "js_Message s \<in> js_Message ` set ss" .
  then obtain ts where "ts \<in> set (requestSteps b @ outcomeSteps b @ reversalSteps b)" "js_Message (ts_step ts) = Some m"
    using msg assms(2) by fastforce
  then have m: "m = request_message b \<or> m = response_message b \<or> (\<exists>mti. advice_message b mti = Some m) \<or> reversalAck b = Some m"
    by (auto simp: requestSteps_def outcomeSteps_def reversalSteps_def reversalQueued_def issuerResponse_def noResponse_def posResult_def reversalSent_def Let_def
        split: option.splits if_splits)

  have "isf_Value f = MaskPAN (tl_MaskedPAN txn)"
    using m
  proof (elim disjE exE)
    assume "m = request_message b"
    then show ?thesis using assms(3,4) unfolding request_message_def maskedPAN_de_def Let_def by (intro message_de2(2)) (auto simp: b_def)
  next
    assume "m = response_message b"
    then show ?thesis using assms(3,4) unfolding response_message_def maskedPAN_de_def Let_def by (intro message_de2(2)) (auto simp: b_def)
  next
    fix mti assume "advice_message b mti = Some m"
    then obtain r :: Reversal where "m = newMessage mti [(''2'', MaskPAN (tl_MaskedPAN txn)), (''3'', fget (rv_Fields r) 3), (''4'', fget (rv_Fields r) 4), (''7'', fget (rv_Fields r) 7),
        (''11'', fget (rv_Fields r) 11), (''37'', fget (rv_Fields r) 37), (''39'', fget (rv_Fields r) 39), (''41'', fget (rv_Fields r) 41), (''42'', fget (rv_Fields r) 42),
        (''49'', fget (rv_Fields r) 49), (''90'', fget (rv_Fields r) 90)]"
      by (auto simp: advice_message_def maskedPAN_de_def b_def Let_def)
    with assms(3,4) show ?thesis by (intro message_de2(1)) auto
  next
    assume "reversalAck b = Some m"
    then obtain r :: Reversal where "m = newMessage ''0430'' [(''2'', MaskPAN (tl_MaskedPAN txn)), (''3'', fget (rv_Fields r) 3), (''4'', fget (rv_Fields r) 4), (''7'', fget (rv_Fields r) 7),
        (''11'', fget (rv_Fields r) 11), (''37'', fget (rv_Fields r) 37), (''39'', ''00''), (''41'', fget (rv_Fields r) 41), (''42'', fget (rv_Fields r) 42), (''49'', fget (rv_Fields r) 49)]"
      by (auto simp: reversalAck_def maskedPAN_de_def b_def Let_def)
    with assms(3,4) show ?thesis by (intro message_de2(1)) auto
  qed
  moreover have "MaskPAN (tl_MaskedPAN txn) = mask_run (tl_MaskedPAN txn)" if "list_all is_digit (tl_MaskedPAN txn)"
    using MaskPAN_run [of "tl_MaskedPAN txn" "[]"] digits_are_word [OF that] by simp
  ultimately show ?thesis by (simp add: mask_run_def)
qed

theorem journey_masks_pan_witness:
  "\<exists>s m f. s \<in> set (jn_Steps (BuildJourney (toy_row\<lparr>tl_MaskedPAN := ''9704360000004417''\<rparr>) [] None)) \<and> js_Message s = Some m \<and>
     f \<in> set (ism_Fields m) \<and> isf_DE f = ''2'' \<and> isf_Value f = ''970436******4417''"
proof -
  let ?txn = "toy_row\<lparr>tl_MaskedPAN := ''9704360000004417''\<rparr>"
  have "list_ex (\<lambda>s. case js_Message s of None \<Rightarrow> False | Some m \<Rightarrow> list_ex (\<lambda>f. isf_DE f = ''2'') (ism_Fields m)) (jn_Steps (BuildJourney ?txn [] None))"
    by code_simp
  then obtain s m f where f: "s \<in> set (jn_Steps (BuildJourney ?txn [] None))" "js_Message s = Some m" "f \<in> set (ism_Fields m)" "isf_DE f = ''2''"
    by (auto simp: list_ex_iff split: option.splits)
  have "isf_Value f = take 6 (tl_MaskedPAN ?txn) @ replicate (length (tl_MaskedPAN ?txn) - 10) (CHR ''*'') @ drop (length (tl_MaskedPAN ?txn) - 4) (tl_MaskedPAN ?txn)"
    by (rule journey_masks_pan [OF f, THEN conjunct2, THEN mp]) (simp add: is_digit_def)
  then have "isf_Value f = ''970436******4417''" by (simp add: numeral_eq_Suc)
  with f show ?thesis by blast
qed

section \<open>Money\<close>

lemma seqOf_number:
  "0 < n \<Longrightarrow> (seqOf (number_from n ss) code > 0) = (code \<in> set (map js_Code ss))" "0 < n \<Longrightarrow> 0 \<le> seqOf (number_from n ss) code"
  by (induction ss arbitrary: n) (auto simp: seqOf_def)


definition toy_approved :: "StateTransition list" where
  "toy_approved = [\<lparr>st_TranID = 1, st_FromStatus = ''CREATED'', st_ToStatus = ''SENT'', st_At = 0\<rparr>, \<lparr>st_TranID = 1, st_FromStatus = ''SENT'', st_ToStatus = ''APPROVED'', st_At = second_ns\<rparr>]"


end
