(* ===== verification/Rotation.thy ===== *)
theory Rotation
  imports Purchase_Safety
begin

text \<open>
  Key rotation, \<open>src/gateway-go/internal/rotation\<close>: the \<open>key_rotation\<close> and \<open>audit_log\<close> tables (\<open>repository.go\<close>), the runner that
  generates a key, offers it to the issuer in an 0800/161, activates it or gives it up (\<open>runner.go\<close>), the recovery of interrupted rotations
  (\<open>recover.go\<close>), the first provisioning (\<open>initial.go\<close>) and the clear ZAK the services MAC with (\<open>activekeys.go\<close>, and its hook in
  \<open>cmd/gateway/main.go\<close>). The random key and nonce are arguments, AES-GCM is a parameter. A crash is a schedule on which
  every later statement is lost.
\<close>

section \<open>AES-GCM\<close>

record gcm =
  gcm_Seal :: "bytes \<Rightarrow> bytes \<Rightarrow> bytes \<Rightarrow> bytes"
  gcm_Open :: "bytes \<Rightarrow> bytes \<Rightarrow> bytes \<Rightarrow> bytes option"

definition gcm_NonceSize :: nat where "gcm_NonceSize = 12"

text \<open>What the code relies on: opening with the same key and nonce returns what was sealed.\<close>

definition gcm_ok :: "gcm \<Rightarrow> bool" where
  "gcm_ok c \<longleftrightarrow> (\<forall>key nonce plain. gcm_Open c key nonce (gcm_Seal c key nonce plain) = Some plain)"

definition newGCM :: "bytes \<Rightarrow> goerror + unit" where
  "newGCM key = (if length key \<in> {16, 24, 32} then Inr () else Inl [ErrHsm])"

definition EncryptBytes :: "gcm \<Rightarrow> bytes \<Rightarrow> goerror + bytes \<Rightarrow> bytes \<Rightarrow> goerror + bytes" where
  "EncryptBytes c key random plaintext =
     (case newGCM key of
        Inl e \<Rightarrow> Inl e
      | Inr _ \<Rightarrow> (case random of Inl e \<Rightarrow> Inl e | Inr nonce \<Rightarrow> Inr (nonce @ gcm_Seal c key nonce plaintext)))"

definition DecryptBytes :: "gcm \<Rightarrow> bytes \<Rightarrow> bytes \<Rightarrow> goerror + bytes" where
  "DecryptBytes c key ciphertext =
     (case newGCM key of
        Inl e \<Rightarrow> Inl e
      | Inr _ \<Rightarrow>
          if length ciphertext < gcm_NonceSize then Inl [ErrHsm]
          else (case gcm_Open c key (take gcm_NonceSize ciphertext) (drop gcm_NonceSize ciphertext) of
                  None \<Rightarrow> Inl [ErrHsm] | Some plain \<Rightarrow> Inr plain))"

section \<open>The rotation table\<close>

definition StepGenerate :: string where "StepGenerate = ''GENERATE''"
definition StepSend0800161 :: string where "StepSend0800161 = ''SEND_0800_161''"
definition StepPartnerConfirm :: string where "StepPartnerConfirm = ''PARTNER_CONFIRM''"
definition StepActivate :: string where "StepActivate = ''ACTIVATE''"
definition StatusPending :: string where "StatusPending = ''PENDING''"
definition StatusDone :: string where "StatusDone = ''DONE''"
definition StatusFailed :: string where "StatusFailed = ''FAILED''"

lemmas step_names = StepGenerate_def StepSend0800161_def StepPartnerConfirm_def StepActivate_def
  StatusPending_def StatusDone_def StatusFailed_def

definition stepOrder :: "string list" where
  "stepOrder = [StepGenerate, StepSend0800161, StepPartnerConfirm, StepActivate]"

definition rot_Create :: "string \<Rightarrow> int dbop" where
  "rot_Create keyType d =
     (let newid = db_rotation_seq d + 1;
          steps = map (\<lambda>name. \<lparr>stp_Name = name, stp_Status = StatusPending, stp_CompletedAt = None\<rparr>) stepOrder
      in (Inr newid, d\<lparr>db_rotations := db_rotations d @ [\<lparr>ro_ID = newid, ro_KeyType = keyType, ro_Status = ''RUNNING'', ro_Steps = steps,
            ro_NewKCV = None, ro_NewKeyID = None, ro_CreatedAt = db_now d, ro_UpdatedAt = db_now d\<rparr>], db_rotation_seq := newid\<rparr>))"

definition update_rotation :: "int \<Rightarrow> (RotationRow \<Rightarrow> RotationRow) \<Rightarrow> db \<Rightarrow> db" where
  "update_rotation i f d =
     d\<lparr>db_rotations := map (\<lambda>r. if ro_ID r = i then f (r\<lparr>ro_UpdatedAt := db_now d\<rparr>) else r) (db_rotations d)\<rparr>"

definition set_step :: "time \<Rightarrow> string \<Rightarrow> string \<Rightarrow> Step \<Rightarrow> Step" where
  "set_step now stepName stepStatus s =
     (if stp_Name s \<noteq> stepName then s
      else let s1 = s\<lparr>stp_Status := stepStatus\<rparr> in if stepStatus = StatusDone then s1\<lparr>stp_CompletedAt := Some now\<rparr> else s1)"

text \<open>The update of \<open>UpdateStep\<close>: the row is read \<open>FOR UPDATE\<close> and written back in one transaction.\<close>

definition UpdateStep :: "time \<Rightarrow> int \<Rightarrow> string \<Rightarrow> string \<Rightarrow> unit dbop" where
  "UpdateStep now i stepName stepStatus d =
     (case find (\<lambda>r. ro_ID r = i) (db_rotations d) of
        None \<Rightarrow> (Inl [ErrDatabase], d)
      | Some row \<Rightarrow> (Inr (), update_rotation i (\<lambda>r. r\<lparr>ro_Steps := map (set_step now stepName stepStatus) (ro_Steps row)\<rparr>) d))"

definition rot_Complete :: "int \<Rightarrow> string \<Rightarrow> unit dbop" where
  "rot_Complete i newKCV d = (Inr (), update_rotation i (\<lambda>r. r\<lparr>ro_Status := ''COMPLETED'', ro_NewKCV := Some newKCV\<rparr>) d)"

definition rot_Fail :: "int \<Rightarrow> unit dbop" where
  "rot_Fail i d = (Inr (), update_rotation i (\<lambda>r. r\<lparr>ro_Status := ''FAILED''\<rparr>) d)"

definition SetNewKey :: "int \<Rightarrow> int \<Rightarrow> unit dbop" where
  "SetNewKey i keyID d = (Inr (), update_rotation i (\<lambda>r. r\<lparr>ro_NewKeyID := Some keyID\<rparr>) d)"

definition running_ids :: "int list dbop" where
  "running_ids d = (Inr (sort (map ro_ID (filter (\<lambda>r. ro_Status r = ''RUNNING'') (db_rotations d)))), d)"

definition rot_Get :: "int \<Rightarrow> RotationRow dbop" where
  "rot_Get i d = ((case find (\<lambda>r. ro_ID r = i) (db_rotations d) of None \<Rightarrow> Inl [ErrRotationNotFound] | Some r \<Rightarrow> Inr r), d)"

fun get_all :: "int list \<Rightarrow> gw \<Rightarrow> (goerror + RotationRow list) \<times> gw" where
  "get_all [] w = (Inr [], w)"
| "get_all (i # ids) w =
     (case call (rot_Get i) w of
        (Inl e, w1) \<Rightarrow> (Inl e, w1)
      | (Inr row, w1) \<Rightarrow>
          (case get_all ids w1 of
             (Inl e, w2) \<Rightarrow> (Inl e, w2)
           | (Inr rows, w2) \<Rightarrow> (Inr (row # rows), w2)))"

definition ListRunning :: "gw \<Rightarrow> (goerror + RotationRow list) \<times> gw" where
  "ListRunning w =
     (case call running_ids w of
        (Inl e, w1) \<Rightarrow> (Inl e, w1)
      | (Inr ids, w1) \<Rightarrow> get_all ids w1)"

text \<open>The audit detail is the JSON object the runner passes; only steps are ever audited.\<close>

definition WriteAudit :: "int \<Rightarrow> string \<Rightarrow> string \<Rightarrow> goerror option \<Rightarrow> unit dbop" where
  "WriteAudit i step status err d =
     (Inr (), d\<lparr>db_audit := db_audit d @ [\<lparr>au_EventType = ''key_rotation.step'', au_RotationID = i, au_Step = step, au_Status = status,
        au_Error = err\<rparr>]\<rparr>)"

section \<open>The clear ZAK\<close>

text \<open>\<open>ActiveKeys.zak\<close> is \<open>gw_zak\<close>, the empty key before one was loaded.\<close>

definition ActiveZAK :: "gw \<Rightarrow> bytes" where
  "ActiveZAK w = gw_zak w"

definition Reload :: "'z mac_env_scheme \<Rightarrow> string \<Rightarrow> gw \<Rightarrow> (goerror + unit) \<times> gw" where
  "Reload g keyType w =
     (if keyType \<noteq> ''ZAK'' then (Inr (), w)
      else case call key_List w of
             (Inl e, w1) \<Rightarrow> (Inl e, w1)
           | (Inr rows, w1) \<Rightarrow>
               (case find (\<lambda>row. ke_KeyType row = keyType \<and> ke_Status row = ''ACTIVE'') rows of
                  None \<Rightarrow> (Inl [], w1)
                | Some row \<Rightarrow>
                    (case Unwrap (me_lmk g) (ke_KeyUnderLMKHex row) of
                       Inl e \<Rightarrow> (Inl e, w1)
                     | Inr clearKey \<Rightarrow> (Inr (), w1\<lparr>gw_zak := clearKey\<rparr>))))"

definition reloadOnActivate :: "'z mac_env_scheme \<Rightarrow> string \<Rightarrow> gw \<Rightarrow> gw" where
  "reloadOnActivate g keyType w = snd (Reload g keyType w)"

record Provisioned =
  pv_Inserted :: bool
  pv_KCV :: string
  pv_ActiveKCV :: string

definition ProvisionInitialKey :: "'z mac_env_scheme \<Rightarrow> string \<Rightarrow> bytes option \<Rightarrow> gw \<Rightarrow> (goerror + Provisioned) \<times> gw" where
  "ProvisionInitialKey g keyType clear w =
     (case clear of
        None \<Rightarrow> (Inr \<lparr>pv_Inserted = False, pv_KCV = '''', pv_ActiveKCV = ''''\<rparr>, w)
      | Some clearKey \<Rightarrow>
          let wrapped = WrapUnderLMK (me_lmk g) clearKey in
          (case ComputeKCV (me_ciphers g) clearKey of
             Inl e \<Rightarrow> (Inl e, w)
           | Inr kcv \<Rightarrow>
               (case call (EnsureActive keyType wrapped kcv) w of
                  (Inl e, w1) \<Rightarrow> (Inl e, w1)
                | (Inr inserted, w1) \<Rightarrow>
                    if inserted then (Inr \<lparr>pv_Inserted = True, pv_KCV = kcv, pv_ActiveKCV = ''''\<rparr>, w1)
                    else (case call (ActiveKCV keyType) w1 of
                            (Inl e, w2) \<Rightarrow> (Inl e, w2)
                          | (Inr active, w2) \<Rightarrow> (Inr \<lparr>pv_Inserted = False, pv_KCV = kcv, pv_ActiveKCV = active\<rparr>, w2)))))"

fun provisionInitialKeys :: "'z mac_env_scheme \<Rightarrow> (string \<times> bytes option) list \<Rightarrow> gw \<Rightarrow> (goerror + unit) \<times> gw" where
  "provisionInitialKeys g [] w = (Inr (), w)"
| "provisionInitialKeys g ((keyType, clear) # ks) w =
     (case ProvisionInitialKey g keyType clear w of
        (Inl e, w1) \<Rightarrow> (Inl e, w1)
      | (Inr _, w1) \<Rightarrow> provisionInitialKeys g ks w1)"

definition loadActiveZAK :: "'z mac_env_scheme \<Rightarrow> bytes option \<Rightarrow> bytes option \<Rightarrow> gw \<Rightarrow> (goerror + unit) \<times> gw" where
  "loadActiveZAK g initialZAK initialZPK w =
     (case provisionInitialKeys g [(''ZAK'', initialZAK), (''ZPK'', initialZPK)] w of
        (Inl e, w1) \<Rightarrow> (Inl e, w1)
      | (Inr _, w1) \<Rightarrow> (Inr (), snd (Reload g ''ZAK'' w1)))"

section \<open>The runner\<close>

definition keyChangeDE70 :: string where "keyChangeDE70 = ''161''"
definition rcOutcomeUnknown :: string where "rcOutcomeUnknown = ''96''"
definition defaultSendAttempts :: int where "defaultSendAttempts = 3"
definition WithSendAttempts :: "int \<Rightarrow> int" where "WithSendAttempts n = max n 1"
definition clearKeyLenBytes :: nat where "clearKeyLenBytes = 16"

record rot_env = mac_env +
  rt_gcm :: gcm
  rt_zmk :: bytes
  rt_sendAttempts :: int

text \<open>What \<open>rand.Reader\<close> returned for the key and for the nonce, and when the context was found cancelled.\<close>

record rot_run =
  rr_key :: "goerror + bytes"
  rr_nonce :: "goerror + bytes"
  rr_cancelled :: "nat \<Rightarrow> bool"

definition completeStep :: "int \<Rightarrow> string \<Rightarrow> gw \<Rightarrow> (goerror + unit) \<times> gw" where
  "completeStep i stepName w =
     (case call (UpdateStep (gw_now w) i stepName StatusDone) w of
        (Inl e, w1) \<Rightarrow> (Inl e, w1)
      | (Inr _, w1) \<Rightarrow> call (WriteAudit i stepName StatusDone None) w1)"

definition failStep :: "int \<Rightarrow> string \<Rightarrow> int \<Rightarrow> goerror \<Rightarrow> gw \<Rightarrow> (goerror + RotationRow) \<times> gw" where
  "failStep i stepName pendingKeyID cause w =
     (let w1 = (if pendingKeyID \<noteq> 0 then snd (call (RetirePending pendingKeyID) w) else w);
          w2 = snd (call (UpdateStep (gw_now w1) i stepName StatusFailed) w1);
          w3 = snd (call (WriteAudit i stepName StatusFailed (Some cause)) w2);
          w4 = snd (call (rot_Fail i) w3);
          w5 = snd (call (rot_Get i) w4)
      in (Inl cause, w5))"

definition runGenerate :: "'z rot_env_scheme \<Rightarrow> rot_run \<Rightarrow> int \<Rightarrow> string \<Rightarrow> string \<Rightarrow> gw \<Rightarrow>
  (goerror \<times> int + bytes \<times> int \<times> string) \<times> gw" where
  "runGenerate g u i keyType ownerRef w =
     (case rr_key u of
        Inl e \<Rightarrow> (Inl (e, 0), w)
      | Inr clearKey \<Rightarrow>
          let wrappedUnderLMK = WrapUnderLMK (me_lmk g) clearKey in
          (case ComputeKCV (me_ciphers g) clearKey of
             Inl e \<Rightarrow> (Inl (e, 0), w)
           | Inr kcv \<Rightarrow>
               (case EncryptBytes (rt_gcm g) (rt_zmk g) (rr_nonce u) clearKey of
                  Inl e \<Rightarrow> (Inl (e, 0), w)
                | Inr underZMK \<Rightarrow>
                    (case call (key_Insert \<lparr>ke_ID = 0, ke_KeyType = keyType, ke_OwnerRef = ownerRef, ke_KeyUnderLMKHex = wrappedUnderLMK,
                        ke_KCV = kcv, ke_Status = '''', ke_ActivatedAt = None, ke_RetiredAt = None, ke_CreatedAt = zeroTime\<rparr>) w of
                       (Inl e, w1) \<Rightarrow> (Inl (e, 0), w1)
                     | (Inr newRowID, w1) \<Rightarrow>
                         (case call (SetNewKey i newRowID) w1 of
                            (Inl e, w2) \<Rightarrow> (Inl (e, newRowID), w2)
                          | (Inr _, w2) \<Rightarrow>
                              (case completeStep i StepGenerate w2 of
                                 (Inl e, w3) \<Rightarrow> (Inl (e, newRowID), w3)
                               | (Inr _, w3) \<Rightarrow> (Inr (underZMK, newRowID, kcv), w3)))))))"

definition nowDE7 :: "gw \<Rightarrow> string" where
  "nowDE7 w = format_0102150405 (gw_now w)"

text \<open>The loop of \<open>runSend0800161\<close>: \<open>n\<close> attempts are left, \<open>attempt\<close> were made; a cancelled context without an earlier error is the
  plain error \<open>ctx.Err()\<close>.\<close>

fun send_attempts :: "rot_run \<Rightarrow> int \<Rightarrow> string \<Rightarrow> nat \<Rightarrow> nat \<Rightarrow> goerror \<Rightarrow> gw \<Rightarrow> (goerror + fields) \<times> gw" where
  "send_attempts u i de48 0 attempt lastErr w = (Inl lastErr, w)"
| "send_attempts u i de48 (Suc n) attempt lastErr w =
     (if rr_cancelled u attempt then (Inl lastErr, w)
      else case sup_NextSTAN w of
             (None, w1) \<Rightarrow> send_attempts u i de48 n (Suc attempt) [] w1
           | (Some stan, w1) \<Rightarrow>
               (case mux_Send ''0800'' [(7, nowDE7 w1), (11, stan), (70, keyChangeDE70), (48, de48)] w1 of
                  (Inl e, w2) \<Rightarrow> send_attempts u i de48 n (Suc attempt) e w2
                | (Inr resp, w2) \<Rightarrow>
                    if fget resp 39 = rcOutcomeUnknown then send_attempts u i de48 n (Suc attempt) [] w2
                    else (case completeStep i StepSend0800161 w2 of
                            (Inl e, w3) \<Rightarrow> (Inl e, w3)
                          | (Inr _, w3) \<Rightarrow> (Inr resp, w3))))"

definition runSend0800161 :: "'z rot_env_scheme \<Rightarrow> rot_run \<Rightarrow> int \<Rightarrow> string \<Rightarrow> bytes \<Rightarrow> gw \<Rightarrow> (goerror + fields) \<times> gw" where
  "runSend0800161 g u i keyType underZMK w =
     (let de48 = keyType @ '':'' @ EncodeToString underZMK in send_attempts u i de48 (nat (rt_sendAttempts g)) 0 [] w)"

definition runPartnerConfirm :: "int \<Rightarrow> fields \<Rightarrow> gw \<Rightarrow> (goerror + unit) \<times> gw" where
  "runPartnerConfirm i resp w = (if fget resp 39 \<noteq> ''00'' then (Inl [], w) else completeStep i StepPartnerConfirm w)"

definition runActivate :: "int \<Rightarrow> int \<Rightarrow> gw \<Rightarrow> (goerror + unit) \<times> gw" where
  "runActivate i newRowID w =
     (case call (Activate newRowID) w of
        (Inl e, w1) \<Rightarrow> (Inl e, w1)
      | (Inr _, w1) \<Rightarrow> completeStep i StepActivate w1)"

definition execute :: "'z rot_env_scheme \<Rightarrow> rot_run \<Rightarrow> int \<Rightarrow> string \<Rightarrow> string \<Rightarrow> gw \<Rightarrow> (goerror + RotationRow) \<times> gw" where
  "execute g u i keyType ownerRef w =
     (case runGenerate g u i keyType ownerRef w of
        (Inl (e, newRowID), w1) \<Rightarrow> failStep i StepGenerate newRowID e w1
      | (Inr (cryptogram, newRowID, kcv), w1) \<Rightarrow>
          (case runSend0800161 g u i keyType cryptogram w1 of
             (Inl e, w2) \<Rightarrow> failStep i StepSend0800161 0 e w2
           | (Inr resp, w2) \<Rightarrow>
               (case runPartnerConfirm i resp w2 of
                  (Inl e, w3) \<Rightarrow>
                    if fget resp 39 \<noteq> ''00'' then failStep i StepPartnerConfirm newRowID e w3
                    else failStep i StepPartnerConfirm 0 e w3
                | (Inr _, w3) \<Rightarrow>
                    (case runActivate i newRowID w3 of
                       (Inl e, w4) \<Rightarrow> failStep i StepActivate 0 e w4
                     | (Inr _, w4) \<Rightarrow>
                         let w5 = reloadOnActivate g keyType w4 in
                         (case call (rot_Complete i kcv) w5 of
                            (Inl e, w6) \<Rightarrow> (Inl e, w6)
                          | (Inr _, w6) \<Rightarrow> call (rot_Get i) w6)))))"

definition Run :: "'z rot_env_scheme \<Rightarrow> rot_run \<Rightarrow> string \<Rightarrow> string \<Rightarrow> gw \<Rightarrow> (goerror + RotationRow) \<times> gw" where
  "Run g u keyType ownerRef w =
     (case call (rot_Create keyType) w of
        (Inl e, w1) \<Rightarrow> (Inl e, w1)
      | (Inr i, w1) \<Rightarrow> execute g u i keyType ownerRef w1)"

section \<open>Recovery\<close>

definition stepStatusOf :: "Step list \<Rightarrow> string \<Rightarrow> string" where
  "stepStatusOf steps name = (case find (\<lambda>s. stp_Name s = name) steps of None \<Rightarrow> '''' | Some s \<Rightarrow> stp_Status s)"

definition firstPending :: "Step list \<Rightarrow> string" where
  "firstPending steps = (case find (\<lambda>s. stp_Status s = StatusPending) steps of None \<Rightarrow> StepActivate | Some s \<Rightarrow> stp_Name s)"

definition recoverOne :: "RotationRow \<Rightarrow> gw \<Rightarrow> (goerror + unit) \<times> gw" where
  "recoverOne row w =
     (case (stepStatusOf (ro_Steps row) StepActivate = StatusDone, ro_NewKeyID row) of
        (True, Some keyID) \<Rightarrow>
          (case call (key_Get keyID) w of
             (Inl e, w1) \<Rightarrow> (Inl e, w1)
           | (Inr key, w1) \<Rightarrow> call (rot_Complete (ro_ID row) (ke_KCV key)) w1)
      | _ \<Rightarrow> (Inr (), snd (failStep (ro_ID row) (firstPending (ro_Steps row)) 0 [] w)))"

fun recover_all :: "RotationRow list \<Rightarrow> gw \<Rightarrow> (goerror + unit) \<times> gw" where
  "recover_all [] w = (Inr (), w)"
| "recover_all (row # rows) w =
     (case recoverOne row w of
        (Inl e, w1) \<Rightarrow> (Inl e, w1)
      | (Inr _, w1) \<Rightarrow> recover_all rows w1)"

definition recoverInterrupted :: "gw \<Rightarrow> (goerror + unit) \<times> gw" where
  "recoverInterrupted w =
     (case ListRunning w of
        (Inl e, w1) \<Rightarrow> (Inl e, w1)
      | (Inr running, w1) \<Rightarrow> recover_all running w1)"

section \<open>Serving\<close>

text \<open>The runner's flags: whether \<open>Serve\<close> accepts rotations (\<open>base\<close> is set) and whether one runs in the background.\<close>

record runner =
  rn_serving :: bool
  rn_running :: bool

text \<open>\<open>Serve\<close> up to the wait for cancellation, and from there on; a recovery error ends it before it accepts anything.\<close>

definition Serve_begin :: "runner \<Rightarrow> gw \<Rightarrow> (goerror + unit) \<times> runner \<times> gw" where
  "Serve_begin rn w =
     (case recoverInterrupted w of
        (Inl e, w1) \<Rightarrow> (Inl e, rn, w1)
      | (Inr _, w1) \<Rightarrow> (Inr (), rn\<lparr>rn_serving := True\<rparr>, w1))"

definition Serve_end :: "runner \<Rightarrow> runner" where
  "Serve_end rn = rn\<lparr>rn_serving := False\<rparr>"

definition Start :: "string \<Rightarrow> runner \<Rightarrow> gw \<Rightarrow> (goerror + RotationRow) \<times> runner \<times> gw" where
  "Start keyType rn w =
     (if \<not> rn_serving rn then (Inl [ErrNotServing], rn, w)
      else if rn_running rn then (Inl [ErrRotationInProgress], rn, w)
      else case call (rot_Create keyType) w of
             (Inl e, w1) \<Rightarrow> (Inl e, rn, w1)
           | (Inr i, w1) \<Rightarrow>
               (case call (rot_Get i) w1 of
                  (Inl e, w2) \<Rightarrow> (Inl e, rn, w2)
                | (Inr row, w2) \<Rightarrow> (Inr row, rn\<lparr>rn_running := True\<rparr>, w2)))"

text \<open>The goroutine \<open>Start\<close> launched.\<close>

definition background :: "'z rot_env_scheme \<Rightarrow> rot_run \<Rightarrow> int \<Rightarrow> string \<Rightarrow> string \<Rightarrow> runner \<Rightarrow> gw \<Rightarrow> runner \<times> gw" where
  "background g u i keyType ownerRef rn w = (rn\<lparr>rn_running := False\<rparr>, snd (execute g u i keyType ownerRef w))"

section \<open>The tables the runner owns\<close>

text \<open>Only the runner writes \<open>key_store\<close> and \<open>key_rotation\<close>; \<open>rot_rely\<close> says that the other goroutines leave them alone.\<close>

definition rot_view :: "db \<Rightarrow> KeyRow list \<times> int \<times> RotationRow list \<times> int" where
  "rot_view d = (db_keys d, db_key_seq d, db_rotations d, db_rotation_seq d)"

definition rot_rely :: "gw \<Rightarrow> bool" where
  "rot_rely w \<longleftrightarrow> (\<forall>s \<in> set (w_sched w). \<forall>d. rot_view (sc_env s d) = rot_view d) \<and>
     (\<forall>s \<in> set (gw_sends w). \<forall>d. rot_view (so_env s d) = rot_view d)"

definition view_pred :: "(db \<Rightarrow> bool) \<Rightarrow> bool" where
  "view_pred I \<longleftrightarrow> (\<forall>d d'. rot_view d = rot_view d' \<longrightarrow> I d = I d')"

text \<open>A predicate of these tables that holds now, with the others leaving them alone.\<close>

definition rot_holds :: "(db \<Rightarrow> bool) \<Rightarrow> gw \<Rightarrow> bool" where
  "rot_holds I w \<longleftrightarrow> rot_rely w \<and> I (w_db w)"

lemma view_predI: "(\<And>d d'. rot_view d = rot_view d' \<Longrightarrow> I d = I d') \<Longrightarrow> view_pred I"
  unfolding view_pred_def by blast

lemma view_predD: "view_pred I \<Longrightarrow> rot_view d' = rot_view d \<Longrightarrow> I d' = I d"
  unfolding view_pred_def by blast

lemma view_pred_conj [intro]: "view_pred I \<Longrightarrow> view_pred J \<Longrightarrow> view_pred (\<lambda>d. I d \<and> J d)"
  unfolding view_pred_def by blast

lemma rot_holds_keeps: "rot_holds I w \<Longrightarrow> view_pred I \<Longrightarrow> gw_keeps I w"
proof -
  assume h: "rot_holds I w" "view_pred I"
  have "I (sc_env s d) = I d" if "s \<in> set (w_sched w)" for s d
    by (rule view_predD [OF h(2)]) (use h(1) that in \<open>simp add: rot_holds_def rot_rely_def\<close>)
  moreover have "I (so_env s d) = I d" if "s \<in> set (gw_sends w)" for s d
    by (rule view_predD [OF h(2)]) (use h(1) that in \<open>simp add: rot_holds_def rot_rely_def\<close>)
  ultimately show ?thesis using h(1) by (simp add: gw_keeps_def rot_holds_def)
qed

lemma rot_rely_call: "rot_rely w \<Longrightarrow> rot_rely (snd (call op w))"
  using call_sched [of op w] by (auto simp: rot_rely_def)

lemma rot_holds_call:
  assumes "rot_holds I w" "view_pred I" "\<And>d. I d \<Longrightarrow> I (snd (op d))"
  shows "rot_holds I (snd (call op w))"
  using gw_keeps_call [OF rot_holds_keeps [OF assms(1,2)] assms(3)] assms(1) rot_rely_call
  by (auto simp: rot_holds_def gw_keeps_def)

lemma rot_holds_call_ok:
  assumes "rot_holds I w" "view_pred I" "call op w = (Inr x, w')" "\<And>d d'. I d \<Longrightarrow> op d = (Inr x, d') \<Longrightarrow> J d'"
  shows "rot_holds J w'"
proof -
  obtain d0 where "I d0" "op d0 = (Inr x, w_db w')" using call_ok [OF rot_holds_keeps [OF assms(1,2)] assms(3)] by blast
  moreover have "rot_rely w'" using rot_rely_call [of w op] assms(1,3) by (simp add: rot_holds_def)
  ultimately show ?thesis using assms(4) by (auto simp: rot_holds_def)
qed

lemma rot_holds_weaken: "rot_holds I w \<Longrightarrow> (I (w_db w) \<Longrightarrow> J (w_db w)) \<Longrightarrow> rot_holds J w"
  by (simp add: rot_holds_def)

lemma rot_holds_same: "rot_holds I w \<Longrightarrow> w_db w' = w_db w \<Longrightarrow> w_sched w' = w_sched w \<Longrightarrow> gw_sends w' = gw_sends w \<Longrightarrow> rot_holds I w'"
  by (simp add: rot_holds_def rot_rely_def)

lemma rot_holds_Send:
  assumes "rot_holds I w" "view_pred I"
  shows "rot_holds I (snd (mux_Send mti fs w))"
proof (cases "gw_sends w")
  case Nil
  with assms show ?thesis by (simp add: mux_Send_def)
next
  case (Cons s rest)
  with assms have "rot_view (so_env s (w_db w)) = rot_view (w_db w)" by (simp add: rot_holds_def rot_rely_def)
  with assms(2) have "I (so_env s (w_db w)) = I (w_db w)" unfolding view_pred_def by blast
  with assms(1) Cons show ?thesis by (auto simp: mux_Send_def rot_holds_def rot_rely_def)
qed

lemma rot_holds_STAN: "rot_holds I w \<Longrightarrow> rot_holds I (snd (sup_NextSTAN w))"
  by (rule rot_holds_same) simp_all

section \<open>The invariant\<close>

definition key_ok :: "db \<Rightarrow> bool" where
  "key_ok d \<longleftrightarrow> 0 \<le> db_key_seq d \<and> distinct (map ke_ID (db_keys d)) \<and> (\<forall>k \<in> set (db_keys d). 0 < ke_ID k \<and> ke_ID k \<le> db_key_seq d)
     \<and> one_active (db_keys d)"

definition activated :: "int \<Rightarrow> db \<Rightarrow> bool" where
  "activated keyID d \<longleftrightarrow> (\<exists>k \<in> set (db_keys d). ke_ID k = keyID \<and> ke_ActivatedAt k \<noteq> None)"

definition has_key :: "int \<Rightarrow> string \<Rightarrow> db \<Rightarrow> bool" where
  "has_key keyID kcv d \<longleftrightarrow> (\<exists>k \<in> set (db_keys d). ke_ID k = keyID \<and> ke_KCV k = kcv)"

definition settled_ok :: "db \<Rightarrow> RotationRow \<Rightarrow> bool" where
  "settled_ok d r \<longleftrightarrow>
     (stepStatusOf (ro_Steps r) StepActivate = StatusDone \<longrightarrow> (\<exists>k. ro_NewKeyID r = Some k \<and> activated k d)) \<and>
     (ro_Status r = ''COMPLETED'' \<longrightarrow> (\<exists>k kcv. ro_NewKeyID r = Some k \<and> activated k d \<and> ro_NewKCV r = Some kcv \<and> has_key k kcv d))"

definition rot_inv :: "db \<Rightarrow> bool" where
  "rot_inv d \<longleftrightarrow> key_ok d \<and> distinct (map ro_ID (db_rotations d)) \<and> (\<forall>r \<in> set (db_rotations d). ro_ID r \<le> db_rotation_seq d)
     \<and> (\<forall>r \<in> set (db_rotations d). settled_ok d r)"

text \<open>The rotation \<open>i\<close> has not got to its activation; it has the key \<open>k\<close>.\<close>

definition unsettled :: "int \<Rightarrow> db \<Rightarrow> bool" where
  "unsettled i d \<longleftrightarrow> (\<forall>r \<in> set (db_rotations d). ro_ID r = i \<longrightarrow>
     ro_Status r \<noteq> ''COMPLETED'' \<and> stepStatusOf (ro_Steps r) StepActivate \<noteq> StatusDone)"

definition linked :: "int \<Rightarrow> int \<Rightarrow> db \<Rightarrow> bool" where
  "linked i k d \<longleftrightarrow> (\<forall>r \<in> set (db_rotations d). ro_ID r = i \<longrightarrow> ro_NewKeyID r = Some k)"

lemmas rot_preds = rot_inv_def key_ok_def activated_def has_key_def settled_ok_def unsettled_def linked_def

lemma view_preds [simp, intro]:
  "view_pred rot_inv" "view_pred (activated k)" "view_pred (has_key k kcv)" "view_pred (unsettled i)" "view_pred (linked i k)"
  by (rule view_predI, simp add: rot_view_def rot_preds)+

lemma stepStatusOf_set:
  "stepStatusOf (map (set_step now n st) ss) m =
     (if m = n \<and> m \<in> stp_Name ` set ss then st else stepStatusOf ss m)"
  by (induction ss) (auto simp: stepStatusOf_def set_step_def Let_def)

lemma stepStatusOf_done:
  "stepStatusOf (map (set_step now n st) ss) StepActivate = StatusDone \<Longrightarrow>
   n \<noteq> StepActivate \<or> st \<noteq> StatusDone \<Longrightarrow> stepStatusOf ss StepActivate = StatusDone"
  by (auto simp: stepStatusOf_set split: if_splits)

lemma update_rotation_simps [simp]:
  "db_keys (update_rotation i f d) = db_keys d" "db_key_seq (update_rotation i f d) = db_key_seq d"
  "db_rotation_seq (update_rotation i f d) = db_rotation_seq d"
  "activated k (update_rotation i f d) = activated k d" "has_key k kcv (update_rotation i f d) = has_key k kcv d"
  "key_ok (update_rotation i f d) = key_ok d" "settled_ok (update_rotation i f d) r = settled_ok d r"
  by (simp_all add: update_rotation_def rot_preds)

lemma update_rotation_row:
  "r \<in> set (db_rotations (update_rotation i f d)) \<Longrightarrow>
   \<exists>r0 \<in> set (db_rotations d). r = (if ro_ID r0 = i then f (r0\<lparr>ro_UpdatedAt := db_now d\<rparr>) else r0)"
  by (auto simp: update_rotation_def)

lemma rot_inv_rows:
  assumes "rot_inv d" "\<And>r. ro_ID (f r) = ro_ID r"
    and "\<And>r. r \<in> set (db_rotations d) \<Longrightarrow> ro_ID r = i \<Longrightarrow> settled_ok d r \<Longrightarrow> settled_ok d (f (r\<lparr>ro_UpdatedAt := db_now d\<rparr>))"
  shows "rot_inv (update_rotation i f d)"
proof -
  let ?h = "\<lambda>r. if ro_ID r = i then f (r\<lparr>ro_UpdatedAt := db_now d\<rparr>) else r"
  have rows: "db_rotations (update_rotation i f d) = map ?h (db_rotations d)" by (simp add: update_rotation_def)
  have "map ro_ID (map ?h (db_rotations d)) = map ro_ID (db_rotations d)" by (simp add: assms(2) comp_def)
  moreover from this have "\<forall>r \<in> set (map ?h (db_rotations d)). ro_ID r \<le> db_rotation_seq d"
    using assms(1) by (auto simp: rot_inv_def assms(2))
  moreover have "\<forall>r \<in> set (map ?h (db_rotations d)). settled_ok d r" using assms(1,3) by (auto simp: rot_inv_def)
  ultimately show ?thesis using assms(1) by (simp only: rot_inv_def rows update_rotation_simps)
qed

lemma rot_inv_keys:
  assumes "rot_inv d" "key_ok d'" "db_rotations d' = db_rotations d" "db_rotation_seq d' = db_rotation_seq d"
    and "\<And>k. activated k d \<Longrightarrow> activated k d'" "\<And>k kcv. has_key k kcv d \<Longrightarrow> has_key k kcv d'"
  shows "rot_inv d'"
proof -
  have "settled_ok d r \<Longrightarrow> settled_ok d' r" for r using assms(5,6) unfolding settled_ok_def by blast
  with assms(1-4) show ?thesis by (auto simp: rot_inv_def)
qed

text \<open>Statements that touch neither table.\<close>

lemma WriteAudit_view [simp]: "rot_view (snd (WriteAudit i s st e d)) = rot_view d"
  by (simp add: WriteAudit_def rot_view_def)

lemma read_ops [simp]: "snd (rot_Get i d) = d" "snd (running_ids d) = d" "snd (key_Get k d) = d" "snd (key_List d) = d" "snd (ActiveKCV t d) = d"
  by (simp_all add: rot_Get_def running_ids_def key_Get_def key_List_def ActiveKCV_def)

lemma view_pred_audit: "view_pred I \<Longrightarrow> I (snd (WriteAudit i s st e d)) = I d"
  by (erule view_predD) simp

text \<open>Statements on \<open>key_rotation\<close>.\<close>

lemma UpdateStep_cases:
  "snd (UpdateStep now i n st d) = d \<and> (\<forall>r \<in> set (db_rotations d). ro_ID r \<noteq> i) \<or>
   (\<exists>row \<in> set (db_rotations d). ro_ID row = i \<and>
      snd (UpdateStep now i n st d) = update_rotation i (\<lambda>r. r\<lparr>ro_Steps := map (set_step now n st) (ro_Steps row)\<rparr>) d)"
  by (auto simp: UpdateStep_def find_None_iff find_Some_iff split: option.splits)

lemma rot_row_unique: "rot_inv d \<Longrightarrow> r \<in> set (db_rotations d) \<Longrightarrow> s \<in> set (db_rotations d) \<Longrightarrow> ro_ID r = ro_ID s \<Longrightarrow> r = s"
  by (auto simp: rot_inv_def distinct_map dest: inj_onD)

lemma UpdateStep_inv:
  assumes "rot_inv d" "n \<noteq> StepActivate \<or> st \<noteq> StatusDone \<or> (\<exists>k. linked i k d \<and> activated k d)"
  shows "rot_inv (snd (UpdateStep now i n st d))"
proof (cases rule: disjE [OF UpdateStep_cases [of now i n st d]])
  case 2
  then obtain row where row: "row \<in> set (db_rotations d)" "ro_ID row = i"
    "snd (UpdateStep now i n st d) = update_rotation i (\<lambda>r. r\<lparr>ro_Steps := map (set_step now n st) (ro_Steps row)\<rparr>) d"
    by blast
  show ?thesis unfolding row(3)
  proof (rule rot_inv_rows [OF assms(1)])
    fix r assume r: "r \<in> set (db_rotations d)" "ro_ID r = i" "settled_ok d r"
    have "r = row" using rot_row_unique [OF assms(1)] r row by auto
    with r assms(2) show "settled_ok d ((r\<lparr>ro_UpdatedAt := db_now d\<rparr>)\<lparr>ro_Steps := map (set_step now n st) (ro_Steps row)\<rparr>)"
      by (auto simp: settled_ok_def linked_def dest: stepStatusOf_done)
  qed simp
qed (use assms(1) in simp)

lemma UpdateStep_keeps:
  "linked i k d \<Longrightarrow> linked i k (snd (UpdateStep now j n st d))" "activated k d \<Longrightarrow> activated k (snd (UpdateStep now j n st d))"
  "has_key k kcv d \<Longrightarrow> has_key k kcv (snd (UpdateStep now j n st d))"
  by (auto simp: UpdateStep_def linked_def activated_def has_key_def update_rotation_def split: option.splits)

lemma UpdateStep_unsettled:
  assumes "rot_inv d" "unsettled i d" "n \<noteq> StepActivate \<or> st \<noteq> StatusDone"
  shows "unsettled i (snd (UpdateStep now i n st d))"
proof (cases rule: disjE [OF UpdateStep_cases [of now i n st d]])
  case 2
  then obtain row where row: "row \<in> set (db_rotations d)" "ro_ID row = i"
    "snd (UpdateStep now i n st d) = update_rotation i (\<lambda>r. r\<lparr>ro_Steps := map (set_step now n st) (ro_Steps row)\<rparr>) d"
    by blast
  then have "stepStatusOf (ro_Steps row) StepActivate \<noteq> StatusDone" using assms(2) by (auto simp: unsettled_def)
  then have "stepStatusOf (map (set_step now n st) (ro_Steps row)) StepActivate \<noteq> StatusDone" using stepStatusOf_done assms(3) by blast
  with assms(2) show ?thesis unfolding row(3) unsettled_def
    by (auto dest!: update_rotation_row split: if_splits)
qed (use assms(2) in simp)

lemma SetNewKey_inv: "rot_inv d \<Longrightarrow> unsettled i d \<Longrightarrow> rot_inv (snd (SetNewKey i k d))"
  unfolding SetNewKey_def snd_conv by (rule rot_inv_rows) (simp_all add: settled_ok_def unsettled_def)

lemma rot_Fail_inv: "rot_inv d \<Longrightarrow> rot_inv (snd (rot_Fail i d))"
  unfolding rot_Fail_def snd_conv by (rule rot_inv_rows) (simp_all add: settled_ok_def)

lemma rot_Complete_inv:
  "rot_inv d \<Longrightarrow> linked i k d \<Longrightarrow> activated k d \<Longrightarrow> has_key k kcv d \<Longrightarrow> rot_inv (snd (rot_Complete i kcv d))"
  unfolding rot_Complete_def snd_conv by (rule rot_inv_rows) (simp_all add: settled_ok_def linked_def)

lemma stepStatusOf_created:
  "stepStatusOf (map (\<lambda>name. \<lparr>stp_Name = name, stp_Status = StatusPending, stp_CompletedAt = None\<rparr>) names) n \<noteq> StatusDone"
  by (induction names) (auto simp: stepStatusOf_def step_names)

lemma rot_Create_inv:
  assumes "rot_inv d" "rot_Create kt d = (Inr i, d')"
  shows "rot_inv d'" "unsettled i d'"
proof -
  have fresh: "\<forall>r \<in> set (db_rotations d). ro_ID r \<noteq> i" using assms by (auto simp: rot_Create_def rot_inv_def Let_def)
  have keys: "db_keys d' = db_keys d" "db_key_seq d' = db_key_seq d" using assms(2) by (auto simp: rot_Create_def Let_def)
  then have old: "settled_ok d' r = settled_ok d r" for r by (simp add: settled_ok_def activated_def has_key_def)
  define new where "new = \<lparr>ro_ID = i, ro_KeyType = kt, ro_Status = ''RUNNING'', ro_Steps = map (\<lambda>name. \<lparr>stp_Name = name,
    stp_Status = StatusPending, stp_CompletedAt = None\<rparr>) stepOrder, ro_NewKCV = None, ro_NewKeyID = None, ro_CreatedAt = db_now d, ro_UpdatedAt = db_now d\<rparr>"
  have d': "db_rotations d' = db_rotations d @ [new]" "i = db_rotation_seq d + 1" "db_rotation_seq d' = i"
    using assms(2) by (auto simp: rot_Create_def Let_def new_def)
  have "settled_ok d' new" "ro_ID new = i" by (simp_all add: new_def settled_ok_def stepStatusOf_created)
  with assms(1) fresh keys old d' show "rot_inv d'" by (fastforce simp: rot_inv_def key_ok_def)
  from assms(2) fresh show "unsettled i d'" by (auto simp: rot_Create_def unsettled_def Let_def stepStatusOf_created)
qed

text \<open>Statements on \<open>key_store\<close>.\<close>

lemma key_Insert_inv:
  assumes "rot_inv d" "key_Insert row d = (Inr k, d')"
  shows "rot_inv d'" "has_key k (ke_KCV row) d'" "k = db_key_seq d + 1" "0 < k" "\<forall>x \<in> set (db_keys d). ke_ID x \<noteq> k"
    "db_rotations d' = db_rotations d"
proof -
  have d': "db_rotations d' = db_rotations d" "db_rotation_seq d' = db_rotation_seq d" "db_key_seq d' = k" and k: "k = db_key_seq d + 1"
    using assms(2) by (auto simp: key_Insert_def Let_def)
  define new where "new = row\<lparr>ke_ID := k, ke_Status := ''PENDING'', ke_ActivatedAt := None, ke_RetiredAt := None, ke_CreatedAt := db_now d\<rparr>"
  have keys: "db_keys d' = db_keys d @ [new]" using assms(2) by (auto simp: key_Insert_def Let_def new_def)
  have new: "ke_ID new = k" "ke_Status new = ''PENDING''" "ke_KCV new = ke_KCV row" by (simp_all add: new_def)
  from assms(1) k show pos: "0 < k" and fresh: "\<forall>x \<in> set (db_keys d). ke_ID x \<noteq> k" by (force simp: rot_inv_def key_ok_def)+
  have "one_active (db_keys d')" using assms(1) new(2) by (auto simp: rot_inv_def key_ok_def one_active_def keys)
  moreover have "distinct (map ke_ID (db_keys d'))" using assms(1) fresh new(1) by (auto simp: rot_inv_def key_ok_def keys)
  moreover have "\<forall>x \<in> set (db_keys d'). 0 < ke_ID x \<and> ke_ID x \<le> k" using assms(1) new(1) pos k by (force simp: rot_inv_def key_ok_def keys)
  ultimately have "key_ok d'" using pos d' by (simp add: key_ok_def)
  then show "rot_inv d'" by (rule rot_inv_keys [OF assms(1) _ d'(1,2)]) (auto simp: activated_def has_key_def keys)
  show "has_key k (ke_KCV row) d'" using new by (auto simp: has_key_def keys)
qed (use assms(2) in \<open>auto simp: key_Insert_def Let_def\<close>)

lemma key_Insert_keeps:
  "rot_inv d \<Longrightarrow> rot_inv (snd (key_Insert row d))" "unsettled i d \<Longrightarrow> unsettled i (snd (key_Insert row d))"
  using key_Insert_inv(1) [of d row "db_key_seq d + 1" "snd (key_Insert row d)"]
  by (auto simp: key_Insert_def Let_def unsettled_def)

lemma one_active_map:
  assumes "one_active ks" "\<And>k. ke_ID (h k) = ke_ID k" "\<And>k l. same_owner (h k) (h l) = same_owner k l"
    "\<And>k. ke_Status (h k) = ''ACTIVE'' \<Longrightarrow> ke_Status k = ''ACTIVE''"
  shows "one_active (map h ks)"
  unfolding one_active_def
proof (intro ballI impI)
  fix a b assume ab: "a \<in> set (map h ks)" "b \<in> set (map h ks)" "ke_Status a = ''ACTIVE''" "ke_Status b = ''ACTIVE''" "same_owner a b"
  then obtain p q where "p \<in> set ks" "q \<in> set ks" "a = h p" "b = h q" unfolding set_map by blast
  with ab(3-) assms show "ke_ID a = ke_ID b" unfolding one_active_def by metis
qed

lemma one_active_snoc:
  assumes "one_active ks" "\<And>k. k \<in> set ks \<Longrightarrow> ke_Status k = ''ACTIVE'' \<Longrightarrow> \<not> same_owner k x"
  shows "one_active (ks @ [x])"
  unfolding one_active_def
proof (intro ballI impI)
  fix a b assume ab: "a \<in> set (ks @ [x])" "b \<in> set (ks @ [x])" "ke_Status a = ''ACTIVE''" "ke_Status b = ''ACTIVE''" "same_owner a b"
  then have "same_owner b a" by (simp add: same_owner_def)
  with ab assms(2) [of a] assms(2) [of b] consider "a = x" "b = x" | "a \<in> set ks" "b \<in> set ks" by auto
  then show "ke_ID a = ke_ID b" by cases (use ab assms(1) in \<open>auto simp: one_active_def\<close>)
qed

text \<open>A statement that rewrites keys in place, keeping their identity.\<close>

lemma rot_inv_map_keys:
  assumes "rot_inv d" "one_active (map h (db_keys d))"
    and h: "\<And>k. ke_ID (h k) = ke_ID k" "\<And>k. ke_KCV (h k) = ke_KCV k" "\<And>k. ke_ActivatedAt k \<noteq> None \<Longrightarrow> ke_ActivatedAt (h k) \<noteq> None"
  shows "rot_inv (d\<lparr>db_keys := map h (db_keys d)\<rparr>)"
proof (rule rot_inv_keys [OF assms(1)])
  have ids: "map ke_ID (map h (db_keys d)) = map ke_ID (db_keys d)" by (simp add: h(1) comp_def)
  show "key_ok (d\<lparr>db_keys := map h (db_keys d)\<rparr>)"
    using assms(1,2) ids unfolding rot_inv_def key_ok_def by (simp add: h(1) del: map_map)
  show "activated k d \<Longrightarrow> activated k (d\<lparr>db_keys := map h (db_keys d)\<rparr>)" for k
    using h(1,3) by (auto simp: activated_def)
  show "has_key k kcv d \<Longrightarrow> has_key k kcv (d\<lparr>db_keys := map h (db_keys d)\<rparr>)" for k kcv
    using h(1,2) by (auto simp: has_key_def)
qed simp_all

lemma RetirePending_inv: "rot_inv d \<Longrightarrow> rot_inv (snd (RetirePending k d))"
  unfolding RetirePending_def snd_conv
  by (rule rot_inv_map_keys, assumption, rule one_active_map) (simp_all add: retire_def same_owner_def rot_inv_def key_ok_def split: if_splits)

lemma Activate_inv:
  assumes "rot_inv d" "has_key k kcv d"
  shows "rot_inv (snd (Activate k d))" "activated k (snd (Activate k d))" "has_key k kcv (snd (Activate k d))"
proof -
  obtain x where x: "x \<in> set (db_keys d)" "ke_ID x = k" "ke_KCV x = kcv" using assms(2) by (auto simp: has_key_def)
  have dk: "distinct (map ke_ID (db_keys d))" "one_active (db_keys d)" using assms(1) by (auto simp: rot_inv_def key_ok_def)
  let ?h = "activate_row (db_now d) x"
  have keys: "db_keys (snd (Activate k d)) = map ?h (db_keys d)" using Activate_rows [OF x(1) dk(1)] x(2) by simp
  have act: "ke_ActivatedAt y \<noteq> None \<or> ke_ID y = k \<Longrightarrow> ke_ActivatedAt (?h y) \<noteq> None" for y
    using x(2) by (auto simp: activate_row_def retire_def)
  have "snd (Activate k d) = d\<lparr>db_keys := db_keys (snd (Activate k d))\<rparr>" by (simp add: Activate_def Let_def)
  then have d': "snd (Activate k d) = d\<lparr>db_keys := map ?h (db_keys d)\<rparr>" by (simp only: keys)
  show "rot_inv (snd (Activate k d))" unfolding d'
    by (rule rot_inv_map_keys [OF assms(1) activate_rows_one_active [OF x(1) dk]]) (simp_all only: activate_row_keeps act simp_thms)
  have "?h x \<in> set (db_keys (snd (Activate k d)))" using x(1) by (simp add: keys)
  with act [of x] x show "activated k (snd (Activate k d))" "has_key k kcv (snd (Activate k d))"
    by (auto simp: activated_def has_key_def activate_row_keeps intro!: bexI [of _ "?h x"])
qed

lemma EnsureActive_inv:
  assumes "rot_inv d"
  shows "rot_inv (snd (EnsureActive kt blob kcv d))"
proof (cases "list_ex (active_global kt) (db_keys d)")
  case False
  let ?d' = "snd (EnsureActive kt blob kcv d)"
  have fresh: "\<forall>x \<in> set (db_keys d). ke_ID x \<noteq> db_key_seq d + 1" using assms by (force simp: rot_inv_def key_ok_def)
  have none: "\<forall>x \<in> set (db_keys d). ke_Status x = ''ACTIVE'' \<longrightarrow> \<not> (ke_KeyType x = kt \<and> ke_OwnerRef x = '''')"
    using False by (auto simp: list_ex_iff active_global_def)
  have "one_active (db_keys ?d')" using False assms
    by (simp add: EnsureActive_def Let_def) (rule one_active_snoc, use none in \<open>simp_all add: same_owner_def rot_inv_def key_ok_def\<close>)
  then have "key_ok ?d'" using False assms fresh by (force simp: EnsureActive_def Let_def key_ok_def rot_inv_def)
  then show ?thesis
    by (rule rot_inv_keys [OF assms]) (use False in \<open>auto simp: EnsureActive_def Let_def activated_def has_key_def\<close>)
qed (use assms in \<open>simp add: EnsureActive_def\<close>)

section \<open>The runner keeps the invariant\<close>

text \<open>How far a rotation got: its row exists; it has a key of its own; the key is in use.\<close>

definition started :: "int \<Rightarrow> db \<Rightarrow> bool" where
  "started i d \<longleftrightarrow> rot_inv d \<and> unsettled i d"

definition offered :: "int \<Rightarrow> int \<Rightarrow> string \<Rightarrow> db \<Rightarrow> bool" where
  "offered i k kcv d \<longleftrightarrow> started i d \<and> linked i k d \<and> has_key k kcv d"

definition adopted :: "int \<Rightarrow> int \<Rightarrow> string \<Rightarrow> db \<Rightarrow> bool" where
  "adopted i k kcv d \<longleftrightarrow> rot_inv d \<and> linked i k d \<and> has_key k kcv d \<and> activated k d"

lemma view_progress [simp, intro]: "view_pred (started i)" "view_pred (offered i k kcv)" "view_pred (adopted i k kcv)"
  unfolding started_def offered_def adopted_def by (intro view_pred_conj view_preds)+

lemma progress_steps:
  "started i d \<Longrightarrow> n \<noteq> StepActivate \<Longrightarrow> started i (snd (UpdateStep now i n st d))"
  "offered i k kcv d \<Longrightarrow> n \<noteq> StepActivate \<Longrightarrow> offered i k kcv (snd (UpdateStep now i n st d))"
  "adopted i k kcv d \<Longrightarrow> adopted i k kcv (snd (UpdateStep now i n st d))"
proof -
  show s: "started i d \<Longrightarrow> n \<noteq> StepActivate \<Longrightarrow> started i (snd (UpdateStep now i n st d))"
    by (simp add: started_def UpdateStep_inv UpdateStep_unsettled)
  show "offered i k kcv d \<Longrightarrow> n \<noteq> StepActivate \<Longrightarrow> offered i k kcv (snd (UpdateStep now i n st d))"
    using s by (simp add: offered_def UpdateStep_keeps)
  assume a: "adopted i k kcv d"
  then have "\<exists>k. linked i k d \<and> activated k d" by (auto simp: adopted_def)
  with a show "adopted i k kcv (snd (UpdateStep now i n st d))" by (simp add: adopted_def UpdateStep_keeps UpdateStep_inv)
qed

lemma linked_keys: "linked i k (snd (Activate j d)) = linked i k d" "linked i k (snd (SetNewKey i k d))"
  "has_key k kcv (snd (SetNewKey i j d)) = has_key k kcv d"
proof -
  have "db_rotations (snd (Activate j d)) = db_rotations d" by (simp add: Activate_def Let_def)
  then show "linked i k (snd (Activate j d)) = linked i k d" by (simp only: linked_def)
  show "linked i k (snd (SetNewKey i k d))"
    unfolding SetNewKey_def snd_conv linked_def by (auto dest!: update_rotation_row split: if_splits)
  show "has_key k kcv (snd (SetNewKey i j d)) = has_key k kcv d" by (simp add: SetNewKey_def)
qed

lemma unsettled_SetNewKey: "unsettled i d \<Longrightarrow> unsettled i (snd (SetNewKey i k d))"
  unfolding SetNewKey_def snd_conv unsettled_def by (auto dest!: update_rotation_row split: if_splits)

lemma completeStep_keeps:
  assumes "rot_holds I w" "view_pred I" "\<And>d now. I d \<Longrightarrow> I (snd (UpdateStep now i n StatusDone d))"
  shows "rot_holds I (snd (completeStep i n w))"
  unfolding completeStep_def
proof (rule bind_snd)
  show "rot_holds I (snd (call (UpdateStep (gw_now w) i n StatusDone) w))" by (rule rot_holds_call [OF assms(1,2) assms(3)])
next
  fix x w1 assume "rot_holds I w1"
  then show "rot_holds I (snd (call (WriteAudit i n StatusDone None) w1))"
    by (rule rot_holds_call [OF _ assms(2)]) (simp add: view_pred_audit [OF assms(2)])
qed simp

lemma failStep_keeps:
  assumes "rot_holds I w" "view_pred I" "\<And>d. k \<noteq> 0 \<Longrightarrow> I d \<Longrightarrow> I (snd (RetirePending k d))"
    "\<And>d now. I d \<Longrightarrow> I (snd (UpdateStep now i n StatusFailed d))" "\<And>d. I d \<Longrightarrow> I (snd (rot_Fail i d))"
  shows "rot_holds I (snd (failStep i n k e w))"
proof -
  note c = rot_holds_call [OF _ assms(2)]
  define w1 where "w1 = (if k \<noteq> 0 then snd (call (RetirePending k) w) else w)"
  define w2 where "w2 = snd (call (UpdateStep (gw_now w1) i n StatusFailed) w1)"
  define w3 where "w3 = snd (call (WriteAudit i n StatusFailed (Some e)) w2)"
  have "rot_holds I w1" using assms(1) c [OF assms(1) assms(3)] by (simp add: w1_def)
  then have "rot_holds I w2" unfolding w2_def by (rule c) (rule assms(4))
  then have "rot_holds I w3" unfolding w3_def by (rule c) (simp add: view_pred_audit [OF assms(2)])
  then have "rot_holds I (snd (call (rot_Fail i) w3))" by (rule c) (rule assms(5))
  then have "rot_holds I (snd (call (rot_Get i) (snd (call (rot_Fail i) w3))))" by (rule c) simp
  then show ?thesis by (simp add: failStep_def Let_def w1_def w2_def w3_def)
qed

lemma failStep_inv: "rot_holds rot_inv w \<Longrightarrow> rot_holds rot_inv (snd (failStep i n k e w))"
  by (rule failStep_keeps) (simp_all add: RetirePending_inv rot_Fail_inv UpdateStep_inv step_names)

lemma rot_holds_stages:
  "rot_holds (started i) v \<Longrightarrow> rot_holds rot_inv v" "rot_holds (\<lambda>d. started i d \<and> has_key k kcv d) v \<Longrightarrow> rot_holds (started i) v"
  "rot_holds (offered i k kcv) v \<Longrightarrow> rot_holds rot_inv v" "rot_holds (adopted i k kcv) v \<Longrightarrow> rot_holds rot_inv v"
  by (auto simp: rot_holds_def started_def offered_def adopted_def)

lemma insert_key:
  assumes "rot_holds (started i) w" "ke_KCV row = kcv"
  shows "rot_holds (started i) (snd (call (key_Insert row) w))"
    "call (key_Insert row) w = (Inr k, w1) \<Longrightarrow> rot_holds (\<lambda>d. started i d \<and> has_key k kcv d) w1"
proof -
  show "rot_holds (started i) (snd (call (key_Insert row) w))"
    by (rule rot_holds_call [OF assms(1)]) (simp_all add: started_def key_Insert_keeps)
  assume c: "call (key_Insert row) w = (Inr k, w1)"
  show "rot_holds (\<lambda>d. started i d \<and> has_key k kcv d) w1"
  proof (rule rot_holds_call_ok [OF assms(1) view_progress(1) c])
    fix d d' assume d: "started i d" "key_Insert row d = (Inr k, d')"
    from d(1) have "started i (snd (key_Insert row d))" by (simp add: started_def key_Insert_keeps)
    moreover have "has_key k (ke_KCV row) d'" using d by (intro key_Insert_inv(2)) (simp_all add: started_def)
    ultimately show "started i d' \<and> has_key k kcv d'" using d(2) assms(2) by simp
  qed
qed

lemma link_key:
  assumes "rot_holds (\<lambda>d. started i d \<and> has_key k kcv d) w"
  shows "rot_holds (started i) (snd (call (SetNewKey i k) w))"
    "call (SetNewKey i k) w = (Inr x, w2) \<Longrightarrow> rot_holds (offered i k kcv) w2"
proof -
  have keep: "started i d \<Longrightarrow> started i (snd (SetNewKey i k d))" for d
    by (simp add: started_def SetNewKey_inv unsettled_SetNewKey)
  then show "rot_holds (started i) (snd (call (SetNewKey i k) w))"
    by (rule rot_holds_call [OF rot_holds_stages(2) [OF assms] view_progress(1)])
  assume c: "call (SetNewKey i k) w = (Inr x, w2)"
  show "rot_holds (offered i k kcv) w2"
  proof (rule rot_holds_call_ok [OF assms _ c])
    show "view_pred (\<lambda>d. started i d \<and> has_key k kcv d)" by (intro view_pred_conj view_preds view_progress)
    fix d d' assume d: "started i d \<and> has_key k kcv d" "SetNewKey i k d = (Inr x, d')"
    with keep [of d] linked_keys(2) [of i k d] linked_keys(3) [of k kcv i k d] show "offered i k kcv d'" by (simp add: offered_def)
  qed
qed

lemma offered_step:
  assumes "rot_holds (offered i k kcv) w" "n \<noteq> StepActivate"
  shows "rot_holds (offered i k kcv) (snd (completeStep i n w))"
  by (rule completeStep_keeps [OF assms(1) view_progress(2)]) (rule progress_steps(2) [OF _ assms(2)])

lemma other_steps [simp]: "StepGenerate \<noteq> StepActivate" "StepSend0800161 \<noteq> StepActivate" "StepPartnerConfirm \<noteq> StepActivate"
  by (simp_all add: step_names)

lemma generated:
  fixes underZMK :: bytes
  assumes "rot_holds (started i) w" "ke_KCV row = kcv"
  defines "p \<equiv> (case call (key_Insert row) w of
       (Inl e, w1) \<Rightarrow> (Inl (e, 0 :: int), w1)
     | (Inr newRowID, w1) \<Rightarrow>
         (case call (SetNewKey i newRowID) w1 of
            (Inl e, w2) \<Rightarrow> (Inl (e, newRowID), w2)
          | (Inr _, w2) \<Rightarrow>
              (case completeStep i StepGenerate w2 of
                 (Inl e, w3) \<Rightarrow> (Inl (e, newRowID), w3)
               | (Inr _, w3) \<Rightarrow> (Inr (underZMK, newRowID, kcv), w3))))"
  shows "rot_holds rot_inv (snd p)" "p = (Inr (c, k, kcv'), w') \<Longrightarrow> rot_holds (offered i k kcv') w'"
proof -
  note step = offered_step [OF _ other_steps(1)]
  note ins = insert_key [OF assms(1,2)]
  show "rot_holds rot_inv (snd p)"
    unfolding p_def
  proof (rule bind_snd)
    show "rot_holds rot_inv (snd (call (key_Insert row) w))" by (rule rot_holds_stages(1) [OF ins(1)])
    fix k w1 assume "call (key_Insert row) w = (Inr k, w1)"
    then have one: "rot_holds (\<lambda>d. started i d \<and> has_key k kcv d) w1" by (rule ins(2))
    show "rot_holds rot_inv (snd (case call (SetNewKey i k) w1 of (Inl e, w2) \<Rightarrow> (Inl (e, k), w2)
        | (Inr _, w2) \<Rightarrow> (case completeStep i StepGenerate w2 of (Inl e, w3) \<Rightarrow> (Inl (e, k), w3) | (Inr _, w3) \<Rightarrow> (Inr (underZMK, k, kcv), w3))))"
    proof (rule bind_snd)
      show "rot_holds rot_inv (snd (call (SetNewKey i k) w1))" by (rule rot_holds_stages(1) [OF link_key(1) [OF one]])
      fix x w2 assume "call (SetNewKey i k) w1 = (Inr x, w2)"
      then have two: "rot_holds (offered i k kcv) w2" by (rule link_key(2) [OF one])
      show "rot_holds rot_inv (snd (case completeStep i StepGenerate w2 of (Inl e, w3) \<Rightarrow> (Inl (e, k), w3) | (Inr _, w3) \<Rightarrow> (Inr (underZMK, k, kcv), w3)))"
        by (rule bind_snd, rule rot_holds_stages(3) [OF step [OF two]]) simp_all
    qed simp
  qed simp
  assume p: "p = (Inr (c, k, kcv'), w')"
  then obtain w1 x w2 y where r: "call (key_Insert row) w = (Inr k, w1)" "call (SetNewKey i k) w1 = (Inr x, w2)"
    "completeStep i StepGenerate w2 = (Inr y, w')" "kcv' = kcv"
    unfolding p_def by (auto split: prod.splits sum.splits)
  from step [OF link_key(2) [OF ins(2) [OF r(1)] r(2)]] r(3,4) show "rot_holds (offered i k kcv') w'" by simp
qed

lemma runGenerate_ok:
  assumes "rot_holds (started i) w"
  shows "rot_holds rot_inv (snd (runGenerate g u i kt ow w))"
    "runGenerate g u i kt ow w = (Inr (c, k, kcv), w') \<Longrightarrow> rot_holds (offered i k kcv) w'"
proof -
  note inv = rot_holds_stages(1) [OF assms]
  show "rot_holds rot_inv (snd (runGenerate g u i kt ow w))"
    unfolding runGenerate_def Let_def
    by (cases "rr_key u"; cases "ComputeKCV (me_ciphers g) (projr (rr_key u))"; cases "EncryptBytes (rt_gcm g) (rt_zmk g) (rr_nonce u) (projr (rr_key u))")
      (simp_all add: inv generated(1) [OF assms])
  assume "runGenerate g u i kt ow w = (Inr (c, k, kcv), w')"
  then show "rot_holds (offered i k kcv) w'"
    unfolding runGenerate_def Let_def
    by (cases "rr_key u"; cases "ComputeKCV (me_ciphers g) (projr (rr_key u))"; cases "EncryptBytes (rt_gcm g) (rt_zmk g) (rr_nonce u) (projr (rr_key u))")
      (simp_all, erule generated(2) [OF assms, rotated], simp)
qed

lemma send_attempts_keeps:
  assumes "view_pred I" "\<And>v. rot_holds I v \<Longrightarrow> rot_holds I (snd (completeStep i StepSend0800161 v))" "rot_holds I w"
  shows "rot_holds I (snd (send_attempts u i de48 n att e w))"
  using assms(3)
proof (induction n arbitrary: att e w)
  case (Suc n)
  obtain s w1 where s: "sup_NextSTAN w = (s, w1)" by fastforce
  with rot_holds_STAN [OF Suc.prems] have w1: "rot_holds I w1" by simp
  show ?case
  proof (cases s)
    case (Some stan)
    obtain r w2 where r: "mux_Send ''0800'' [(7, nowDE7 w1), (11, stan), (70, keyChangeDE70), (48, de48)] w1 = (r, w2)" by fastforce
    with rot_holds_Send [OF w1 assms(1)] have w2: "rot_holds I w2" by (metis snd_conv)
    from assms(2) [OF w2] Suc.IH [OF w2] Suc.prems s Some r show ?thesis
      by (auto split: sum.splits prod.splits)
  qed (use s Suc w1 in simp)
qed simp

lemma send_attempts_offered: "rot_holds (offered i k kcv) w \<Longrightarrow> rot_holds (offered i k kcv) (snd (send_attempts u i de48 n att e w))"
  by (rule send_attempts_keeps) (simp_all add: offered_step)

lemma activate_adopts:
  assumes "rot_holds (offered i k kcv) w"
  shows "rot_holds rot_inv (snd (runActivate i k w))" "runActivate i k w = (Inr x, w') \<Longrightarrow> rot_holds (adopted i k kcv) w'"
proof -
  have act: "adopted i k kcv (snd (Activate k d))" if "offered i k kcv d" for d
    using that Activate_inv [of d k kcv] linked_keys(1) [of i k k d] by (simp add: adopted_def offered_def started_def)
  have any: "rot_holds rot_inv (snd (call (Activate k) w))"
  proof -
    have "rot_holds (\<lambda>d. rot_inv d \<and> has_key k kcv d) (snd (call (Activate k) w))"
      by (rule rot_holds_call [OF rot_holds_weaken [OF assms]])
        (auto simp: offered_def started_def Activate_inv intro!: view_pred_conj)
    then show ?thesis by (rule rot_holds_weaken) simp
  qed
  have ok: "rot_holds (adopted i k kcv) w1" if "call (Activate k) w = (Inr y, w1)" for y w1
    by (rule rot_holds_call_ok [OF assms view_progress(2) that]) (use act in \<open>metis snd_conv\<close>)
  have step: "rot_holds (adopted i k kcv) (snd (completeStep i StepActivate v))" if "rot_holds (adopted i k kcv) v" for v
    by (rule completeStep_keeps [OF that view_progress(3)]) (rule progress_steps(3))
  show "rot_holds rot_inv (snd (runActivate i k w))"
    unfolding runActivate_def by (rule bind_snd, rule any, simp) (rule rot_holds_stages(4), rule step, rule ok)
  show "rot_holds (adopted i k kcv) w'" if "runActivate i k w = (Inr x, w')"
    using that step ok unfolding runActivate_def by (auto split: prod.splits sum.splits) (metis snd_conv)
qed

lemma Reload_frame:
  "rot_holds I w \<Longrightarrow> view_pred I \<Longrightarrow> rot_holds I (snd (Reload g kt w))"
proof -
  assume I: "rot_holds I w" "view_pred I"
  obtain r w1 where c: "call key_List w = (r, w1)" by fastforce
  have "rot_holds I (snd (call key_List w))" by (rule rot_holds_call [OF I]) simp
  with c have "rot_holds I w1" by simp
  then have "rot_holds I (w1\<lparr>gw_zak := z\<rparr>)" for z by (rule rot_holds_same) simp_all
  with \<open>rot_holds I w1\<close> I(1) c show ?thesis by (auto simp: Reload_def split: sum.splits option.splits)
qed

lemma complete_keeps:
  assumes "rot_holds (adopted i k kcv) w"
  shows "rot_holds rot_inv (snd (case call (rot_Complete i kcv) w of (Inl e, w1) \<Rightarrow> (Inl e, w1) | (Inr _, w1) \<Rightarrow> call (rot_Get i) w1))"
proof (rule bind_snd)
  have keep: "adopted i k kcv (snd (rot_Complete i kcv d))" if "adopted i k kcv d" for d
  proof -
    have "linked i k (snd (rot_Complete i kcv d))" using that unfolding adopted_def rot_Complete_def snd_conv linked_def
      by (auto dest!: update_rotation_row split: if_splits)
    with that rot_Complete_inv [of d i k kcv] show ?thesis by (simp add: adopted_def) (simp add: rot_Complete_def)
  qed
  show "rot_holds rot_inv (snd (call (rot_Complete i kcv) w))"
    by (rule rot_holds_stages(4), rule rot_holds_call [OF assms view_progress(3) keep])
  show "rot_holds rot_inv w1 \<Longrightarrow> rot_holds rot_inv (snd (call (rot_Get i) w1))" for w1
    by (rule rot_holds_call) simp_all
qed simp

text \<open>\<open>execute\<close> once the issuer has answered.\<close>

definition execute_answered :: "'z rot_env_scheme \<Rightarrow> int \<Rightarrow> string \<Rightarrow> int \<Rightarrow> string \<Rightarrow> fields \<Rightarrow> gw \<Rightarrow> (goerror + RotationRow) \<times> gw" where
  "execute_answered g i keyType newRowID kcv resp w2 =
     (case runPartnerConfirm i resp w2 of
        (Inl e, w3) \<Rightarrow>
          if fget resp 39 \<noteq> ''00'' then failStep i StepPartnerConfirm newRowID e w3 else failStep i StepPartnerConfirm 0 e w3
      | (Inr _, w3) \<Rightarrow>
          (case runActivate i newRowID w3 of
             (Inl e, w4) \<Rightarrow> failStep i StepActivate 0 e w4
           | (Inr _, w4) \<Rightarrow>
               (case call (rot_Complete i kcv) (reloadOnActivate g keyType w4) of
                  (Inl e, w6) \<Rightarrow> (Inl e, w6)
                | (Inr _, w6) \<Rightarrow> call (rot_Get i) w6)))"

lemma execute_eq:
  "execute g u i kt ow w =
     (case runGenerate g u i kt ow w of
        (Inl (e, k), w1) \<Rightarrow> failStep i StepGenerate k e w1
      | (Inr (c, k, kcv), w1) \<Rightarrow>
          (case runSend0800161 g u i kt c w1 of
             (Inl e, w2) \<Rightarrow> failStep i StepSend0800161 0 e w2
           | (Inr resp, w2) \<Rightarrow> execute_answered g i kt k kcv resp w2))"
  unfolding execute_def execute_answered_def Let_def by (rule refl)

lemma execute_answered_inv:
  assumes "rot_holds (offered i k kcv) w"
  shows "rot_holds rot_inv (snd (execute_answered g i kt k kcv resp w))"
proof -
  obtain t w3 where conf: "runPartnerConfirm i resp w = (t, w3)" by fastforce
  have "rot_holds (offered i k kcv) (snd (runPartnerConfirm i resp w))"
    using assms offered_step [OF assms other_steps(3)] by (simp add: runPartnerConfirm_def)
  with conf have off3: "rot_holds (offered i k kcv) w3" by simp
  show ?thesis
  proof (cases t)
    case (Inl e)
    then show ?thesis using conf failStep_inv [OF rot_holds_stages(3) [OF off3]] by (simp add: execute_answered_def)
  next
    case t: (Inr y)
    obtain a w4 where act: "runActivate i k w3 = (a, w4)" by fastforce
    have w4: "rot_holds rot_inv w4" using activate_adopts(1) [OF off3] act by (metis snd_conv)
    show ?thesis
    proof (cases a)
      case (Inl e)
      then show ?thesis using conf t act failStep_inv [OF w4] by (simp add: execute_answered_def)
    next
      case a: (Inr z)
      have "rot_holds (adopted i k kcv) w4" using activate_adopts(2) [OF off3] act a by simp
      then have w5: "rot_holds (adopted i k kcv) (reloadOnActivate g kt w4)" by (simp add: reloadOnActivate_def Reload_frame)
      show ?thesis using conf t act a complete_keeps [OF w5] by (simp add: execute_answered_def)
    qed
  qed
qed

lemma execute_inv:
  assumes "rot_holds (started i) w"
  shows "rot_holds rot_inv (snd (execute g u i kt ow w))"
proof -
  obtain r w1 where gen: "runGenerate g u i kt ow w = (r, w1)" by fastforce
  with runGenerate_ok(1) [OF assms] have w1: "rot_holds rot_inv w1" by (metis snd_conv)
  show ?thesis
  proof (cases r)
    case (Inl e)
    then show ?thesis using gen failStep_inv [OF w1] by (cases e) (simp add: execute_eq)
  next
    case (Inr x)
    then obtain c k kcv where x: "r = Inr (c, k, kcv)" by (cases x) auto
    have off1: "rot_holds (offered i k kcv) w1" using runGenerate_ok(2) [OF assms] gen x by simp
    obtain s w2 where send: "runSend0800161 g u i kt c w1 = (s, w2)" by fastforce
    with send_attempts_offered [OF off1] have off2: "rot_holds (offered i k kcv) w2" unfolding runSend0800161_def Let_def by (metis snd_conv)
    show ?thesis
      using gen x send failStep_inv [OF rot_holds_stages(3) [OF off2]] execute_answered_inv [OF off2]
      by (cases s) (simp_all add: execute_eq)
  qed
qed

section \<open>Recovery keeps the invariant\<close>

text \<open>What \<open>recoverOne\<close> read about a row still holds.\<close>

definition backed :: "RotationRow list \<Rightarrow> db \<Rightarrow> bool" where
  "backed rows d \<longleftrightarrow> rot_inv d \<and> (\<forall>row \<in> set rows. stepStatusOf (ro_Steps row) StepActivate = StatusDone \<longrightarrow>
     (\<forall>k. ro_NewKeyID row = Some k \<longrightarrow> linked (ro_ID row) k d \<and> activated k d))"

lemma view_backed [simp, intro]: "view_pred (backed rows)"
  by (rule view_predI, simp add: rot_view_def rot_preds backed_def)

lemma backed_weaken: "rot_holds (backed rows) w \<Longrightarrow> rot_holds rot_inv w"
  by (erule rot_holds_weaken) (simp add: backed_def)

lemma linked_update:
  assumes "\<And>r. ro_NewKeyID (f r) = ro_NewKeyID r" "\<And>r. ro_ID (f r) = ro_ID r" "linked i k d"
  shows "linked i k (update_rotation j f d)"
  using assms(3) unfolding linked_def by (auto dest!: update_rotation_row simp: assms(1,2) split: if_splits)

lemma backed_update:
  assumes "backed rows d" "\<And>r. ro_NewKeyID (f r) = ro_NewKeyID r" "\<And>r. ro_ID (f r) = ro_ID r" "rot_inv (update_rotation i f d)"
  shows "backed rows (update_rotation i f d)"
  using assms(1,4) linked_update [OF assms(2,3)] by (simp add: backed_def)

lemma backed_fail:
  assumes "backed rows d"
  shows "backed rows (snd (UpdateStep now i n StatusFailed d))" "backed rows (snd (rot_Fail i d))"
proof -
  have inv: "rot_inv d" using assms by (simp add: backed_def)
  have "rot_inv (snd (UpdateStep now i n StatusFailed d))" by (rule UpdateStep_inv [OF inv]) (simp add: step_names)
  then show "backed rows (snd (UpdateStep now i n StatusFailed d))"
    using assms UpdateStep_cases [of now i n StatusFailed d] by (auto intro!: backed_update)
  show "backed rows (snd (rot_Fail i d))"
    using rot_Fail_inv [OF inv, of i] assms unfolding rot_Fail_def snd_conv by (auto intro: backed_update)
qed

lemma recoverOne_keeps:
  assumes "rot_holds (backed rows) w" "row \<in> set rows"
  shows "rot_holds (backed rows) (snd (recoverOne row w))"
proof -
  have fail: "rot_holds (backed rows) (snd (failStep (ro_ID row) n 0 e w))" for n e
    by (rule failStep_keeps [OF assms(1) view_backed]) (simp_all add: backed_fail)
  show ?thesis
  proof (cases "stepStatusOf (ro_Steps row) StepActivate = StatusDone \<and> ro_NewKeyID row \<noteq> None")
    case True
    then obtain k where k: "ro_NewKeyID row = Some k" "stepStatusOf (ro_Steps row) StepActivate = StatusDone" by auto
    have "rot_holds (backed rows) (snd (case call (key_Get k) w of (Inl e, w1) \<Rightarrow> (Inl e, w1)
        | (Inr key, w1) \<Rightarrow> call (rot_Complete (ro_ID row) (ke_KCV key)) w1))"
    proof (rule bind_snd)
      show "rot_holds (backed rows) (snd (call (key_Get k) w))" by (rule rot_holds_call [OF assms(1)]) simp_all
      fix key w1 assume c: "call (key_Get k) w = (Inr key, w1)"
      have "rot_holds (\<lambda>d. backed rows d \<and> has_key k (ke_KCV key) d) w1"
        by (rule rot_holds_call_ok [OF assms(1) view_backed c])
          (auto simp: key_Get_def has_key_def find_Some_iff split: option.splits)
      then have "rot_holds (\<lambda>d. backed rows d \<and> has_key k (ke_KCV key) d) (snd (call (rot_Complete (ro_ID row) (ke_KCV key)) w1))"
      proof (rule rot_holds_call, intro view_pred_conj view_backed view_preds)
        fix d assume d: "backed rows d \<and> has_key k (ke_KCV key) d"
        then have "linked (ro_ID row) k d" "activated k d" using assms(2) k by (auto simp: backed_def)
        with d have "rot_inv (snd (rot_Complete (ro_ID row) (ke_KCV key) d))" by (intro rot_Complete_inv) (auto simp: backed_def)
        with d show "backed rows (snd (rot_Complete (ro_ID row) (ke_KCV key) d)) \<and> has_key k (ke_KCV key) (snd (rot_Complete (ro_ID row) (ke_KCV key) d))"
          unfolding rot_Complete_def snd_conv by (auto intro: backed_update)
      qed
      then show "rot_holds (backed rows) (snd (call (rot_Complete (ro_ID row) (ke_KCV key)) w1))" by (rule rot_holds_weaken) simp
    qed simp
    with k show ?thesis by (simp add: recoverOne_def)
  next
    case False
    with fail show ?thesis by (auto simp: recoverOne_def split: option.splits bool.splits)
  qed
qed

lemma recover_all_keeps:
  "rot_holds (backed rows) w \<Longrightarrow> set todo \<subseteq> set rows \<Longrightarrow> rot_holds (backed rows) (snd (recover_all todo w))"
proof (induction todo arbitrary: w)
  case (Cons row todo)
  show ?case unfolding recover_all.simps
    by (rule bind_snd, rule recoverOne_keeps) (use Cons in auto)
qed simp

text \<open>A row that was read is backed.\<close>

lemma get_all_backed:
  assumes "rot_holds (backed seen) w" "get_all ids w = (Inr rows, w')"
  shows "rot_holds (backed (seen @ rows)) w'"
  using assms
proof (induction ids arbitrary: seen w rows)
  case (Cons i ids)
  then obtain row w1 rest where r: "call (rot_Get i) w = (Inr row, w1)" "get_all ids w1 = (Inr rest, w')" "rows = row # rest"
    by (auto split: prod.splits sum.splits)
  have "rot_holds (backed (seen @ [row])) w1"
  proof (rule rot_holds_call_ok [OF Cons.prems(1) view_backed r(1)])
    fix d d' assume d: "backed seen d" "rot_Get i d = (Inr row, d')"
    then have d': "d' = d" "row \<in> set (db_rotations d)" by (auto simp: rot_Get_def find_Some_iff split: option.splits)
    have inv: "rot_inv d" using d by (simp add: backed_def)
    have "linked (ro_ID row) k d \<and> activated k d" if "stepStatusOf (ro_Steps row) StepActivate = StatusDone" "ro_NewKeyID row = Some k" for k
    proof
      show "activated k d" using inv d'(2) that by (auto simp: rot_inv_def settled_ok_def)
      show "linked (ro_ID row) k d" unfolding linked_def using rot_row_unique [OF inv _ d'(2)] that(2) by auto
    qed
    with d(1) d'(1) show "backed (seen @ [row]) d'" by (auto simp: backed_def)
  qed
  from Cons.IH [OF this r(2)] r(3) show ?case by simp
qed simp

lemma get_all_inv: "rot_holds rot_inv w \<Longrightarrow> rot_holds rot_inv (snd (get_all ids w))"
proof (induction ids arbitrary: w)
  case (Cons i ids)
  have g: "rot_holds rot_inv (snd (call (rot_Get i) w))" by (rule rot_holds_call [OF Cons.prems]) simp_all
  obtain r w1 where c: "call (rot_Get i) w = (r, w1)" by fastforce
  with g Cons.IH have "rot_holds rot_inv (snd (get_all ids w1))" by simp
  with g c show ?case by (auto split: prod.splits sum.splits)
qed simp

lemma recoverInterrupted_inv:
  assumes "rot_holds rot_inv w"
  shows "rot_holds rot_inv (snd (recoverInterrupted w))"
proof -
  obtain r w1 where c: "call running_ids w = (r, w1)" by fastforce
  have "rot_holds rot_inv (snd (call running_ids w))" by (rule rot_holds_call [OF assms]) simp_all
  with c have w1: "rot_holds rot_inv w1" by simp
  show ?thesis
  proof (cases r)
    case (Inl e)
    with c w1 show ?thesis by (simp add: recoverInterrupted_def ListRunning_def)
  next
    case (Inr ids)
    obtain q w2 where g: "get_all ids w1 = (q, w2)" by fastforce
    with get_all_inv [OF w1] have w2: "rot_holds rot_inv w2" by (metis snd_conv)
    have "rot_holds (backed []) w1" using w1 by (rule rot_holds_weaken) (simp add: backed_def)
    from get_all_backed [OF this, of ids _ w2] g have "rot_holds (backed rows) w2" if "q = Inr rows" for rows using that by simp
    then have "rot_holds rot_inv (snd (recover_all rows w2))" if "q = Inr rows" for rows
      using that recover_all_keeps [of rows w2 rows] backed_weaken by blast
    with c Inr g w2 show ?thesis by (auto simp: recoverInterrupted_def ListRunning_def split: sum.splits)
  qed
qed

end
