(* ===== verification/Rotation_Safety.thy ===== *)
theory Rotation_Safety
  imports Rotation
begin

text \<open>
  Key rotation as a whole. The runner's entry points (provisioning, \<open>Serve\<close>, \<open>Start\<close>, the background rotation, shutdown and crash) are
  the steps of a state machine; by rule induction, every completed rotation has an activated key and at most one key per type and owner is active.
  Then the fate of one rotation: when its key may be retired, that it completes when the issuer confirms, what it puts
  on the wire, and that recovery settles what a crash left running.
\<close>

section \<open>The runner as a state machine\<close>

text \<open>The flags, the rotation in the background (its row and key type), and the database.\<close>

type_synonym rot_state = "runner \<times> (int \<times> string) option \<times> db"

definition idle_runner :: runner where
  "idle_runner = \<lparr>rn_serving = False, rn_running = False\<rparr>"

inductive rot_step :: "rot_state \<Rightarrow> rot_state \<Rightarrow> bool" where
  provision: "w_db w = d \<Longrightarrow> rot_rely w \<Longrightarrow> rot_step (rn, bg, d) (rn, bg, w_db (snd (ProvisionInitialKey (g :: mac_env) kt clear w)))"
| serve: "w_db w = d \<Longrightarrow> rot_rely w \<Longrightarrow> Serve_begin rn w = (r, rn', w') \<Longrightarrow> rot_step (rn, None, d) (rn', None, w_db w')"
| start: "w_db w = d \<Longrightarrow> rot_rely w \<Longrightarrow> Start kt rn w = (Inr row, rn', w') \<Longrightarrow> rot_step (rn, bg, d) (rn', Some (ro_ID row, kt), w_db w')"
| start_refused: "w_db w = d \<Longrightarrow> rot_rely w \<Longrightarrow> Start kt rn w = (Inl e, rn', w') \<Longrightarrow> rot_step (rn, bg, d) (rn', bg, w_db w')"
| finish: "w_db w = d \<Longrightarrow> rot_rely w \<Longrightarrow> background (g :: rot_env) u i kt '''' rn w = (rn', w') \<Longrightarrow> rot_step (rn, Some (i, kt), d) (rn', None, w_db w')"
| crash_running: "w_db w = d \<Longrightarrow> rot_rely w \<Longrightarrow>
    rot_step (rn, Some (i, kt), d) (idle_runner, None, w_db (snd (execute (g :: rot_env) u i kt '''' w)))"
| crash_idle: "rot_step (rn, None, d) (idle_runner, None, d)"
| stop: "rot_step (rn, bg, d) (Serve_end rn, bg, d)"

definition rot_init :: "db \<Rightarrow> bool" where
  "rot_init d \<longleftrightarrow> db_keys d = [] \<and> db_key_seq d = 0 \<and> db_rotations d = [] \<and> db_rotation_seq d = 0"

inductive rot_reach :: "rot_state \<Rightarrow> bool" where
  initial: "rot_init d \<Longrightarrow> rot_reach (idle_runner, None, d)"
| step: "rot_reach s \<Longrightarrow> rot_step s s' \<Longrightarrow> rot_reach s'"

definition rot_state_inv :: "rot_state \<Rightarrow> bool" where
  "rot_state_inv s \<longleftrightarrow> (case s of (rn, bg, d) \<Rightarrow>
     rot_inv d \<and> rn_running rn = (bg \<noteq> None) \<and> (\<forall>i kt. bg = Some (i, kt) \<longrightarrow> unsettled i d))"

lemma holds_inv: "rot_holds I w \<Longrightarrow> I (w_db w)"
  by (simp add: rot_holds_def)

lemma ProvisionInitialKey_keeps:
  assumes "rot_holds I w" "view_pred I" "\<And>d b kcv. I d \<Longrightarrow> I (snd (EnsureActive kt b kcv d))"
  shows "rot_holds I (snd (ProvisionInitialKey g kt clear w))"
proof -
  have e: "rot_holds I (snd (call (EnsureActive kt b kcv) w))" for b kcv by (rule rot_holds_call [OF assms(1,2) assms(3)])
  have a: "rot_holds I (snd (call (ActiveKCV kt) w1))" if "rot_holds I w1" for w1
    by (rule rot_holds_call [OF that assms(2)]) simp
  show ?thesis
  proof (cases clear)
    case (Some key)
    show ?thesis
    proof (cases "ComputeKCV (me_ciphers g) key")
      case (Inr kcv)
      obtain r w1 where c: "call (EnsureActive kt (WrapUnderLMK (me_lmk g) key) kcv) w = (r, w1)" by fastforce
      with e have "rot_holds I w1" by (metis snd_conv)
      from this a [OF this] c Some Inr show ?thesis
        by (auto simp: ProvisionInitialKey_def Let_def split: sum.splits prod.splits)
    qed (use Some assms(1) in \<open>simp add: ProvisionInitialKey_def\<close>)
  qed (use assms(1) in \<open>simp add: ProvisionInitialKey_def\<close>)
qed

lemma Start_cases:
  assumes "Start kt rn w = (r, rn', w')" "rot_holds rot_inv w"
  shows "rot_holds rot_inv w' \<and> (case r of
      Inl _ \<Rightarrow> rn' = rn \<and> (rn_running rn \<longrightarrow> w' = w)
    | Inr row \<Rightarrow> \<not> rn_running rn \<and> rn_running rn' \<and> unsettled (ro_ID row) (w_db w'))"
proof (cases "rn_serving rn \<and> \<not> rn_running rn")
  case True
  obtain c w1 where c: "call (rot_Create kt) w = (c, w1)" by fastforce
  have "rot_inv (snd (rot_Create kt d))" if "rot_inv d" for d
    using rot_Create_inv(1) [OF that, of kt "db_rotation_seq d + 1" "snd (rot_Create kt d)"] by (simp add: rot_Create_def Let_def)
  then have w1: "rot_holds rot_inv w1" using rot_holds_call [OF assms(2) view_preds(1), of "rot_Create kt"] c by simp
  show ?thesis
  proof (cases c)
    case (Inr i)
    have s1: "rot_holds (started i) w1"
      by (rule rot_holds_call_ok [OF assms(2) view_preds(1) c [unfolded Inr]]) (simp add: started_def rot_Create_inv)
    obtain q w2 where q: "call (rot_Get i) w1 = (q, w2)" by fastforce
    have "rot_holds (started i) (snd (call (rot_Get i) w1))" by (rule rot_holds_call [OF s1]) simp_all
    with q have s2: "rot_holds (started i) w2" by simp
    have "ro_ID row = i" if "q = Inr row" for row
    proof -
      have "rot_holds (\<lambda>d. ro_ID row = i) w2"
        by (rule rot_holds_call_ok [OF s1 view_progress(1) q [unfolded that]]) (auto simp: rot_Get_def find_Some_iff split: option.splits)
      then show ?thesis by (simp add: rot_holds_def)
    qed
    with True c Inr q s2 assms(1) show ?thesis
      by (auto simp: Start_def started_def rot_holds_def split: sum.splits)
  qed (use True c w1 assms(1) in \<open>auto simp: Start_def\<close>)
qed (use assms in \<open>auto simp: Start_def split: if_splits\<close>)

lemma rot_step_inv: "rot_step s s' \<Longrightarrow> rot_state_inv s \<Longrightarrow> rot_state_inv s'"
proof (induction rule: rot_step.induct)
  case (provision w d rn bg g kt clear)
  have frame: "unsettled i (snd (EnsureActive kt b kcv d)) = unsettled i d" for i b kcv d
    by (simp add: EnsureActive_def Let_def unsettled_def)
  have "rot_holds rot_inv (snd (ProvisionInitialKey g kt clear w))"
    using provision by (intro ProvisionInitialKey_keeps) (auto simp: rot_state_inv_def rot_holds_def EnsureActive_inv)
  moreover have "unsettled i (w_db (snd (ProvisionInitialKey g kt clear w)))" if "unsettled i d" for i
  proof (rule holds_inv [OF ProvisionInitialKey_keeps])
    show "rot_holds (unsettled i) w" using provision that by (simp add: rot_holds_def)
  qed (simp_all add: frame)
  ultimately show ?case using provision by (auto simp: rot_state_inv_def rot_holds_def)
next
  case (serve w d rn r rn' w')
  then have "rot_holds rot_inv (snd (recoverInterrupted w))" by (intro recoverInterrupted_inv) (simp add: rot_holds_def rot_state_inv_def)
  with serve show ?case by (auto simp: rot_state_inv_def Serve_begin_def rot_holds_def split: prod.splits sum.splits)
next
  case (start w d kt rn row rn' w' bg)
  with Start_cases [OF start(3)] show ?case by (auto simp: rot_state_inv_def rot_holds_def)
next
  case (start_refused w d kt rn e rn' w' bg)
  with Start_cases [OF start_refused(3)] show ?case by (auto simp: rot_state_inv_def rot_holds_def)
next
  case (finish w d g u i kt rn rn' w')
  then have "rot_holds rot_inv (snd (execute g u i kt '''' w))"
    by (intro execute_inv) (simp add: rot_holds_def rot_state_inv_def started_def)
  with finish show ?case by (auto simp: rot_state_inv_def background_def rot_holds_def)
next
  case (crash_running w d rn i kt g u)
  then have "rot_holds rot_inv (snd (execute g u i kt '''' w))"
    by (intro execute_inv) (simp add: rot_holds_def rot_state_inv_def started_def)
  with crash_running show ?case by (auto simp: rot_state_inv_def idle_runner_def rot_holds_def)
qed (auto simp: rot_state_inv_def idle_runner_def Serve_end_def)

lemma rot_reach_inv: "rot_reach s \<Longrightarrow> rot_state_inv s"
proof (induction rule: rot_reach.induct)
  case (initial d)
  then show ?case by (simp add: rot_state_inv_def rot_inv_def key_ok_def rot_init_def one_active_def idle_runner_def)
qed (rule rot_step_inv)

section \<open>The fate of the new key\<close>

definition kept :: "int \<Rightarrow> db \<Rightarrow> bool" where
  "kept k d \<longleftrightarrow> (\<forall>x \<in> set (db_keys d). ke_ID x = k \<longrightarrow> ke_Status x \<noteq> ''RETIRED'')"

lemma view_kept [simp, intro]: "view_pred (kept k)" "view_pred (\<lambda>d. db_key_seq d = n \<and> kept k d)"
  by (rule view_predI, simp add: rot_view_def kept_def)+

lemma kept_keys: "db_keys d' = db_keys d \<Longrightarrow> kept k d' = kept k d"
  by (simp add: kept_def)

lemma kept_ops [simp]:
  "kept k (snd (UpdateStep now i n st d)) = kept k d" "kept k (snd (rot_Fail i d)) = kept k d"
  "kept k (snd (SetNewKey i j d)) = kept k d" "kept k (snd (rot_Complete i kcv d)) = kept k d"
  by (rule kept_keys, simp add: UpdateStep_def rot_Fail_def SetNewKey_def rot_Complete_def split: option.splits)+

lemma kept_Insert: "kept k d \<Longrightarrow> kept k (snd (key_Insert row d))"
  by (simp add: kept_def key_Insert_def Let_def)

lemma kept_Activate: "kept k (snd (Activate k d))"
proof -
  let ?f = "\<lambda>now P x. if ke_Status x = ''PENDING'' \<and> ke_ID x \<noteq> k \<and> P x then retire now x else x"
    and ?h = "\<lambda>now x :: KeyRow. if ke_ID x = k then x\<lparr>ke_Status := ''ACTIVE'', ke_ActivatedAt := Some now\<rparr> else x"
  have status: "ke_Status (?f now P (?h now y)) \<noteq> ''RETIRED''" if "ke_ID (?f now P (?h now y)) = k" for now P y
    using that by (simp add: retire_def split: if_splits)
  have keys: "db_keys (d\<lparr>db_keys := X\<rparr>) = X" for X by simp
  have "\<exists>now P ks. db_keys (snd (Activate k d)) = map (?f now P) (map (?h now) ks)"
    unfolding Activate_def Let_def snd_conv keys by (intro exI) (rule refl)
  then obtain now P ks where eq: "db_keys (snd (Activate k d)) = map (?f now P) (map (?h now) ks)" by blast
  show ?thesis unfolding kept_def eq set_map ball_simps(9) using status by blast
qed

lemma kept_completeStep: "rot_holds (kept k) w \<Longrightarrow> rot_holds (kept k) (snd (completeStep i n w))"
  by (rule completeStep_keeps) simp_all

lemma kept_failStep: "rot_holds (kept k) w \<Longrightarrow> rot_holds (kept k) (snd (failStep i n 0 e w))"
  by (rule failStep_keeps) simp_all

text \<open>What these operations leave of the rest of the gateway.\<close>

lemma completeStep_frame [simp]:
  "gw_sends (snd (completeStep i n w)) = gw_sends w" "gw_wire (snd (completeStep i n w)) = gw_wire w"
proof -
  obtain r w1 where c: "call (UpdateStep (gw_now w) i n StatusDone) w = (r, w1)" by fastforce
  from call_gw_fields [of "UpdateStep (gw_now w) i n StatusDone" w] c have "gw_sends w1 = gw_sends w" "gw_wire w1 = gw_wire w" by simp_all
  with c show "gw_sends (snd (completeStep i n w)) = gw_sends w" "gw_wire (snd (completeStep i n w)) = gw_wire w"
    by (auto simp: completeStep_def split: sum.splits)
qed

lemma failStep_frame [simp]:
  "gw_sends (snd (failStep i n k e w)) = gw_sends w" "gw_wire (snd (failStep i n k e w)) = gw_wire w"
  by (simp_all add: failStep_def Let_def)

lemma frame_of: "f v = (r, v') \<Longrightarrow> P (snd (f v)) \<Longrightarrow> P v'"
  by simp

lemma runGenerate_cases:
  obtains (early) e where "runGenerate g u i kt ow w = (Inl (e, 0), w)"
  | (insert) key kcv c row where "rr_key u = Inr key" "ComputeKCV (me_ciphers g) key = Inr kcv"
      "EncryptBytes (rt_gcm g) (rt_zmk g) (rr_nonce u) key = Inr c" "ke_KeyType row = kt" "ke_OwnerRef row = ow"
      "ke_KeyUnderLMKHex row = WrapUnderLMK (me_lmk g) key" "ke_KCV row = kcv"
      "runGenerate g u i kt ow w = (case call (key_Insert row) w of
         (Inl e, w1) \<Rightarrow> (Inl (e, 0), w1)
       | (Inr newRowID, w1) \<Rightarrow>
           (case call (SetNewKey i newRowID) w1 of
              (Inl e, w2) \<Rightarrow> (Inl (e, newRowID), w2)
            | (Inr _, w2) \<Rightarrow>
                (case completeStep i StepGenerate w2 of
                   (Inl e, w3) \<Rightarrow> (Inl (e, newRowID), w3)
                 | (Inr _, w3) \<Rightarrow> (Inr (c, newRowID, kcv), w3))))"
proof (cases "rr_key u")
  case (Inl e)
  then show ?thesis using early by (simp add: runGenerate_def)
next
  case key: (Inr key)
  show ?thesis
  proof (cases "ComputeKCV (me_ciphers g) key")
    case (Inl e)
    then show ?thesis using early key by (simp add: runGenerate_def)
  next
    case kcv: (Inr kcv)
    show ?thesis
    proof (cases "EncryptBytes (rt_gcm g) (rt_zmk g) (rr_nonce u) key")
      case (Inl e)
      then show ?thesis using early key kcv by (simp add: runGenerate_def)
    next
      case (Inr c)
      show ?thesis
        by (rule insert [OF key kcv Inr, where row = "\<lparr>ke_ID = 0, ke_KeyType = kt, ke_OwnerRef = ow,
            ke_KeyUnderLMKHex = WrapUnderLMK (me_lmk g) key, ke_KCV = kcv, ke_Status = '''', ke_ActivatedAt = None, ke_RetiredAt = None,
            ke_CreatedAt = zeroTime\<rparr>"]) (simp_all add: runGenerate_def key kcv Inr Let_def)
    qed
  qed
qed

lemma runGenerate_frame:
  "gw_sends (snd (runGenerate g u i kt ow w)) = gw_sends w \<and> gw_wire (snd (runGenerate g u i kt ow w)) = gw_wire w"
proof (cases g u i kt ow w rule: runGenerate_cases)
  case (insert key kcv c row)
  let ?K = "\<lambda>v :: gw. gw_sends v = gw_sends w \<and> gw_wire v = gw_wire w"
  have call: "?K (snd (call op v))" if "?K v" for op :: "'a dbop" and v using that by simp
  have step: "?K (snd (completeStep i n v))" if "?K v" for n v using that by simp
  show ?thesis unfolding insert(8)
    by (rule bind_snd [where K = ?K], simp, simp, rule bind_snd [where K = ?K], simp, simp, rule bind_snd [where K = ?K], rule step, simp, simp, simp)
qed simp

text \<open>The new key stays unretired up to the point where the issuer's answer is known.\<close>

lemma runGenerate_kept:
  assumes "rot_holds (\<lambda>d. db_key_seq d = n \<and> kept (n + 1) d) w" "runGenerate g u i kt ow w = (Inr (c, k, kcv), w')"
  shows "k = n + 1 \<and> rot_holds (kept k) w'"
proof (cases g u i kt ow w rule: runGenerate_cases)
  case (insert key kcv' c' row)
  then obtain w1 w2 y z where r: "call (key_Insert row) w = (Inr k, w1)" "call (SetNewKey i k) w1 = (Inr y, w2)"
    "completeStep i StepGenerate w2 = (Inr z, w')"
    using assms(2) by (auto split: prod.splits sum.splits)
  have "rot_holds (\<lambda>d. k = n + 1 \<and> kept k d) w1"
  proof (rule rot_holds_call_ok [OF assms(1) view_kept(2) r(1)])
    fix d d' assume d: "db_key_seq d = n \<and> kept (n + 1) d" "key_Insert row d = (Inr k, d')"
    then have "k = n + 1" by (auto simp: key_Insert_def Let_def)
    with d kept_Insert [of k d row] show "k = n + 1 \<and> kept k d'" by simp
  qed
  then have k: "k = n + 1" and w1: "rot_holds (kept k) w1" by (auto simp: rot_holds_def)
  have "rot_holds (kept k) (snd (call (SetNewKey i k) w1))" by (rule rot_holds_call [OF w1]) simp_all
  with r(2) have "rot_holds (kept k) w2" by simp
  with kept_completeStep r(3) k show ?thesis by (metis snd_conv)
qed (use assms(2) in simp)

lemma send_attempts_kept: "rot_holds (kept k) w \<Longrightarrow> rot_holds (kept k) (snd (send_attempts u i de48 n att e w))"
  by (rule send_attempts_keeps) (simp_all add: kept_completeStep)

lemma execute_answered_kept:
  assumes "rot_holds (kept k) w" "fget resp 39 = ''00''"
  shows "rot_holds (kept k) (snd (execute_answered g i kt k kcv resp w))"
proof -
  obtain t w3 where conf: "completeStep i StepPartnerConfirm w = (t, w3)" by fastforce
  with kept_completeStep [OF assms(1)] have w3: "rot_holds (kept k) w3" by (metis snd_conv)
  obtain a w4 where act: "runActivate i k w3 = (a, w4)" by fastforce
  have "rot_holds (kept k) (snd (runActivate i k w3))"
    unfolding runActivate_def
    by (rule bind_snd, rule rot_holds_call [OF w3 view_kept(1) kept_Activate], simp) (rule kept_completeStep)
  with act have w4: "rot_holds (kept k) w4" by simp
  have "rot_holds (kept k) (reloadOnActivate g kt w4)" using Reload_frame [OF w4 view_kept(1)] by (simp add: reloadOnActivate_def)
  then have "rot_holds (kept k) (snd (case call (rot_Complete i kcv) (reloadOnActivate g kt w4) of (Inl e, w6) \<Rightarrow> (Inl e, w6)
      | (Inr _, w6) \<Rightarrow> call (rot_Get i) w6))"
    by (intro bind_snd [where K = "rot_holds (kept k)"] rot_holds_call view_kept) simp_all
  then show ?thesis
    using conf act assms(2) kept_failStep [OF w3] kept_failStep [OF w4]
    by (simp add: execute_answered_def runPartnerConfirm_def split: sum.splits)
qed

text \<open>An answer that ends the loop is the last one the script gave, and it is not RC 96.\<close>

lemma send_attempts_answer:
  assumes "send_attempts u i de48 n att e w = (Inr resp, w')"
  shows "\<exists>pre s. gw_sends w = pre @ s # gw_sends w' \<and> so_result s = Inr resp \<and> fget resp 39 \<noteq> rcOutcomeUnknown"
  using assms
proof (induction n arbitrary: att e w)
  case (Suc n)
  obtain q w1 where s: "sup_NextSTAN w = (q, w1)" by fastforce
  with sup_NextSTAN_simps(4) [of w] have w1: "gw_sends w1 = gw_sends w" by simp
  show ?case
  proof (cases q)
    case (Some stan)
    let ?m = "[(7, nowDE7 w1), (11, stan), (70, keyChangeDE70), (48, de48)]"
    obtain r w2 where r: "mux_Send ''0800'' ?m w1 = (r, w2)" by fastforce
    show ?thesis
    proof (cases "gw_sends w")
      case Nil
      then have "r = Inl [ErrNotSignedOn]" "gw_sends w2 = []" using r w1 by (auto simp: mux_Send_def)
      with Suc.prems s Some r Suc.IH [of "Suc att" "[ErrNotSignedOn]" w2] Nil show ?thesis by (simp split: if_splits)
    next
      case (Cons o1 rest)
      then have o1: "r = so_result o1" "gw_sends w2 = rest" using r w1 by (auto simp: mux_Send_def)
      have later: ?thesis if "send_attempts u i de48 n (Suc att) e' w2 = (Inr resp, w')" for e'
      proof -
        from Suc.IH [OF that] obtain pre s' where "gw_sends w = (o1 # pre) @ s' # gw_sends w'" "so_result s' = Inr resp" "fget resp 39 \<noteq> rcOutcomeUnknown"
          using Cons o1(2) by auto
        then show ?thesis by blast
      qed
      have now: ?thesis if "r = Inr resp'" "fget resp' 39 \<noteq> rcOutcomeUnknown"
        "(case completeStep i StepSend0800161 w2 of (Inl e, w3) \<Rightarrow> (Inl e, w3) | (Inr _, w3) \<Rightarrow> (Inr resp', w3)) = (Inr resp, w')" for resp'
      proof -
        from that(3) obtain y where "completeStep i StepSend0800161 w2 = (Inr y, w')" "resp' = resp" by (auto split: sum.splits prod.splits)
        with completeStep_frame(1) [of i StepSend0800161 w2] o1 Cons that(1,2) have "gw_sends w = [] @ o1 # gw_sends w'" "so_result o1 = Inr resp" by simp_all
        with that(2) \<open>resp' = resp\<close> show ?thesis by blast
      qed
      show ?thesis
      proof (cases r)
        case (Inl e')
        with Suc.prems s Some r later show ?thesis by (simp split: if_splits)
      next
        case (Inr resp')
        with Suc.prems s Some r later now show ?thesis by (cases "fget resp' 39 = rcOutcomeUnknown") (simp_all split: if_splits)
      qed
    qed
  next
    case None
    with Suc.prems s Suc.IH [of "Suc att" "[]" w1] w1 show ?thesis by (simp split: if_splits)
  qed
qed simp

lemma execute_retires:
  assumes "execute g u i kt ow w = (r, w')" "rot_rely w" "rot_inv (w_db w)" "\<not> kept (db_key_seq (w_db w) + 1) (w_db w')"
  shows "gw_wire w' = gw_wire w \<or>
    (\<exists>pre s resp. gw_sends w = pre @ s # gw_sends w' \<and> so_result s = Inr resp \<and> fget resp 39 \<notin> {''00'', ''96''})"
proof -
  let ?n = "db_key_seq (w_db w)"
  have start: "rot_holds (\<lambda>d. db_key_seq d = ?n \<and> kept (?n + 1) d) w"
    using assms(2,3) by (force simp: rot_holds_def kept_def rot_inv_def key_ok_def)
  have no: "\<not> rot_holds (kept (?n + 1)) w'" using assms(4) by (simp add: rot_holds_def)
  obtain q w1 where gen: "runGenerate g u i kt ow w = (q, w1)" by fastforce
  with runGenerate_frame [of g u i kt ow w] have w1: "gw_sends w1 = gw_sends w" "gw_wire w1 = gw_wire w" by simp_all
  show ?thesis
  proof (cases q)
    case (Inl x)
    with gen assms(1) have "w' = snd (failStep i StepGenerate (snd x) (fst x) w1)" by (cases x) (simp add: execute_eq)
    with w1 show ?thesis by simp
  next
    case (Inr x)
    then obtain c k kcv where q: "q = Inr (c, k, kcv)" by (cases x) auto
    with runGenerate_kept [OF start] gen have k: "k = ?n + 1" "rot_holds (kept k) w1" by blast+
    obtain s w2 where send: "runSend0800161 g u i kt c w1 = (s, w2)" by fastforce
    with send_attempts_kept [OF k(2)] have w2: "rot_holds (kept k) w2" unfolding runSend0800161_def Let_def by (metis snd_conv)
    have exe: "(r, w') = (case s of Inl e \<Rightarrow> failStep i StepSend0800161 0 e w2 | Inr resp \<Rightarrow> execute_answered g i kt k kcv resp w2)"
      using assms(1) gen q send by (simp add: execute_eq split: sum.splits)
    show ?thesis
    proof (cases s)
      case (Inl e)
      with exe have "w' = snd (failStep i StepSend0800161 0 e w2)" by (metis snd_conv sum.simps(5))
      with kept_failStep [OF w2] no k(1) show ?thesis by metis
    next
      case (Inr resp)
      with exe have ans: "(r, w') = execute_answered g i kt k kcv resp w2" by simp
      have rc: "fget resp 39 \<noteq> ''00''"
      proof
        assume "fget resp 39 = ''00''"
        from execute_answered_kept [OF w2 this] ans no k(1) show False by (metis snd_conv)
      qed
      from rc ans have "(r, w') = failStep i StepPartnerConfirm k [] w2" by (simp add: execute_answered_def runPartnerConfirm_def)
      then have "gw_sends w' = gw_sends w2" by (metis failStep_frame(1) snd_conv)
      moreover from send_attempts_answer send Inr obtain pre o1 where "gw_sends w1 = pre @ o1 # gw_sends w2" "so_result o1 = Inr resp"
        "fget resp 39 \<noteq> rcOutcomeUnknown" unfolding runSend0800161_def Let_def by blast
      ultimately have "gw_sends w = pre @ o1 # gw_sends w'" "so_result o1 = Inr resp" "fget resp 39 \<notin> {''00'', ''96''}"
        using w1 rc by (simp_all add: rcOutcomeUnknown_def)
      then show ?thesis by blast
    qed
  qed
qed

section \<open>What a rotation puts on the wire\<close>

lemma EncryptBytes_Decrypt:
  assumes "EncryptBytes c key (Inr nonce) plain = Inr sealed" "gcm_ok c" "length nonce = gcm_NonceSize"
  shows "DecryptBytes c key sealed = Inr plain"
proof -
  from assms(1) have "newGCM key = Inr ()" "sealed = nonce @ gcm_Seal c key nonce plain" by (auto simp: EncryptBytes_def split: sum.splits)
  with assms(2,3) show ?thesis by (simp add: DecryptBytes_def gcm_ok_def)
qed

definition offers :: "string \<Rightarrow> string \<times> fields \<Rightarrow> bool" where
  "offers de48 m \<longleftrightarrow> fst m = ''0800'' \<and> fget (snd m) 70 = ''161'' \<and> fget (snd m) 48 = de48"

lemma send_attempts_wire:
  "\<exists>ms. gw_wire (snd (send_attempts u i de48 n att e w)) = gw_wire w @ ms \<and> length ms \<le> n \<and> list_all (offers de48) ms"
proof (induction n arbitrary: att e w)
  case (Suc n)
  obtain q w1 where s: "sup_NextSTAN w = (q, w1)" by fastforce
  with sup_NextSTAN_simps(3) [of w] have w1: "gw_wire w1 = gw_wire w" by simp
  have stop: ?case if "snd (send_attempts u i de48 (Suc n) att e w) = v" "gw_wire v = gw_wire w @ ms" "length ms \<le> 1" "list_all (offers de48) ms" for v ms
    using that by (intro exI [of _ ms]) simp
  have go: ?case if "snd (send_attempts u i de48 (Suc n) att e w) = snd (send_attempts u i de48 n (Suc att) e' v)"
    "gw_wire v = gw_wire w @ ms" "length ms \<le> 1" "list_all (offers de48) ms" for e' v ms
  proof -
    obtain rest where "gw_wire (snd (send_attempts u i de48 n (Suc att) e' v)) = gw_wire v @ rest" "length rest \<le> n" "list_all (offers de48) rest"
      using Suc.IH by blast
    with that show ?thesis by (intro exI [of _ "ms @ rest"]) simp
  qed
  show ?case
  proof (cases "rr_cancelled u att \<or> q = None")
    case True
    then show ?thesis using stop [of w "[]"] go [of "[]" w1 "[]"] s w1 by (auto split: if_splits)
  next
    case False
    then obtain stan where q: "q = Some stan" by auto
    let ?m = "(''0800'', [(7, nowDE7 w1), (11, stan), (70, keyChangeDE70), (48, de48)])"
    obtain r w2 where r: "mux_Send (fst ?m) (snd ?m) w1 = (r, w2)" by fastforce
    then have "gw_wire w2 = gw_wire w \<or> gw_wire w2 = gw_wire w @ [?m]" using w1
      by (auto simp: mux_Send_def split: list.splits sum.splits if_splits)
    then obtain ms where ms: "gw_wire w2 = gw_wire w @ ms" "length ms \<le> 1" "list_all (offers de48) ms"
    proof
      assume "gw_wire w2 = gw_wire w"
      then show thesis using that [of "[]"] by simp
    next
      assume "gw_wire w2 = gw_wire w @ [?m]"
      then show thesis using that [of "[?m]"] by (simp add: offers_def fget_def keyChangeDE70_def)
    qed
    show ?thesis
    proof (cases r)
      case (Inl e')
      then show ?thesis using False s q r by (intro go [OF _ ms]) simp
    next
      case (Inr resp)
      obtain y w3 where c: "completeStep i StepSend0800161 w2 = (y, w3)" by fastforce
      with completeStep_frame(2) [of i StepSend0800161 w2] ms have w3: "gw_wire w3 = gw_wire w @ ms" by simp
      show ?thesis
      proof (cases "fget resp 39 = rcOutcomeUnknown")
        case True
        then show ?thesis using False s q r Inr by (intro go [OF _ ms]) simp
      next
        case unknown: False
        then show ?thesis using False s q r Inr c by (intro stop [OF _ w3 ms(2,3)]) (simp split: sum.splits)
      qed
    qed
  qed
qed simp

lemma Reload_wire: "gw_wire (snd (Reload g kt w)) = gw_wire w"
proof -
  obtain r w1 where c: "call key_List w = (r, w1)" by fastforce
  with call_gw_fields(2) [of key_List w] have "gw_wire w1 = gw_wire w" by simp
  with c show ?thesis by (auto simp: Reload_def split: sum.splits option.splits)
qed

lemma execute_answered_wire: "gw_wire (snd (execute_answered g i kt k kcv resp w)) = gw_wire w"
proof -
  let ?K = "\<lambda>v :: gw. gw_wire v = gw_wire w"
  have step: "?K v \<Longrightarrow> ?K (snd (completeStep i n v))" for n v by simp
  have call: "?K v \<Longrightarrow> ?K (snd (call op v))" for op :: "'c dbop" and v by simp
  have act: "?K (snd (runActivate i k v))" if "?K v" for v
    unfolding runActivate_def by (rule bind_snd [where K = ?K], simp add: that, simp) (rule step)
  have conf: "?K (snd (runPartnerConfirm i resp w))" by (simp add: runPartnerConfirm_def)
  show ?thesis unfolding execute_answered_def
  proof (rule bind_snd [where K = ?K, OF conf])
    fix x w3 assume "?K w3"
    then show "?K (snd (case runActivate i k w3 of (Inl e, w4) \<Rightarrow> failStep i StepActivate 0 e w4 | (Inr _, w4) \<Rightarrow>
        (case call (rot_Complete i kcv) (reloadOnActivate g kt w4) of (Inl e, w6) \<Rightarrow> (Inl e, w6) | (Inr _, w6) \<Rightarrow> call (rot_Get i) w6)))"
    proof (rule bind_snd [where K = ?K, OF act])
      fix y w4 assume "?K w4"
      then show "?K (snd (case call (rot_Complete i kcv) (reloadOnActivate g kt w4) of (Inl e, w6) \<Rightarrow> (Inl e, w6) | (Inr _, w6) \<Rightarrow> call (rot_Get i) w6))"
        by (intro bind_snd [where K = ?K]) (simp_all add: reloadOnActivate_def Reload_wire)
    qed simp
  qed simp
qed

lemma execute_wire:
  assumes "gcm_ok (rt_gcm g)" "\<And>nonce. rr_nonce u = Inr nonce \<Longrightarrow> length nonce = gcm_NonceSize"
  shows "\<exists>ms c. gw_wire (snd (execute g u i kt ow w)) = gw_wire w @ ms \<and> length ms \<le> nat (rt_sendAttempts g) \<and>
    (ms \<noteq> [] \<longrightarrow> (\<exists>key. rr_key u = Inr key \<and> DecryptBytes (rt_gcm g) (rt_zmk g) c = Inr key)) \<and>
    list_all (offers (kt @ '':'' @ EncodeToString c)) ms"
proof (cases "runGenerate g u i kt ow w")
  case (Pair q w1)
  with runGenerate_frame [of g u i kt ow w] have w1: "gw_wire w1 = gw_wire w" by simp
  show ?thesis
  proof (cases q)
    case (Inl x)
    then have "gw_wire (snd (execute g u i kt ow w)) = gw_wire w @ []" using Pair w1 by (cases x) (simp add: execute_eq)
    then show ?thesis by (intro exI [of _ "[]"]) simp
  next
    case (Inr x)
    then obtain c k kcv where q: "q = Inr (c, k, kcv)" by (cases x) auto
    then obtain key where key: "rr_key u = Inr key" "EncryptBytes (rt_gcm g) (rt_zmk g) (rr_nonce u) key = Inr c"
      using Pair by (cases g u i kt ow w rule: runGenerate_cases) (auto split: prod.splits sum.splits)
    then obtain nonce where "rr_nonce u = Inr nonce" by (auto simp: EncryptBytes_def split: sum.splits)
    with key assms have dec: "DecryptBytes (rt_gcm g) (rt_zmk g) c = Inr key" by (auto intro: EncryptBytes_Decrypt)
    let ?de48 = "kt @ '':'' @ EncodeToString c"
    obtain s w2 where send: "runSend0800161 g u i kt c w1 = (s, w2)" by fastforce
    obtain ms where ms: "gw_wire w2 = gw_wire w @ ms" "length ms \<le> nat (rt_sendAttempts g)" "list_all (offers ?de48) ms"
      using send_attempts_wire [of u i ?de48 "nat (rt_sendAttempts g)" 0 "[]" w1] send w1 by (auto simp: runSend0800161_def Let_def)
    have "gw_wire (snd (execute g u i kt ow w)) = gw_wire w2"
      using Pair q send by (cases s) (simp_all add: execute_eq execute_answered_wire)
    with ms dec key(1) show ?thesis by (intro exI [of _ ms] exI [of _ c]) simp
  qed
qed

section \<open>Recovery settles every rotation\<close>

definition running :: "db \<Rightarrow> int set" where
  "running d = set (map ro_ID (filter (\<lambda>r. ro_Status r = ''RUNNING'') (db_rotations d)))"

lemma running_update:
  assumes "\<And>r. ro_ID (f r) = ro_ID r"
  shows "(\<And>r. ro_Status (f r) = ro_Status r) \<Longrightarrow> running (update_rotation i f d) = running d"
    "(\<And>r. ro_Status (f r) \<noteq> ''RUNNING'') \<Longrightarrow> running (update_rotation i f d) = running d - {i}"
proof -
  let ?h = "\<lambda>r. if ro_ID r = i then f (r\<lparr>ro_UpdatedAt := db_now d\<rparr>) else r"
    and ?run = "\<lambda>rs. set (map ro_ID (filter (\<lambda>r. ro_Status r = ''RUNNING'') rs))"
  have rows: "db_rotations (update_rotation i f d) = map ?h (db_rotations d)" by (simp add: update_rotation_def)
  show "running (update_rotation i f d) = running d" if "\<And>r. ro_Status (f r) = ro_Status r"
  proof -
    have "?run (map ?h rs) = ?run rs" for rs by (induction rs) (simp_all add: assms that)
    then show ?thesis by (simp only: running_def rows)
  qed
  show "running (update_rotation i f d) = running d - {i}" if "\<And>r. ro_Status (f r) \<noteq> ''RUNNING''"
  proof -
    have "?run (map ?h rs) = ?run rs - {i}" for rs by (induction rs) (auto simp: assms that)
    then show ?thesis by (simp only: running_def rows)
  qed
qed

lemma running_ops [simp]:
  "running (snd (UpdateStep now i n st d)) = running d" "running (snd (WriteAudit i n st e d)) = running d"
  "running (snd (rot_Fail i d)) = running d - {i}" "running (snd (rot_Complete i kcv d)) = running d - {i}"
proof -
  show "running (snd (UpdateStep now i n st d)) = running d"
    using UpdateStep_cases [of now i n st d] by (auto simp: running_update(1))
  show "running (snd (WriteAudit i n st e d)) = running d" by (simp add: WriteAudit_def running_def)
  show "running (snd (rot_Fail i d)) = running d - {i}" "running (snd (rot_Complete i kcv d)) = running d - {i}"
    unfolding rot_Fail_def rot_Complete_def snd_conv by (rule running_update(2); simp)+
qed

lemma call_plain: "w_sched w = [] \<Longrightarrow> call op w = (fst (op (w_db w)), w\<lparr>w_db := snd (op (w_db w))\<rparr>)"
  by (simp add: call_def split: prod.splits)

lemma keys_of_steps [simp]:
  "db_keys (snd (UpdateStep now i n st d)) = db_keys d" "db_keys (snd (WriteAudit i n st e d)) = db_keys d"
  "db_keys (snd (rot_Fail i d)) = db_keys d" "db_keys (snd (rot_Complete i kcv d)) = db_keys d"
  by (simp_all add: UpdateStep_def WriteAudit_def rot_Fail_def rot_Complete_def split: option.splits)

lemma failStep_plain:
  assumes "w_sched w = []"
  shows "w_sched (snd (failStep i n 0 e w)) = []" "running (w_db (snd (failStep i n 0 e w))) = running (w_db w) - {i}"
    "db_keys (w_db (snd (failStep i n 0 e w))) = db_keys (w_db w)"
  using assms by (simp_all add: failStep_def Let_def call_plain)

lemma recoverOne_settles:
  assumes "w_sched w = []" "rot_holds (backed rows) w" "row \<in> set rows" "recoverOne row w = (r, w')"
  shows "r = Inr ()" "w_sched w' = []" "running (w_db w') = running (w_db w) - {ro_ID row}" "db_keys (w_db w') = db_keys (w_db w)"
    "rot_holds (backed rows) w'"
proof -
  show "rot_holds (backed rows) w'" using recoverOne_keeps [OF assms(2,3)] assms(4) by simp
  have "r = Inr () \<and> w_sched w' = [] \<and> running (w_db w') = running (w_db w) - {ro_ID row} \<and> db_keys (w_db w') = db_keys (w_db w)"
  proof (cases "stepStatusOf (ro_Steps row) StepActivate = StatusDone \<and> ro_NewKeyID row \<noteq> None")
    case True
    then obtain k where k: "ro_NewKeyID row = Some k" "stepStatusOf (ro_Steps row) StepActivate = StatusDone" by auto
    with assms(2,3) have "activated k (w_db w)" by (auto simp: rot_holds_def backed_def)
    then obtain key where key: "find (\<lambda>x. ke_ID x = k) (db_keys (w_db w)) = Some key"
      by (cases "find (\<lambda>x. ke_ID x = k) (db_keys (w_db w))") (auto simp: activated_def find_None_iff)
    then have "call (key_Get k) w = (Inr key, w)" using assms(1) by (simp add: call_plain key_Get_def)
    with k assms(1,4) show ?thesis by (auto simp: recoverOne_def call_plain) (simp_all add: rot_Complete_def)
  next
    case False
    then have "recoverOne row w = (Inr (), snd (failStep (ro_ID row) (firstPending (ro_Steps row)) 0 [] w))"
      by (auto simp: recoverOne_def split: option.splits bool.splits)
    with assms(1,4) failStep_plain show ?thesis by auto
  qed
  then show "r = Inr ()" "w_sched w' = []" "running (w_db w') = running (w_db w) - {ro_ID row}" "db_keys (w_db w') = db_keys (w_db w)"
    by blast+
qed

lemma recover_all_settles:
  assumes "w_sched w = []" "rot_holds (backed rows) w" "set todo \<subseteq> set rows"
  shows "\<exists>w'. recover_all todo w = (Inr (), w') \<and> running (w_db w') = running (w_db w) - ro_ID ` set todo \<and> db_keys (w_db w') = db_keys (w_db w)"
  using assms
proof (induction todo arbitrary: w)
  case (Cons row todo)
  obtain r w1 where one: "recoverOne row w = (r, w1)" by fastforce
  with recoverOne_settles [OF Cons.prems(1,2), of row r w1] Cons.prems(3)
  have w1: "r = Inr ()" "w_sched w1 = []" "running (w_db w1) = running (w_db w) - {ro_ID row}" "db_keys (w_db w1) = db_keys (w_db w)"
    "rot_holds (backed rows) w1" by simp_all
  obtain w2 where w2: "recover_all todo w1 = (Inr (), w2)" "running (w_db w2) = running (w_db w1) - ro_ID ` set todo"
    "db_keys (w_db w2) = db_keys (w_db w1)" using Cons.IH [OF w1(2,5)] Cons.prems(3) by auto
  have "recover_all (row # todo) w = (Inr (), w2)" using one w1(1) w2(1) by simp
  moreover have "running (w_db w2) = running (w_db w) - ro_ID ` set (row # todo)" unfolding w2(2) w1(3) by auto
  ultimately show ?case using w2(3) w1(4) by simp
qed simp

lemma get_all_plain:
  assumes "w_sched w = []" "\<And>i. i \<in> set ids \<Longrightarrow> i \<in> ro_ID ` set (db_rotations (w_db w))"
  shows "\<exists>rows. get_all ids w = (Inr rows, w) \<and> map ro_ID rows = ids"
  using assms(2)
proof (induction ids)
  case (Cons i ids)
  then obtain row where row: "find (\<lambda>r. ro_ID r = i) (db_rotations (w_db w)) = Some row"
    by (cases "find (\<lambda>r. ro_ID r = i) (db_rotations (w_db w))") (auto simp: find_None_iff image_iff)
  then have "ro_ID row = i" by (auto simp: find_Some_iff)
  moreover have "call (rot_Get i) w = (Inr row, w)" using row assms(1) by (simp add: call_plain rot_Get_def)
  moreover obtain rows where "get_all ids w = (Inr rows, w)" "map ro_ID rows = ids" using Cons by auto
  ultimately show ?case by simp
qed simp

lemma recoverInterrupted_settles:
  assumes "w_sched w = []" "rot_holds rot_inv w"
  shows "\<exists>w'. recoverInterrupted w = (Inr (), w') \<and> running (w_db w') = {} \<and> db_keys (w_db w') = db_keys (w_db w)"
proof -
  let ?ids = "sort (map ro_ID (filter (\<lambda>r. ro_Status r = ''RUNNING'') (db_rotations (w_db w))))"
  have ids: "set ?ids = running (w_db w)" by (auto simp: running_def)
  have c: "call running_ids w = (Inr ?ids, w)" using assms(1) by (simp add: call_plain running_ids_def)
  obtain rows where rows: "get_all ?ids w = (Inr rows, w)" "map ro_ID rows = ?ids"
    using get_all_plain [OF assms(1), of ?ids] by auto
  have "rot_holds (backed []) w" using assms(2) by (rule rot_holds_weaken) (simp add: backed_def)
  from get_all_backed [OF this rows(1)] have "rot_holds (backed rows) w" by simp
  from recover_all_settles [OF assms(1) this, of rows] obtain w' where
    w': "recover_all rows w = (Inr (), w')" "running (w_db w') = running (w_db w) - ro_ID ` set rows" "db_keys (w_db w') = db_keys (w_db w)" by auto
  have "ro_ID ` set rows = running (w_db w)" using rows(2) ids by (metis list.set_map)
  with w' c rows(1) show ?thesis by (simp add: recoverInterrupted_def ListRunning_def)
qed

section \<open>A confirmed rotation completes\<close>

text \<open>The rotation's row has the four steps, and those of \<open>ns\<close> are done.\<close>

definition at_step :: "int \<Rightarrow> string set \<Rightarrow> db \<Rightarrow> bool" where
  "at_step i ns d \<longleftrightarrow> rot_inv d \<and> (\<exists>r \<in> set (db_rotations d). ro_ID r = i \<and> map stp_Name (ro_Steps r) = stepOrder \<and>
     (\<forall>n \<in> ns. stepStatusOf (ro_Steps r) n = StatusDone))"

definition unanswered :: "send_outcome \<Rightarrow> bool" where
  "unanswered s \<longleftrightarrow> (case so_result s of Inl _ \<Rightarrow> True | Inr resp \<Rightarrow> fget resp 39 = ''96'')"

lemma view_at_step [simp, intro]: "view_pred (at_step i ns)"
  by (rule view_predI, simp add: rot_view_def rot_preds at_step_def)

lemma set_step_name: "map stp_Name (map (set_step now n st) ss) = map stp_Name ss"
  by (simp add: set_step_def Let_def)

lemma find_row: "rot_inv d \<Longrightarrow> r \<in> set (db_rotations d) \<Longrightarrow> find (\<lambda>x. ro_ID x = ro_ID r) (db_rotations d) = Some r"
proof (cases "find (\<lambda>x. ro_ID x = ro_ID r) (db_rotations d)")
  case (Some x)
  assume "rot_inv d" "r \<in> set (db_rotations d)"
  moreover from Some have "x \<in> set (db_rotations d)" "ro_ID x = ro_ID r" by (auto simp: find_Some_iff)
  ultimately show ?thesis using Some rot_row_unique by metis
qed (auto simp: find_None_iff)

lemma update_rotation_member: "r \<in> set (db_rotations d) \<Longrightarrow> f (r\<lparr>ro_UpdatedAt := db_now d\<rparr>) \<in> set (db_rotations (update_rotation (ro_ID r) f d))"
  by (force simp: update_rotation_def)

lemma UpdateStep_done:
  assumes "at_step i ns d" "n \<in> set stepOrder" "n \<noteq> StepActivate \<or> (\<exists>k. linked i k d \<and> activated k d)"
  shows "fst (UpdateStep now i n StatusDone d) = Inr ()" "at_step i (insert n ns) (snd (UpdateStep now i n StatusDone d))"
proof -
  from assms(1) obtain r where r: "rot_inv d" "r \<in> set (db_rotations d)" "ro_ID r = i" "map stp_Name (ro_Steps r) = stepOrder"
    "\<forall>n \<in> ns. stepStatusOf (ro_Steps r) n = StatusDone" by (auto simp: at_step_def)
  let ?f = "\<lambda>x. x\<lparr>ro_Steps := map (set_step now n StatusDone) (ro_Steps r)\<rparr>"
  have u: "UpdateStep now i n StatusDone d = (Inr (), update_rotation i ?f d)"
    using find_row [OF r(1,2)] r(3) by (simp add: UpdateStep_def)
  then show "fst (UpdateStep now i n StatusDone d) = Inr ()" by simp
  have "n \<in> stp_Name ` set (ro_Steps r)" using assms(2) r(4) by (metis list.set_map)
  then have dn: "stepStatusOf (map (set_step now n StatusDone) (ro_Steps r)) m = StatusDone" if "m \<in> insert n ns" for m
    using that r(5) by (auto simp: stepStatusOf_set)
  have "?f (r\<lparr>ro_UpdatedAt := db_now d\<rparr>) \<in> set (db_rotations (update_rotation i ?f d))" using update_rotation_member [OF r(2), of ?f] r(3) by simp
  moreover have "rot_inv (update_rotation i ?f d)" using UpdateStep_inv [OF r(1), of n StatusDone i now] assms(3) u by auto
  ultimately show "at_step i (insert n ns) (snd (UpdateStep now i n StatusDone d))"
    using r(3,4) dn unfolding u snd_conv at_step_def
    by (intro conjI bexI [of _ "?f (r\<lparr>ro_UpdatedAt := db_now d\<rparr>)"]) (simp_all add: set_step_name del: map_map)
qed

text \<open>A run without database faults; other goroutines leave the two tables alone.\<close>

definition calm :: "int \<Rightarrow> string set \<Rightarrow> gw \<Rightarrow> bool" where
  "calm i ns w \<longleftrightarrow> w_sched w = [] \<and> rot_rely w \<and> at_step i ns (w_db w)"

lemma calm_completeStep:
  assumes "calm i ns w" "n \<in> set stepOrder" "n \<noteq> StepActivate \<or> (\<exists>k. linked i k (w_db w) \<and> activated k (w_db w))"
  shows "\<exists>d'. completeStep i n w = (Inr (), w\<lparr>w_db := d'\<rparr>) \<and> calm i (insert n ns) (w\<lparr>w_db := d'\<rparr>) \<and> db_keys d' = db_keys (w_db w) \<and>
    db_key_seq d' = db_key_seq (w_db w)"
proof -
  let ?d1 = "snd (UpdateStep (gw_now w) i n StatusDone (w_db w))"
  let ?d2 = "snd (WriteAudit i n StatusDone None ?d1)"
  have a: "w_sched w = []" "rot_rely w" "at_step i ns (w_db w)" using assms(1) by (simp_all add: calm_def)
  note u = UpdateStep_done [OF a(3) assms(2,3), of "gw_now w"]
  have "completeStep i n w = (Inr (), w\<lparr>w_db := ?d2\<rparr>)"
    using a(1) u(1) by (simp add: completeStep_def call_plain) (simp add: WriteAudit_def)
  moreover have "at_step i (insert n ns) ?d2" using u(2) view_predD [OF view_at_step WriteAudit_view] by blast
  moreover have "db_key_seq ?d2 = db_key_seq (w_db w)" by (simp add: WriteAudit_def UpdateStep_def split: option.splits)
  ultimately show ?thesis using a by (intro exI [of _ ?d2]) (simp add: calm_def rot_rely_def)
qed

lemma link_up_next: "gw_links w = True # lk \<Longrightarrow> sup_NextSTAN w = (Some (fst (NextSTAN (gw_stan w))), w\<lparr>gw_links := lk, gw_stan := snd (NextSTAN (gw_stan w))\<rparr>)"
  by (simp add: sup_NextSTAN_def link_up_def split: prod.splits)

lemma mux_Send_next:
  "gw_sends w = s # rest \<Longrightarrow> \<exists>w'. mux_Send mti fs w = (so_result s, w') \<and> gw_sends w' = rest \<and> gw_links w' = gw_links w \<and>
     w_sched w' = w_sched w \<and> w_db w' = so_env s (w_db w)"
  by (simp add: mux_Send_def)

lemma calm_Send:
  assumes "calm i ns w" "gw_sends w = s # rest"
  shows "\<exists>w'. mux_Send mti fs w = (so_result s, w') \<and> gw_sends w' = rest \<and> gw_links w' = gw_links w \<and> calm i ns w' \<and>
    rot_view (w_db w') = rot_view (w_db w)"
proof -
  obtain w' where w': "mux_Send mti fs w = (so_result s, w')" "gw_sends w' = rest" "gw_links w' = gw_links w" "w_sched w' = w_sched w"
    "w_db w' = so_env s (w_db w)" using mux_Send_next [OF assms(2)] by blast
  have v: "rot_view (w_db w') = rot_view (w_db w)" using assms w'(5) by (simp add: calm_def rot_rely_def)
  then have "at_step i ns (w_db w')" using assms(1) view_predD [OF view_at_step v] by (simp add: calm_def)
  with w' assms v show ?thesis by (auto simp: calm_def rot_rely_def)
qed

lemma send_attempts_confirmed:
  assumes "calm i ns w" "gw_sends w = pre @ s # rest" "\<forall>x \<in> set pre. unanswered x" "so_result s = Inr resp" "fget resp 39 \<noteq> ''96''"
    "length pre < n" "gw_links w = replicate (length pre + 1) True @ lk" "\<And>a. \<not> rr_cancelled u a"
  shows "\<exists>w'. send_attempts u i de48 n att e w = (Inr resp, w') \<and> calm i (insert StepSend0800161 ns) w' \<and>
    db_keys (w_db w') = db_keys (w_db w)"
  using assms(1-3,6,7)
proof (induction pre arbitrary: n att e w)
  case Nil
  then obtain n' where n: "n = Suc n'" by (cases n) auto
  let ?w1 = "w\<lparr>gw_links := lk, gw_stan := snd (NextSTAN (gw_stan w))\<rparr>"
  have stan: "sup_NextSTAN w = (Some (fst (NextSTAN (gw_stan w))), ?w1)" using link_up_next Nil.prems(5) by simp
  have c1: "calm i ns ?w1" using Nil.prems(1) by (simp add: calm_def rot_rely_def)
  let ?m = "[(7, nowDE7 ?w1), (11, fst (NextSTAN (gw_stan w))), (70, keyChangeDE70), (48, de48)]"
  obtain w2 where w2: "mux_Send ''0800'' ?m ?w1 = (Inr resp, w2)" "calm i ns w2" "rot_view (w_db w2) = rot_view (w_db ?w1)"
    using calm_Send [OF c1, of s rest "''0800''" ?m] Nil.prems(2) assms(4) by auto
  obtain d' where d': "completeStep i StepSend0800161 w2 = (Inr (), w2\<lparr>w_db := d'\<rparr>)" "calm i (insert StepSend0800161 ns) (w2\<lparr>w_db := d'\<rparr>)"
    "db_keys d' = db_keys (w_db w2)"
    using calm_completeStep [OF w2(2), of StepSend0800161] by (auto simp: stepOrder_def)
  have "send_attempts u i de48 n att e w = (Inr resp, w2\<lparr>w_db := d'\<rparr>)"
    using stan w2(1) d'(1) assms(5,8) by (simp add: n rcOutcomeUnknown_def)
  with d' w2(3) show ?case by (simp add: rot_view_def)
next
  case (Cons x pre)
  then obtain n' where n: "n = Suc n'" by (cases n) auto
  let ?lk = "replicate (length pre + 1) True @ lk"
  let ?w1 = "w\<lparr>gw_links := ?lk, gw_stan := snd (NextSTAN (gw_stan w))\<rparr>"
  have stan: "sup_NextSTAN w = (Some (fst (NextSTAN (gw_stan w))), ?w1)" using link_up_next Cons.prems(5) by simp
  have c1: "calm i ns ?w1" using Cons.prems(1) by (simp add: calm_def rot_rely_def)
  let ?m = "[(7, nowDE7 ?w1), (11, fst (NextSTAN (gw_stan w))), (70, keyChangeDE70), (48, de48)]"
  obtain w2 where w2: "mux_Send ''0800'' ?m ?w1 = (so_result x, w2)" "gw_sends w2 = pre @ s # rest" "gw_links w2 = gw_links ?w1" "calm i ns w2"
    "rot_view (w_db w2) = rot_view (w_db ?w1)"
    using calm_Send [OF c1, of x "pre @ s # rest" "''0800''" ?m] Cons.prems(2) by auto
  have "\<exists>e'. send_attempts u i de48 n att e w = send_attempts u i de48 n' (Suc att) e' w2"
    using stan w2(1) assms(8) Cons.prems(3) by (auto simp: n unanswered_def rcOutcomeUnknown_def split: sum.splits)
  moreover have "\<exists>w'. send_attempts u i de48 n' (Suc att) e' w2 = (Inr resp, w') \<and> calm i (insert StepSend0800161 ns) w' \<and>
      db_keys (w_db w') = db_keys (w_db w2)" for e'
    using Cons.prems w2 n by (intro Cons.IH) simp_all
  moreover have "db_keys (w_db w2) = db_keys (w_db w)" using w2(5) by (simp add: rot_view_def)
  ultimately show ?case by (metis (no_types, lifting))
qed

lemma calm_generate:
  assumes "calm i {} w" "unsettled i (w_db w)" "rr_key u = Inr key" "rr_nonce u = Inr nonce" "length key = clearKeyLenBytes" "length (rt_zmk g) \<in> {16, 24, 32}"
  shows "\<exists>c kcv new w'. runGenerate g u i kt ow w = (Inr (c, db_key_seq (w_db w) + 1, kcv), w') \<and> calm i {StepGenerate} w' \<and>
    db_keys (w_db w') = db_keys (w_db w) @ [new] \<and> ke_ID new = db_key_seq (w_db w) + 1 \<and> ke_KeyType new = kt \<and> ke_OwnerRef new = ow \<and>
    ke_KeyUnderLMKHex new = KeySealed (me_lmk g) key \<and> gw_sends w' = gw_sends w \<and> gw_links w' = gw_links w"
proof -
  let ?d = "w_db w" and ?k = "db_key_seq (w_db w) + 1"
  from assms(5) obtain kcv where kcv: "ComputeKCV (me_ciphers g) key = Inr kcv" by (auto simp: ComputeKCV_def clearKeyLenBytes_def)
  from assms(4,6) obtain c where c: "EncryptBytes (rt_gcm g) (rt_zmk g) (rr_nonce u) key = Inr c" by (auto simp: EncryptBytes_def newGCM_def)
  define row where "row = \<lparr>ke_ID = 0, ke_KeyType = kt, ke_OwnerRef = ow, ke_KeyUnderLMKHex = WrapUnderLMK (me_lmk g) key, ke_KCV = kcv,
    ke_Status = '''', ke_ActivatedAt = None, ke_RetiredAt = None, ke_CreatedAt = zeroTime\<rparr>"
  define new where "new = row\<lparr>ke_ID := ?k, ke_Status := ''PENDING'', ke_CreatedAt := db_now ?d\<rparr>"
  define d1 where "d1 = snd (key_Insert row ?d)"
  define d2 where "d2 = snd (SetNewKey i ?k d1)"
  have s: "w_sched w = []" "rot_rely w" "at_step i {} ?d" using assms(1) by (simp_all add: calm_def)
  have d1: "fst (key_Insert row ?d) = Inr ?k" "db_keys d1 = db_keys ?d @ [new]" "db_rotations d1 = db_rotations ?d"
    by (simp_all add: key_Insert_def Let_def d1_def new_def row_def)
  have inv1: "rot_inv d1" "unsettled i d1" using key_Insert_keeps s(3) assms(2) by (simp_all add: d1_def at_step_def)
  have inv2: "rot_inv d2" using SetNewKey_inv [OF inv1] by (simp add: d2_def)
  from s(3) d1(3) obtain r where r: "r \<in> set (db_rotations d1)" "ro_ID r = i" "map stp_Name (ro_Steps r) = stepOrder" by (auto simp: at_step_def)
  have "at_step i {} d2" unfolding at_step_def d2_def SetNewKey_def snd_conv
    using inv2 [unfolded d2_def SetNewKey_def snd_conv] update_rotation_member [OF r(1), of "\<lambda>r. r\<lparr>ro_NewKeyID := Some ?k\<rparr>"] r(2,3)
    by (intro conjI bexI [of _ "(r\<lparr>ro_UpdatedAt := db_now d1\<rparr>)\<lparr>ro_NewKeyID := Some ?k\<rparr>"]) simp_all
  then have calm2: "calm i {} (w\<lparr>w_db := d2\<rparr>)" using s by (simp add: calm_def rot_rely_def)
  then obtain d' where d': "completeStep i StepGenerate (w\<lparr>w_db := d2\<rparr>) = (Inr (), w\<lparr>w_db := d'\<rparr>)" "calm i {StepGenerate} (w\<lparr>w_db := d'\<rparr>)"
    "db_keys d' = db_keys d2" using calm_completeStep [OF calm2, of StepGenerate] by (auto simp: stepOrder_def)
  have keys: "db_keys d' = db_keys ?d @ [new]" using d'(3) d1(2) by (simp add: d2_def SetNewKey_def)
  have "runGenerate g u i kt ow w = (Inr (c, ?k, kcv), w\<lparr>w_db := d'\<rparr>)"
    using s(1) d1(1) d'(1) assms(3) kcv c
    by (simp add: runGenerate_def call_plain row_def [symmetric] d1_def [symmetric] d2_def [symmetric]) (simp add: SetNewKey_def)
  with d'(2) keys show ?thesis by (intro exI [of _ c] exI [of _ kcv] exI [of _ new] exI [of _ "w\<lparr>w_db := d'\<rparr>"])
      (simp add: new_def row_def WrapUnderLMK_def)
qed

lemma find_SomeD: "find P xs = Some x \<Longrightarrow> x \<in> set xs \<and> P x"
  by (induction xs) (auto split: if_splits)

lemma Reload_plain:
  assumes "w_sched w = []" "x \<in> set (db_keys (w_db w))" "ke_KeyType x = ''ZAK''" "ke_Status x = ''ACTIVE''"
    "\<And>y. y \<in> set (db_keys (w_db w)) \<Longrightarrow> ke_KeyType y = ''ZAK'' \<Longrightarrow> ke_Status y = ''ACTIVE'' \<Longrightarrow> ke_KeyUnderLMKHex y = KeySealed (me_lmk g) key"
  shows "Reload g ''ZAK'' w = (Inr (), w\<lparr>gw_zak := key\<rparr>)"
proof -
  let ?P = "\<lambda>row. ke_KeyType row = ''ZAK'' \<and> ke_Status row = ''ACTIVE''" and ?rows = "sort_key ke_ID (db_keys (w_db w))"
  have l: "call key_List w = (Inr ?rows, w)" using assms(1) by (simp add: call_plain key_List_def)
  obtain row where row: "find ?P ?rows = Some row" using assms(2-4) by (cases "find ?P ?rows") (auto simp: find_None_iff)
  then have "?P row" "row \<in> set ?rows" by (auto dest: find_SomeD)
  then have "Unwrap (me_lmk g) (ke_KeyUnderLMKHex row) = Inr key" using assms(5) by (simp add: Unwrap_def)
  with l row show ?thesis by (simp add: Reload_def)
qed

lemma Reload_sets_zak:
  assumes "w_sched w = []"
  shows "\<exists>z. snd (Reload g kt w) = w\<lparr>gw_zak := z\<rparr>"
proof -
  have same: "\<exists>z. w = w\<lparr>gw_zak := z\<rparr>" by (rule exI [of _ "gw_zak w"]) simp
  have "call key_List w = (Inr (sort_key ke_ID (db_keys (w_db w))), w)" using assms by (simp add: call_plain key_List_def)
  with same show ?thesis by (cases "kt = ''ZAK''") (auto simp: Reload_def split: option.splits sum.splits)
qed

lemma calm_activate:
  assumes "calm i ns w" "rot_holds (offered i k kcv) w" "new \<in> set (db_keys (w_db w))" "ke_ID new = k"
  shows "\<exists>d' now. runActivate i k w = (Inr (), w\<lparr>w_db := d'\<rparr>) \<and> calm i (insert StepActivate ns) (w\<lparr>w_db := d'\<rparr>) \<and> rot_holds (adopted i k kcv) (w\<lparr>w_db := d'\<rparr>) \<and>
    db_keys d' = map (activate_row now new) (db_keys (w_db w))"
proof -
  let ?d = "w_db w"
  define d1 where "d1 = snd (Activate k ?d)"
  have s: "w_sched w = []" "rot_rely w" "at_step i ns ?d" using assms(1) by (simp_all add: calm_def)
  have off: "rot_inv ?d" "has_key k kcv ?d" "linked i k ?d" using assms(2) by (simp_all add: rot_holds_def offered_def started_def)
  have keys: "db_keys d1 = map (activate_row (db_now ?d) new) (db_keys ?d)"
    using Activate_rows [OF assms(3)] off(1) assms(4) by (simp add: d1_def rot_inv_def key_ok_def)
  have rots: "db_rotations d1 = db_rotations ?d" by (simp add: d1_def Activate_def Let_def)
  have d1: "rot_inv d1" "activated k d1" "linked i k d1" using Activate_inv [OF off(1,2)] off(3) linked_keys(1) by (simp_all add: d1_def)
  have "at_step i ns d1" using s(3) d1(1) by (simp add: at_step_def rots)
  then have "calm i ns (w\<lparr>w_db := d1\<rparr>)" using s by (simp add: calm_def rot_rely_def)
  from calm_completeStep [OF this, of StepActivate] d1 obtain d' where
    d': "completeStep i StepActivate (w\<lparr>w_db := d1\<rparr>) = (Inr (), w\<lparr>w_db := d'\<rparr>)" "calm i (insert StepActivate ns) (w\<lparr>w_db := d'\<rparr>)" "db_keys d' = db_keys d1"
    by (auto simp: stepOrder_def)
  have "call (Activate k) w = (Inr (), w\<lparr>w_db := d1\<rparr>)" using s(1) by (simp add: call_plain d1_def) (simp add: Activate_def Let_def)
  with d'(1) have run: "runActivate i k w = (Inr (), w\<lparr>w_db := d'\<rparr>)" by (simp add: runActivate_def)
  with activate_adopts(2) [OF assms(2)] have "rot_holds (adopted i k kcv) (w\<lparr>w_db := d'\<rparr>)" by blast
  with run d'(2,3) keys show ?thesis by metis
qed

lemma calm_complete:
  assumes "calm i ns w" "rot_holds (adopted i k kcv) w"
  shows "\<exists>row d'. call (rot_Complete i kcv) w = (Inr (), w\<lparr>w_db := d'\<rparr>) \<and> call (rot_Get i) (w\<lparr>w_db := d'\<rparr>) = (Inr row, w\<lparr>w_db := d'\<rparr>) \<and>
    ro_ID row = i \<and> ro_Status row = ''COMPLETED'' \<and> (\<forall>n \<in> ns. stepStatusOf (ro_Steps row) n = StatusDone) \<and> db_keys d' = db_keys (w_db w)"
proof -
  let ?d = "w_db w" and ?f = "\<lambda>r. r\<lparr>ro_Status := ''COMPLETED'', ro_NewKCV := Some kcv\<rparr>"
  define d' where "d' = update_rotation i ?f ?d"
  have s: "w_sched w = []" "at_step i ns ?d" using assms(1) by (simp_all add: calm_def)
  then obtain r where r: "r \<in> set (db_rotations ?d)" "ro_ID r = i" "\<forall>n \<in> ns. stepStatusOf (ro_Steps r) n = StatusDone" by (auto simp: at_step_def)
  let ?row = "?f (r\<lparr>ro_UpdatedAt := db_now ?d\<rparr>)"
  have inv: "rot_inv d'" using rot_Complete_inv [of ?d i k kcv] assms(2) by (simp add: d'_def rot_Complete_def rot_holds_def adopted_def)
  have row: "?row \<in> set (db_rotations d')" using update_rotation_member [OF r(1), of ?f] r(2) by (simp add: d'_def)
  have "call (rot_Complete i kcv) w = (Inr (), w\<lparr>w_db := d'\<rparr>)" using s(1) by (simp add: call_plain rot_Complete_def d'_def)
  moreover have "call (rot_Get i) (w\<lparr>w_db := d'\<rparr>) = (Inr ?row, w\<lparr>w_db := d'\<rparr>)"
    using s(1) find_row [OF inv row] r(2) by (simp add: call_plain rot_Get_def)
  ultimately show ?thesis using r by (intro exI [of _ ?row] exI [of _ d']) (simp add: d'_def)
qed

lemma execute_completes:
  assumes "calm i {} w" "unsettled i (w_db w)" "rr_key u = Inr key" "rr_nonce u = Inr nonce" "length key = clearKeyLenBytes" "length (rt_zmk g) \<in> {16, 24, 32}"
    "\<And>a. \<not> rr_cancelled u a" "gw_sends w = pre @ s # rest" "\<forall>x \<in> set pre. unanswered x" "so_result s = Inr resp" "fget resp 39 = ''00''"
    "int (length pre) < rt_sendAttempts g" "gw_links w = replicate (length pre + 1) True @ lk"
  shows "\<exists>row w' new now. execute g u i kt ow w = (Inr row, w') \<and> ro_ID row = i \<and> ro_Status row = ''COMPLETED'' \<and>
    (\<forall>n \<in> set stepOrder. stepStatusOf (ro_Steps row) n = StatusDone) \<and> ke_ID new = db_key_seq (w_db w) + 1 \<and> ke_KeyType new = kt \<and> ke_OwnerRef new = ow \<and>
    ke_KeyUnderLMKHex new = KeySealed (me_lmk g) key \<and> db_keys (w_db w') = map (activate_row now new) (db_keys (w_db w) @ [new]) \<and>
    (\<exists>w4. w_sched w4 = [] \<and> db_keys (w_db w4) = db_keys (w_db w') \<and> gw_zak w' = gw_zak (snd (Reload g kt w4)))"
proof -
  let ?k = "db_key_seq (w_db w) + 1"
  from calm_generate [OF assms(1-6)] obtain c kcv new w1 where gen: "runGenerate g u i kt ow w = (Inr (c, ?k, kcv), w1)" "calm i {StepGenerate} w1"
    "db_keys (w_db w1) = db_keys (w_db w) @ [new]" and new: "ke_ID new = ?k" "ke_KeyType new = kt" "ke_OwnerRef new = ow" "ke_KeyUnderLMKHex new = KeySealed (me_lmk g) key"
    and w1: "gw_sends w1 = gw_sends w" "gw_links w1 = gw_links w" by blast
  have "rot_holds (started i) w" using assms(1,2) by (simp add: calm_def rot_holds_def started_def at_step_def)
  from runGenerate_ok(2) [OF this gen(1)] have off1: "rot_holds (offered i ?k kcv) w1" .
  let ?de48 = "kt @ '':'' @ EncodeToString c"
  have "length pre < nat (rt_sendAttempts g)" using assms(12) by linarith
  then obtain w2 where w2: "send_attempts u i ?de48 (nat (rt_sendAttempts g)) 0 [] w1 = (Inr resp, w2)" "calm i {StepSend0800161, StepGenerate} w2"
    "db_keys (w_db w2) = db_keys (w_db w1)"
    using send_attempts_confirmed [OF gen(2), of pre s rest resp "nat (rt_sendAttempts g)" lk u ?de48 0 "[]"] assms(7-13) w1 by auto
  from send_attempts_offered [OF off1, of u ?de48 "nat (rt_sendAttempts g)" 0 "[]"] w2(1) have off2: "rot_holds (offered i ?k kcv) w2" by simp
  from calm_completeStep [OF w2(2), of StepPartnerConfirm] obtain d3 where
    d3: "completeStep i StepPartnerConfirm w2 = (Inr (), w2\<lparr>w_db := d3\<rparr>)" "calm i {StepPartnerConfirm, StepSend0800161, StepGenerate} (w2\<lparr>w_db := d3\<rparr>)"
      "db_keys d3 = db_keys (w_db w2)" by (auto simp: stepOrder_def)
  from offered_step [OF off2 other_steps(3)] d3(1) have off3: "rot_holds (offered i ?k kcv) (w2\<lparr>w_db := d3\<rparr>)" by simp
  have "new \<in> set (db_keys (w_db (w2\<lparr>w_db := d3\<rparr>)))" using d3(3) w2(3) gen(3) by simp
  from calm_activate [OF d3(2) off3 this new(1)] obtain d4 now where
    d4: "runActivate i ?k (w2\<lparr>w_db := d3\<rparr>) = (Inr (), w2\<lparr>w_db := d4\<rparr>)" "calm i (set stepOrder) (w2\<lparr>w_db := d4\<rparr>)" "rot_holds (adopted i ?k kcv) (w2\<lparr>w_db := d4\<rparr>)"
      "db_keys d4 = map (activate_row now new) (db_keys (w_db w) @ [new])"
    using d3(3) w2(3) gen(3) by (auto simp: stepOrder_def insert_commute)
  define w4 where "w4 = w2\<lparr>w_db := d4\<rparr>"
  have sched: "w_sched w4 = []" using d4(2) by (simp add: calm_def w4_def)
  obtain z where "snd (Reload g kt w4) = w4\<lparr>gw_zak := z\<rparr>" using Reload_sets_zak [OF sched] by blast
  then have z: "reloadOnActivate g kt w4 = w4\<lparr>gw_zak := z\<rparr>" "z = gw_zak (snd (Reload g kt w4))" by (simp_all add: reloadOnActivate_def)
  have "calm i (set stepOrder) (w4\<lparr>gw_zak := z\<rparr>)" "rot_holds (adopted i ?k kcv) (w4\<lparr>gw_zak := z\<rparr>)"
    using d4(2,3) by (simp_all add: w4_def calm_def rot_holds_def rot_rely_def)
  from calm_complete [OF this] obtain row d' where fin: "call (rot_Complete i kcv) (w4\<lparr>gw_zak := z\<rparr>) = (Inr (), w4\<lparr>gw_zak := z, w_db := d'\<rparr>)"
    "call (rot_Get i) (w4\<lparr>gw_zak := z, w_db := d'\<rparr>) = (Inr row, w4\<lparr>gw_zak := z, w_db := d'\<rparr>)" "ro_ID row = i" "ro_Status row = ''COMPLETED''"
    "\<forall>n \<in> set stepOrder. stepStatusOf (ro_Steps row) n = StatusDone" "db_keys d' = db_keys d4" by (auto simp: w4_def)
  have "execute g u i kt ow w = (Inr row, w4\<lparr>gw_zak := z, w_db := d'\<rparr>)"
    using gen(1) w2(1) d3(1) d4(1) assms(11) z(1) fin(1,2)
    by (simp add: execute_eq runSend0800161_def execute_answered_def runPartnerConfirm_def w4_def)
  moreover have "\<exists>v. w_sched v = [] \<and> db_keys (w_db v) = db_keys d' \<and> z = gw_zak (snd (Reload g kt v))"
    by (rule exI [of _ w4]) (use sched fin(6) z(2) in \<open>simp add: w4_def\<close>)
  ultimately show ?thesis using fin(3-6) new d4(4)
    by (intro exI [of _ row] exI [of _ "w4\<lparr>gw_zak := z, w_db := d'\<rparr>"] exI [of _ new] exI [of _ now]) simp
qed

section \<open>Properties of key rotation\<close>

text \<open>C8: In every state the runner can reach, through provisioning, restarts, refused and accepted requests, database faults and crashes at
  any statement, at most one key per type and owner is active, and every rotation reported COMPLETED names a key that exists, was activated,
  and has the check value the rotation reports.\<close>

theorem completed_rotation_activated:
  assumes "rot_reach (rn, bg, d)"
  shows "one_active (db_keys d) \<and> (\<forall>r \<in> set (db_rotations d). ro_Status r = ''COMPLETED'' \<longrightarrow>
    (\<exists>k \<in> set (db_keys d). ro_NewKeyID r = Some (ke_ID k) \<and> ke_ActivatedAt k \<noteq> None \<and> ro_NewKCV r = Some (ke_KCV k)))"
proof -
  have inv: "rot_inv d" using rot_reach_inv [OF assms] by (simp add: rot_state_inv_def)
  then have uniq: "a = b" if "a \<in> set (db_keys d)" "b \<in> set (db_keys d)" "ke_ID a = ke_ID b" for a b
    using that by (auto simp: rot_inv_def key_ok_def distinct_map dest: inj_onD)
  have "\<exists>k \<in> set (db_keys d). ro_NewKeyID r = Some (ke_ID k) \<and> ke_ActivatedAt k \<noteq> None \<and> ro_NewKCV r = Some (ke_KCV k)"
    if row: "r \<in> set (db_rotations d)" "ro_Status r = ''COMPLETED''" for r
  proof -
    have "settled_ok d r" using inv row(1) by (simp add: rot_inv_def)
    then obtain a b where ab: "a \<in> set (db_keys d)" "b \<in> set (db_keys d)" "ke_ID a = ke_ID b" "ro_NewKeyID r = Some (ke_ID a)"
      "ke_ActivatedAt a \<noteq> None" "ro_NewKCV r = Some (ke_KCV b)"
      using row(2) unfolding settled_ok_def activated_def has_key_def by metis
    with uniq show ?thesis by metis
  qed
  with inv show ?thesis by (simp add: rot_inv_def key_ok_def)
qed

text \<open>C5: A rotation retires the key it generated only when that key cannot be in use at the issuer: nothing was sent, or the last answer was
  a decline other than RC 96. An unanswered 0800, RC 96, or a database fault after the issuer's confirmation leaves the key
  unretired, so that the MAC fallback still tries it.\<close>

theorem undecided_key_kept:
  assumes "execute g u i kt ow w = (r, w')" "rot_rely w" "rot_inv (w_db w)"
    "x \<in> set (db_keys (w_db w'))" "ke_ID x = db_key_seq (w_db w) + 1" "ke_Status x = ''RETIRED''"
  shows "gw_wire w' = gw_wire w \<or>
    (\<exists>pre s resp. gw_sends w = pre @ s # gw_sends w' \<and> so_result s = Inr resp \<and> fget resp 39 \<notin> {''00'', ''96''})"
  by (rule execute_retires [OF assms(1-3)]) (use assms(4-6) in \<open>auto simp: kept_def\<close>)

text \<open>C40: Whatever the issuer and the database do, a rotation puts at most \<open>sendAttempts\<close> messages on the wire, all of them 0800/161 with the
  same DE 48; its cryptogram decrypts under the ZMK to the generated key.\<close>

theorem rotation_offers_one_key:
  assumes "gcm_ok (rt_gcm g)" "\<And>nonce. rr_nonce u = Inr nonce \<Longrightarrow> length nonce = gcm_NonceSize"
  shows "\<exists>ms c. gw_wire (snd (execute g u i kt ow w)) = gw_wire w @ ms \<and> length ms \<le> nat (rt_sendAttempts g) \<and>
    (ms \<noteq> [] \<longrightarrow> (\<exists>key. rr_key u = Inr key \<and> DecryptBytes (rt_gcm g) (rt_zmk g) c = Inr key)) \<and>
    list_all (offers (kt @ '':'' @ EncodeToString c)) ms"
  by (rule execute_wire [OF assms])

text \<open>C20: When the database answers, recovery ends and settles every rotation: none is left RUNNING, and no key
  changes, so a key of unknown outcome stays PENDING.\<close>

theorem recovery_settles:
  assumes "w_sched w = []" "rot_rely w" "rot_inv (w_db w)"
  shows "\<exists>w'. recoverInterrupted w = (Inr (), w') \<and> (\<forall>r \<in> set (db_rotations (w_db w')). ro_Status r \<noteq> ''RUNNING'') \<and>
    db_keys (w_db w') = db_keys (w_db w)"
proof -
  obtain w' where w': "recoverInterrupted w = (Inr (), w')" "running (w_db w') = {}" "db_keys (w_db w') = db_keys (w_db w)"
    using recoverInterrupted_settles [OF assms(1)] assms(2,3) by (auto simp: rot_holds_def)
  from w'(2) have "\<forall>r \<in> set (db_rotations (w_db w')). ro_Status r \<noteq> ''RUNNING''" by (auto simp: running_def filter_empty_conv)
  with w' show ?thesis by blast
qed


section \<open>Rotations on a small database\<close>

definition toy_gcm :: gcm where
  "toy_gcm = \<lparr>gcm_Seal = (\<lambda>key nonce plain. plain), gcm_Open = (\<lambda>key nonce sealed. Some sealed)\<rparr>"

definition toy_rot :: rot_env where
  "toy_rot = \<lparr>me_ciphers = toy_ciphers, me_lmk = ''lmk'', rt_gcm = toy_gcm, rt_zmk = replicate 32 7, rt_sendAttempts = defaultSendAttempts\<rparr>"

definition toy_run :: rot_run where
  "toy_run = \<lparr>rr_key = Inr (replicate 16 5), rr_nonce = Inr (replicate 12 2), rr_cancelled = (\<lambda>_. False)\<rparr>"

definition toy_reply :: "goerror + fields \<Rightarrow> send_outcome" where
  "toy_reply r = \<lparr>so_result = r, so_elapsed = second_ns, so_env = (\<lambda>d. d)\<rparr>"

definition toy_rotating :: "send_outcome list \<Rightarrow> gw" where
  "toy_rotating sends = toy_gw (snd (rot_Create ''ZAK'' toy_db)) (replicate (length sends) True) sends"

definition toy_lost_then_declined :: gw where
  "toy_lost_then_declined = toy_rotating [toy_reply (Inl [ErrDeadline]), toy_reply (Inr [(39, ''05'')])]"

definition toy_lost_then_confirmed :: gw where
  "toy_lost_then_confirmed = toy_rotating [toy_reply (Inl [ErrDeadline]), toy_reply (Inr [(39, ''00'')])]"

lemma toy_gcm_ok: "gcm_ok (rt_gcm toy_rot)"
  by (simp add: gcm_ok_def toy_rot_def toy_gcm_def)

lemma toy_rely: "\<forall>s \<in> set sends. so_env s = (\<lambda>d. d) \<Longrightarrow> rot_rely (toy_gw d links sends)"
  by (simp add: rot_rely_def toy_gw_def)

lemma toy_created: "rot_inv (snd (rot_Create ''ZAK'' toy_db))" "unsettled 1 (snd (rot_Create ''ZAK'' toy_db))"
proof -
  have "rot_inv toy_db" by (simp add: rot_inv_def key_ok_def toy_db_def one_active_def)
  moreover have "rot_Create ''ZAK'' toy_db = (Inr 1, snd (rot_Create ''ZAK'' toy_db))" by (simp add: rot_Create_def toy_db_def Let_def)
  ultimately show "rot_inv (snd (rot_Create ''ZAK'' toy_db))" "unsettled 1 (snd (rot_Create ''ZAK'' toy_db))" using rot_Create_inv by blast+
qed

lemma toy_declined_run:
  "case execute toy_rot toy_run 1 ''ZAK'' '''' toy_lost_then_declined of (r, w') \<Rightarrow>
     r = Inl [] \<and> list_ex (\<lambda>x. ke_ID x = 1 \<and> ke_Status x = ''RETIRED'') (db_keys (w_db w')) \<and> length (gw_wire w') = 2"
  by code_simp

lemma toy_declined_start: "gw_wire toy_lost_then_declined = []" "db_key_seq (w_db toy_lost_then_declined) = 0"
  by (simp_all add: toy_lost_then_declined_def toy_rotating_def toy_gw_def rot_Create_def toy_db_def Let_def)

theorem undecided_key_kept_witness:
  "\<exists>w' x s resp. execute toy_rot toy_run 1 ''ZAK'' '''' toy_lost_then_declined = (Inl [], w') \<and> x \<in> set (db_keys (w_db w')) \<and> ke_Status x = ''RETIRED'' \<and>
     s \<in> set (gw_sends toy_lost_then_declined) \<and> so_result s = Inr resp \<and> fget resp 39 \<notin> {''00'', ''96''}"
proof -
  let ?e = "execute toy_rot toy_run 1 ''ZAK'' '''' toy_lost_then_declined"
  have r: "fst ?e = Inl []" "list_ex (\<lambda>x. ke_ID x = 1 \<and> ke_Status x = ''RETIRED'') (db_keys (w_db (snd ?e)))" "length (gw_wire (snd ?e)) = 2"
    using toy_declined_run by (auto split: prod.splits)
  note r = r toy_declined_start
  obtain x where x: "x \<in> set (db_keys (w_db (snd ?e)))" "ke_ID x = 1" "ke_Status x = ''RETIRED''" using r(2) by (auto simp: list_ex_iff)
  have rely: "rot_rely toy_lost_then_declined" unfolding toy_lost_then_declined_def toy_rotating_def by (rule toy_rely) (simp add: toy_reply_def)
  have inv: "rot_inv (w_db toy_lost_then_declined)" using toy_created(1) by (simp add: toy_lost_then_declined_def toy_rotating_def toy_gw_def)
  have e: "?e = (Inl [], snd ?e)" using r(1) by (metis prod.collapse)
  from undecided_key_kept [OF e rely inv x(1)] x r(3,4,5) obtain pre s resp where
    "gw_sends toy_lost_then_declined = pre @ s # gw_sends (snd ?e)" "so_result s = Inr resp" "fget resp 39 \<notin> {''00'', ''96''}" by auto
  then have "s \<in> set (gw_sends toy_lost_then_declined)" by simp
  with e x \<open>so_result s = Inr resp\<close> \<open>fget resp 39 \<notin> {''00'', ''96''}\<close> show ?thesis by blast
qed

theorem rotation_offers_one_key_witness:
  "\<exists>ms c key. ms \<noteq> [] \<and> gw_wire (snd (execute toy_rot toy_run 1 ''ZAK'' '''' toy_lost_then_declined)) = ms \<and> length ms \<le> 3 \<and>
     DecryptBytes toy_gcm (replicate 32 7) c = Inr key \<and> list_all (offers (''ZAK:'' @ EncodeToString c)) ms"
proof -
  let ?e = "execute toy_rot toy_run 1 ''ZAK'' '''' toy_lost_then_declined"
  have r: "length (gw_wire (snd ?e)) = 2" "gw_wire toy_lost_then_declined = []" "nat (rt_sendAttempts toy_rot) = 3"
    using toy_declined_run toy_declined_start by (auto simp: toy_rot_def defaultSendAttempts_def split: prod.splits)
  have n: "length nonce = gcm_NonceSize" if "rr_nonce toy_run = Inr nonce" for nonce
    using that by (auto simp: toy_run_def gcm_NonceSize_def)
  from rotation_offers_one_key [OF toy_gcm_ok n, where i = 1 and kt = "''ZAK''" and ow = "''''" and w = toy_lost_then_declined] r obtain ms c key where
    "gw_wire (snd ?e) = ms" "length ms \<le> 3" "DecryptBytes (rt_gcm toy_rot) (rt_zmk toy_rot) c = Inr key" "list_all (offers (''ZAK:'' @ EncodeToString c)) ms"
    by force
  with r(1) show ?thesis by (intro exI [of _ ms] exI [of _ c] exI [of _ key]) (auto simp: toy_rot_def)
qed

theorem recovery_settles_witness:
  "\<exists>w'. recoverInterrupted (toy_rotating []) = (Inr (), w') \<and> filter (\<lambda>r. ro_Status r = ''RUNNING'') (db_rotations (w_db w')) = [] \<and>
     filter (\<lambda>r. ro_Status r = ''RUNNING'') (db_rotations (w_db (toy_rotating []))) \<noteq> []"
proof -
  have "filter (\<lambda>r. ro_Status r = ''RUNNING'') (db_rotations (w_db (toy_rotating []))) \<noteq> []"
    by (simp add: toy_rotating_def toy_gw_def rot_Create_def Let_def)
  moreover have "rot_rely (toy_rotating [])" unfolding toy_rotating_def by (rule toy_rely) simp
  moreover have "w_sched (toy_rotating []) = []" "rot_inv (w_db (toy_rotating []))" using toy_created(1) by (simp_all add: toy_rotating_def toy_gw_def)
  ultimately show ?thesis using recovery_settles [of "toy_rotating []"] by (auto simp: filter_empty_conv)
qed


text \<open>The state machine, from an empty database to a completed rotation.\<close>

definition toy_served :: "runner \<times> gw" where
  "toy_served = snd (Serve_begin idle_runner (toy_gw toy_db [] []))"

definition toy_started :: "runner \<times> gw" where
  "toy_started = snd (Start ''ZAK'' (fst toy_served) (toy_gw (w_db (snd toy_served)) [] []))"

definition toy_finished :: "runner \<times> gw" where
  "toy_finished = background toy_rot toy_run 1 ''ZAK'' '''' (fst toy_started)
     (toy_gw (w_db (snd toy_started)) [True] [toy_reply (Inr [(39, ''00'')])])"

lemma toy_rot_reach: "rot_reach (fst toy_finished, None, w_db (snd toy_finished))"
proof -
  have gw: "w_db (toy_gw d l s) = d" for d l s by (simp add: toy_gw_def)
  have "rot_init toy_db" by (simp add: rot_init_def toy_db_def)
  then have "rot_reach (idle_runner, None, toy_db)" by (rule rot_reach.initial)
  moreover have "rot_step (idle_runner, None, toy_db) (fst toy_served, None, w_db (snd toy_served))"
    by (rule rot_step.serve [where w = "toy_gw toy_db [] []" and r = "fst (Serve_begin idle_runner (toy_gw toy_db [] []))"])
      (simp_all add: gw toy_rely toy_served_def)
  ultimately have 1: "rot_reach (fst toy_served, None, w_db (snd toy_served))" by (rule rot_reach.step)
  let ?s = "Start ''ZAK'' (fst toy_served) (toy_gw (w_db (snd toy_served)) [] [])"
  have "case fst ?s of Inl _ \<Rightarrow> False | Inr row \<Rightarrow> ro_ID row = 1" by code_simp
  then obtain row where row: "fst ?s = Inr row" "ro_ID row = 1" by (auto split: sum.splits)
  have "?s = (Inr row, fst toy_started, snd toy_started)" using row(1) by (metis prod.collapse toy_started_def)
  then have "rot_step (fst toy_served, None, w_db (snd toy_served)) (fst toy_started, Some (ro_ID row, ''ZAK''), w_db (snd toy_started))"
    by (rule rot_step.start [rotated 2]) (simp_all add: gw toy_rely)
  with 1 row(2) have 2: "rot_reach (fst toy_started, Some (1, ''ZAK''), w_db (snd toy_started))" by (metis rot_reach.step)
  have "rot_step (fst toy_started, Some (1, ''ZAK''), w_db (snd toy_started)) (fst toy_finished, None, w_db (snd toy_finished))"
    by (rule rot_step.finish [where g = toy_rot and u = toy_run and w = "toy_gw (w_db (snd toy_started)) [True] [toy_reply (Inr [(39, ''00'')])]"])
      (simp_all add: gw toy_rely toy_reply_def toy_finished_def)
  with 2 show ?thesis by (rule rot_reach.step)
qed

theorem completed_rotation_activated_witness:
  "\<exists>r k. r \<in> set (db_rotations (w_db (snd toy_finished))) \<and> ro_Status r = ''COMPLETED'' \<and> k \<in> set (db_keys (w_db (snd toy_finished))) \<and>
     ro_NewKeyID r = Some (ke_ID k) \<and> ke_ActivatedAt k \<noteq> None \<and> ro_NewKCV r = Some (ke_KCV k)"
proof -
  have "list_ex (\<lambda>r. ro_Status r = ''COMPLETED'') (db_rotations (w_db (snd toy_finished)))" by code_simp
  then obtain r where "r \<in> set (db_rotations (w_db (snd toy_finished)))" "ro_Status r = ''COMPLETED''" by (auto simp: list_ex_iff)
  with completed_rotation_activated [OF toy_rot_reach] show ?thesis by blast
qed

end
