(* ===== verification/Supervisor.thy ===== *)
theory Supervisor
  imports Purchase_Safety "HOL-Library.Sublist"
begin

text \<open>
  The issuer link's supervisor, \<open>src/gateway-go/internal/isonet/supervisor.go\<close>, with the link tables it writes (\<open>store/links.go\<close>): connect, sign on, echo,
  drop after repeated echo failures, reconnect with back-off, manual triggers, and the re-sign-on an RC 91 asks for. The live multiplexer is a
  script of \<open>Send\<close> outcomes and the supervision loop a sequence of the events its \<open>select\<close> takes, with the calls of other goroutines in
  between; \<open>triggerMu\<close> is the atomicity of each. The theorems: a link is dropped exactly after the configured number of consecutive
  echo failures, and a restarted gateway never issues an RRN it has already logged.
\<close>

section \<open>Link tables\<close>

definition update_link :: "string \<Rightarrow> (Link \<Rightarrow> Link) \<Rightarrow> db \<Rightarrow> db" where
  "update_link endpoint f d = d\<lparr>db_links := map (\<lambda>l. if lk_Endpoint l = endpoint then f l else l) (db_links d)\<rparr>"

definition SetStatus :: "string \<Rightarrow> string \<Rightarrow> unit dbop" where
  "SetStatus endpoint status d = (Inr (), update_link endpoint (\<lambda>l. l\<lparr>lk_Status := status\<rparr>) d)"

definition RecordEcho :: "string \<Rightarrow> int \<Rightarrow> unit dbop" where
  "RecordEcho endpoint latencyMs d =
     (Inr (), update_link endpoint (\<lambda>l. l\<lparr>lk_LastEchoAt := Some (db_now d), lk_LastEchoLatencyMs := Some latencyMs\<rparr>) d)"

definition link_Get :: "string \<Rightarrow> Link dbop" where
  "link_Get endpoint d =
     ((case find (\<lambda>l. lk_Endpoint l = endpoint) (db_links d) of None \<Rightarrow> Inl [ErrDatabase] | Some l \<Rightarrow> Inr l), d)"

definition events_query :: "nat \<Rightarrow> int \<Rightarrow> NetworkEvent list dbop" where
  "events_query limit before d =
     (Inr (take limit (rev (sort_key ne_ID (filter (\<lambda>e. before = 0 \<or> ne_ID e < before) (db_events d))))), d)"

definition parse_cursor :: "string \<Rightarrow> goerror + int" where
  "parse_cursor cursor =
     (if cursor = '''' then Inr 0
      else case ParseInt cursor of None \<Rightarrow> Inl [ErrInvalidCursor] | Some n \<Rightarrow> if n \<le> 0 then Inl [ErrInvalidCursor] else Inr n)"

definition ListEvents :: "nat \<Rightarrow> string \<Rightarrow> 'z world_scheme \<Rightarrow> (goerror + NetworkEvent list \<times> string) \<times> 'z world_scheme" where
  "ListEvents limit cursor w =
     (case parse_cursor cursor of
        Inl e \<Rightarrow> (Inl e, w)
      | Inr before \<Rightarrow>
          (case call (events_query (limit + 1) before) w of
             (Inl e, w1) \<Rightarrow> (Inl e, w1)
           | (Inr events, w1) \<Rightarrow>
               if length events \<le> limit then (Inr (events, ''''), w1)
               else let page = take limit events in (Inr (page, FormatInt (ne_ID (page ! (limit - 1)))), w1)))"

section \<open>The supervisor\<close>

definition codeLinkUp :: string where "codeLinkUp = ''LINK_UP''"
definition codeLinkDown :: string where "codeLinkDown = ''LINK_DOWN''"
definition codeSignedOn :: string where "codeSignedOn = ''SIGNED_ON''"
definition codeSignedOff :: string where "codeSignedOff = ''SIGNED_OFF''"
definition codeSignedOnAgain :: string where "codeSignedOnAgain = ''SIGNED_ON_AGAIN''"
definition codeSignOnFailed :: string where "codeSignOnFailed = ''SIGN_ON_FAILED''"
definition codeEchoOK :: string where "codeEchoOK = ''ECHO_OK''"
definition codeEchoFailed :: string where "codeEchoFailed = ''ECHO_FAILED''"
definition statusConnected :: string where "statusConnected = ''CONNECTED''"
definition statusSignedOn :: string where "statusSignedOn = ''SIGNED_ON''"
definition severityInfo :: string where "severityInfo = ''INFO''"
definition severityWarn :: string where "severityWarn = ''WARN''"
definition endpointName :: string where "endpointName = ''issuer''"
definition rcNotSignedOn :: string where "rcNotSignedOn = ''91''"
definition maxDefaultEchoTimeout :: int where "maxDefaultEchoTimeout = 10 * second_ns"

record sup_cfg =
  cf_EchoInterval :: int
  cf_EchoTimeout :: int
  cf_EchoFailureLimit :: int
  cf_Backoff :: Backoff
  cf_hasHub :: bool
  cf_hasLastSTAN :: bool
  cf_rand :: "int \<Rightarrow> int"

record EchoResult =
  er_OK :: bool
  er_LatencyMs :: "int option"
  er_ResponseCode :: "string option"

datatype link_event = LinkStatus Link | LinkEvent NetworkEvent

text \<open>\<open>sv_live\<close>: \<open>s.mux\<close> is not nil; \<open>sv_signOnAgain\<close>: the one-slot channel holds a request; \<open>sv_pending\<close>: the live multiplexer's pending requests.\<close>

record sup = world +
  sv_now :: time
  sv_live :: bool
  sv_stan :: int
  sv_signOnAgain :: bool
  sv_latencies :: latencyWindow
  sv_pending :: int
  sv_sends :: "send_outcome list"
  sv_wire :: "(string \<times> fields) list"
  sv_hub :: "link_event list"
  sv_linkUp :: bool

definition NewSupervisor :: "sup_cfg \<Rightarrow> sup_cfg" where
  "NewSupervisor cfg =
     (let cfg1 = (if cf_EchoTimeout cfg = 0
                  then let t = min (cf_EchoInterval cfg) maxDefaultEchoTimeout
                       in cfg\<lparr>cf_EchoTimeout := (if t \<le> 0 then maxDefaultEchoTimeout else t)\<rparr>
                  else cfg)
      in if cf_Backoff cfg1 = \<lparr>bo_Base = 0, bo_Cap = 0\<rparr>
         then cfg1\<lparr>cf_Backoff := \<lparr>bo_Base = second_ns, bo_Cap = 30 * second_ns\<rparr>\<rparr> else cfg1)"

definition sv_NextSTAN :: "sup \<Rightarrow> string \<times> sup" where
  "sv_NextSTAN s = (case NextSTAN (sv_stan s) of (stan, n) \<Rightarrow> (stan, s\<lparr>sv_stan := n\<rparr>))"

definition sv_muxSend :: "string \<Rightarrow> fields \<Rightarrow> sup \<Rightarrow> (goerror + fields) \<times> sup" where
  "sv_muxSend mti fs s =
     (case sv_sends s of
        [] \<Rightarrow> (Inl [], s)
      | o1 # rest \<Rightarrow> (so_result o1, s\<lparr>sv_sends := rest, sv_now := sv_now s + so_elapsed o1, w_db := so_env o1 (w_db s),
          sv_wire := sv_wire s @ [(mti, fs)]\<rparr>))"

definition sv_nowDE7 :: "sup \<Rightarrow> string" where
  "sv_nowDE7 s = format_0102150405 (sv_now s)"

text \<open>One network-management request on the live connection: DE 7, the next STAN and DE 70.\<close>

definition send0800 :: "string \<Rightarrow> sup \<Rightarrow> (goerror + fields) \<times> sup" where
  "send0800 de70 s = (case sv_NextSTAN s of (stan, s1) \<Rightarrow> sv_muxSend ''0800'' [(7, sv_nowDE7 s), (11, stan), (70, de70)] s1)"

definition errRC :: "string \<Rightarrow> goerror" where "errRC code = []"

definition signOn :: "sup \<Rightarrow> (goerror + unit) \<times> sup" where
  "signOn s =
     (case send0800 ''001'' s of
        (Inl e, s1) \<Rightarrow> (Inl e, s1)
      | (Inr fs, s1) \<Rightarrow> if fget fs 39 \<noteq> ''00'' then (Inl (errRC (fget fs 39)), s1) else (Inr (), s1))"

definition signOff :: "sup \<Rightarrow> (goerror + unit) \<times> sup" where
  "signOff s = (case send0800 ''002'' s of (Inl e, s1) \<Rightarrow> (Inl e, s1) | (Inr _, s1) \<Rightarrow> (Inr (), s1))"

definition add_latency :: "int \<Rightarrow> sup \<Rightarrow> sup" where
  "add_latency elapsed s = s\<lparr>sv_latencies := lw_add (sv_latencies s) elapsed\<rparr>"

definition echo :: "sup \<Rightarrow> (goerror + int) \<times> sup" where
  "echo s =
     (case send0800 ''301'' s of
        (Inl e, s1) \<Rightarrow> (Inl e, s1)
      | (Inr fs, s1) \<Rightarrow>
          if fget fs 39 \<noteq> ''00'' then (Inl (errRC (fget fs 39)), s1)
          else let elapsed = sv_now s1 - sv_now s in (Inr elapsed, add_latency elapsed s1))"

definition LinkMetrics :: "sup \<Rightarrow> int option \<times> int" where
  "LinkMetrics s = (p99Ms (sv_latencies s), if sv_live s then sv_pending s else 0)"

definition sv_IsSignedOn :: "sup \<Rightarrow> bool" where
  "sv_IsSignedOn s = sv_live s"

definition Supervisor_NextSTAN :: "sup \<Rightarrow> string option \<times> sup" where
  "Supervisor_NextSTAN s = (if \<not> sv_live s then (None, s) else case sv_NextSTAN s of (stan, s1) \<Rightarrow> (Some stan, s1))"

definition broadcastLink :: "sup_cfg \<Rightarrow> sup \<Rightarrow> sup" where
  "broadcastLink cfg s =
     (if \<not> cf_hasHub cfg then s
      else case call (link_Get endpointName) s of
             (Inl _, s1) \<Rightarrow> s1
           | (Inr link, s1) \<Rightarrow>
               (case LinkMetrics s1 of
                  (p99, inFlight) \<Rightarrow> s1\<lparr>sv_hub := sv_hub s1 @ [LinkStatus (link\<lparr>lk_P99LatencyMs := p99, lk_InFlight := inFlight\<rparr>)]\<rparr>))"

definition setStatus :: "sup_cfg \<Rightarrow> string \<Rightarrow> sup \<Rightarrow> sup" where
  "setStatus cfg status s = broadcastLink cfg (snd (call (SetStatus endpointName status) s))"

definition recordEvent :: "sup_cfg \<Rightarrow> string \<Rightarrow> string \<Rightarrow> string \<Rightarrow> string \<Rightarrow> sup \<Rightarrow> sup" where
  "recordEvent cfg code severity easyText technicalText s =
     (case call (AppendEvent \<lparr>ne_ID = 0, ne_OccurredAt = zeroTime, ne_Code = code, ne_Severity = severity, ne_EasyText = easyText,
             ne_TechnicalText = technicalText\<rparr>) s of
        (Inl _, s1) \<Rightarrow> s1
      | (Inr evt, s1) \<Rightarrow> if \<not> cf_hasHub cfg then s1 else s1\<lparr>sv_hub := sv_hub s1 @ [LinkEvent evt]\<rparr>)"

section \<open>Manual triggers and requests\<close>

definition sendManualEcho :: "sup \<Rightarrow> EchoResult \<times> sup" where
  "sendManualEcho s =
     (if \<not> sv_live s then (\<lparr>er_OK = False, er_LatencyMs = None, er_ResponseCode = None\<rparr>, s)
      else case send0800 ''301'' s of
             (Inl _, s1) \<Rightarrow> (\<lparr>er_OK = False, er_LatencyMs = None, er_ResponseCode = None\<rparr>, s1)
           | (Inr fs, s1) \<Rightarrow>
               let elapsed = sv_now s1 - sv_now s; rc = fget fs 39
               in (\<lparr>er_OK = (rc = ''00''), er_LatencyMs = Some (Milliseconds elapsed), er_ResponseCode = Some rc\<rparr>, add_latency elapsed s1))"

text \<open>The event texts keep the source's wording; its arrow is written \<open>->\<close>, and the error text it appends to a failed sign-on is left out.\<close>

definition TriggerEcho :: "sup_cfg \<Rightarrow> sup \<Rightarrow> EchoResult \<times> sup" where
  "TriggerEcho cfg s =
     (case sendManualEcho s of
        (result, s1) \<Rightarrow>
          if \<not> er_OK result
          then (result, recordEvent cfg codeEchoFailed severityWarn ''Echo to issuer failed'' ''manual 0800 DE70=301 got no RC 00'' s1)
          else let ms = (case er_LatencyMs result of Some v \<Rightarrow> v | None \<Rightarrow> 0);
                   s2 = broadcastLink cfg (snd (call (RecordEcho endpointName ms) s1))
               in (result, recordEvent cfg codeEchoOK severityInfo ''Echo to issuer answered''
                     (''manual 0800 DE70=301 -> RC 00 in '' @ FormatInt ms @ '' ms'') s2))"

definition TriggerSignOn :: "sup_cfg \<Rightarrow> sup \<Rightarrow> (goerror + unit) \<times> sup" where
  "TriggerSignOn cfg s =
     (if \<not> sv_live s then (Inl [ErrNotSignedOn], s)
      else case signOn s of
             (Inl e, s1) \<Rightarrow> (Inl e, recordEvent cfg codeSignOnFailed severityWarn ''Sign-on to issuer failed'' ''manual 0800 DE70=001'' s1)
           | (Inr _, s1) \<Rightarrow>
               (Inr (), recordEvent cfg codeSignedOn severityInfo ''Signed on to issuer'' ''manual 0800 DE70=001 -> RC 00'' (setStatus cfg statusSignedOn s1)))"

definition TriggerSignOff :: "sup_cfg \<Rightarrow> sup \<Rightarrow> (goerror + unit) \<times> sup" where
  "TriggerSignOff cfg s =
     (if \<not> sv_live s then (Inl [ErrNotSignedOn], s)
      else case signOff s of
             (Inl e, s1) \<Rightarrow> (Inl e, s1)
           | (Inr _, s1) \<Rightarrow>
               (Inr (), recordEvent cfg codeSignedOff severityInfo ''Signed off from issuer'' ''manual 0800 DE70=002'' (setStatus cfg statusConnected s1)))"

definition Supervisor_Send :: "string \<Rightarrow> fields \<Rightarrow> sup \<Rightarrow> (goerror + fields) \<times> sup" where
  "Supervisor_Send mti fs s =
     (if \<not> sv_live s then (Inl [ErrNotSignedOn], s)
      else case sv_muxSend mti fs s of
             (Inl e, s1) \<Rightarrow> (Inl e, s1)
           | (Inr resp, s1) \<Rightarrow>
               let s2 = add_latency (sv_now s1 - sv_now s) s1
               in (Inr resp, if fget resp 39 = rcNotSignedOn \<and> take 2 mti \<noteq> ''08'' then s2\<lparr>sv_signOnAgain := True\<rparr> else s2))"

section \<open>The supervision loop\<close>

definition echoTick :: "sup_cfg \<Rightarrow> int \<Rightarrow> sup \<Rightarrow> (goerror + int) \<times> sup" where
  "echoTick cfg failures s =
     (case echo s of
        (Inl e, s1) \<Rightarrow>
          let failures1 = failures + 1 in
          if failures1 \<ge> cf_EchoFailureLimit cfg then (Inl e, s1) else (Inr failures1, s1)
      | (Inr latency, s1) \<Rightarrow> (Inr 0, snd (call (RecordEcho endpointName (Milliseconds latency)) s1)))"

definition resignOn :: "sup_cfg \<Rightarrow> sup \<Rightarrow> sup" where
  "resignOn cfg s =
     (case signOn s of
        (Inl e, s1) \<Rightarrow> recordEvent cfg codeSignOnFailed severityWarn ''Issuer still holds the link signed off'' ''0800 sign-on after RC 91 failed'' s1
      | (Inr _, s1) \<Rightarrow>
          recordEvent cfg codeSignedOnAgain severityWarn ''Signed on again: the issuer had the link signed off''
            ''RC 91 on a request -> 0800 sign-on'' (setStatus cfg statusSignedOn s1))"

text \<open>What the loop waits for, and the calls of other goroutines between two of its iterations.\<close>

datatype sup_call = CallEcho | CallSignOn | CallSignOff | CallSend string fields | CallNextSTAN

datatype sup_event = EvCtxDone | EvServeErr goerror | EvSignOnAgain | EvTick | EvCall sup_call

datatype loop_result = Waiting int | Stopped "goerror option"

fun sup_do :: "sup_cfg \<Rightarrow> sup_call \<Rightarrow> sup \<Rightarrow> sup" where
  "sup_do cfg CallEcho s = snd (TriggerEcho cfg s)"
| "sup_do cfg CallSignOn s = snd (TriggerSignOn cfg s)"
| "sup_do cfg CallSignOff s = snd (TriggerSignOff cfg s)"
| "sup_do cfg (CallSend mti fs) s = snd (Supervisor_Send mti fs s)"
| "sup_do cfg CallNextSTAN s = snd (Supervisor_NextSTAN s)"

text \<open>A receive from \<open>signOnAgain\<close> is possible only while the channel holds a request.\<close>

fun supervise :: "sup_cfg \<Rightarrow> int \<Rightarrow> sup_event list \<Rightarrow> sup \<Rightarrow> loop_result \<times> sup" where
  "supervise cfg failures [] s = (Waiting failures, s)"
| "supervise cfg failures (EvCtxDone # evs) s = (Stopped None, snd (signOff s))"
| "supervise cfg failures (EvServeErr e # evs) s = (Stopped (Some e), s)"
| "supervise cfg failures (EvSignOnAgain # evs) s =
     supervise cfg failures evs (if sv_signOnAgain s then resignOn cfg (s\<lparr>sv_signOnAgain := False\<rparr>) else s)"
| "supervise cfg failures (EvTick # evs) s =
     (case echoTick cfg failures s of
        (Inl e, s1) \<Rightarrow> (Stopped (Some e), s1)
      | (Inr failures1, s1) \<Rightarrow> supervise cfg failures1 evs s1)"
| "supervise cfg failures (EvCall c # evs) s = supervise cfg failures evs (sup_do cfg c s)"

text \<open>The deferred functions run on every return: the multiplexer is withdrawn.\<close>

definition runOnce :: "sup_cfg \<Rightarrow> goerror + unit \<Rightarrow> sup_event list \<Rightarrow> sup \<Rightarrow> loop_result \<times> sup" where
  "runOnce cfg dial evs s =
     (case dial of
        Inl e \<Rightarrow> (Stopped (Some e), s)
      | Inr _ \<Rightarrow>
          (case signOn ((setStatus cfg statusConnected s)\<lparr>sv_live := True\<rparr>) of
             (Inl e, s1) \<Rightarrow> (Stopped (Some e), s1\<lparr>sv_live := False\<rparr>)
           | (Inr _, s1) \<Rightarrow>
               let s2 = recordEvent cfg codeLinkUp severityInfo ''Link to issuer is up'' ''signed on''
                          (setStatus cfg statusSignedOn (s1\<lparr>sv_linkUp := True\<rparr>))
               in (case supervise cfg 0 evs s2 of
                     (Waiting f, s3) \<Rightarrow> (Waiting f, s3)
                   | (Stopped r, s3) \<Rightarrow> (Stopped r, s3\<lparr>sv_live := False\<rparr>))))"

text \<open>\<open>CompareAndSwap\<close> fails when another goroutine moved the counter in between: the list holds the values the loop reads.\<close>

fun resume_loop :: "int list \<Rightarrow> int \<Rightarrow> sup \<Rightarrow> sup" where
  "resume_loop [] used s = (if used \<le> sv_stan s then s else s\<lparr>sv_stan := used\<rparr>)"
| "resume_loop (moved # later) used s =
     (if used \<le> sv_stan s then s else resume_loop later used (s\<lparr>sv_stan := max (sv_stan s) moved\<rparr>))"

definition ResumeSTANAfter :: "int list \<Rightarrow> int \<Rightarrow> sup \<Rightarrow> sup" where
  "ResumeSTANAfter contended used s = resume_loop contended used s"

text \<open>One round of \<open>Run\<close>: the dial's result, the events of the connection, and whether the context was cancelled by its end.\<close>

record sup_round =
  rd_dial :: "goerror + unit"
  rd_events :: "sup_event list"
  rd_cancelled :: bool

fun run_rounds :: "sup_cfg \<Rightarrow> int \<Rightarrow> sup_round list \<Rightarrow> sup \<Rightarrow> sup" where
  "run_rounds cfg attempt [] s = s"
| "run_rounds cfg attempt (rd # rds) s =
     (case runOnce cfg (rd_dial rd) (rd_events rd) s of
        (Waiting f, s1) \<Rightarrow> s1
      | (Stopped r, s1) \<Rightarrow>
          if rd_cancelled rd then s1
          else let s2 = recordEvent cfg codeLinkDown severityWarn ''Link to issuer is down'' ''reconnecting with backoff''
                          (setStatus cfg ''DOWN'' (s1\<lparr>sv_linkUp := False\<rparr>))
               in run_rounds cfg (attempt + 1) rds (s2\<lparr>sv_now := sv_now s2 + Delay (cf_rand cfg) (cf_Backoff cfg) attempt\<rparr>))"

text \<open>\<open>cfg.LastSTAN\<close> is the closure of \<open>cmd/gateway/main.go\<close>: the highest STAN logged under this hour's RRN prefix.\<close>

definition lastSTAN :: "sup \<Rightarrow> (goerror + int) \<times> sup" where
  "lastSTAN s = call (LastSTANInRRNPrefix (BuildRRN (sv_now s) '''')) s"

definition Supervisor_Run :: "sup_cfg \<Rightarrow> bool \<Rightarrow> int list \<Rightarrow> sup_round list \<Rightarrow> sup \<Rightarrow> (goerror + unit) \<times> sup" where
  "Supervisor_Run cfg cancelled contended rds s =
     (if cf_hasLastSTAN cfg
      then case lastSTAN s of
             (Inl e, s1) \<Rightarrow> (if cancelled then Inr () else Inl e, s1)
           | (Inr used, s1) \<Rightarrow> (Inr (), run_rounds cfg 0 rds (ResumeSTANAfter contended used s1))
      else (Inr (), run_rounds cfg 0 rds s))"

section \<open>When a link is dropped\<close>

definition failed_echo :: "send_outcome \<Rightarrow> bool" where
  "failed_echo o1 \<longleftrightarrow> (case so_result o1 of Inl _ \<Rightarrow> True | Inr fs \<Rightarrow> fget fs 39 \<noteq> ''00'')"

lemma echo_next:
  assumes "sv_sends s = o1 # rest"
  shows "isl (fst (echo s)) = failed_echo o1" "sv_sends (snd (echo s)) = rest"
proof -
  obtain stan s1 where n: "sv_NextSTAN s = (stan, s1)" by fastforce
  then have s1: "sv_sends s1 = o1 # rest" using assms by (auto simp: sv_NextSTAN_def split: prod.splits)
  show "isl (fst (echo s)) = failed_echo o1" "sv_sends (snd (echo s)) = rest"
    using n s1 by (auto simp: echo_def send0800_def sv_muxSend_def failed_echo_def add_latency_def Let_def split: sum.splits)
qed

lemma call_sv_sends [simp]: "sv_sends (snd (call op s)) = sv_sends s"
  by (auto simp: call_def Let_def split: list.splits fault.splits prod.splits)

text \<open>The failure counter as a reference on the list of echo outcomes.\<close>

fun drops :: "int \<Rightarrow> int \<Rightarrow> bool list \<Rightarrow> bool" where
  "drops limit f [] = False"
| "drops limit f (b # bs) = (if b then f + 1 \<ge> limit \<or> drops limit (f + 1) bs else drops limit 0 bs)"

lemma supervise_drops:
  "n \<le> length (sv_sends s) \<Longrightarrow>
   (\<exists>e. fst (supervise cfg f (replicate n EvTick) s) = Stopped (Some e)) = drops (cf_EchoFailureLimit cfg) f (map failed_echo (take n (sv_sends s)))"
proof (induction n arbitrary: f s)
  case (Suc n)
  then obtain o1 rest where s: "sv_sends s = o1 # rest" by (cases "sv_sends s") auto
  obtain r s1 where e: "echo s = (r, s1)" by fastforce
  with echo_next [OF s] have r: "isl r = failed_echo o1" "sv_sends s1 = rest" by simp_all
  have n: "n \<le> length rest" using Suc.prems s by simp
  show ?case
  proof (cases r)
    case (Inl x)
    then show ?thesis using Suc.IH [of s1 "f + 1"] e r s n by (simp add: echoTick_def Let_def)
  next
    case (Inr x)
    let ?s2 = "snd (call (RecordEcho endpointName (Milliseconds x)) s1)"
    show ?thesis using Suc.IH [of ?s2 0] Inr e r s n by (simp add: echoTick_def)
  qed
qed simp

lemma sublist_replicate_False:
  assumes "f < l"
  shows "sublist (replicate l True) (replicate f True @ False # bs) = sublist (replicate l True) bs"
proof
  assume "sublist (replicate l True) (replicate f True @ False # bs)"
  then consider "sublist (replicate l True) (replicate f True)" | "sublist (replicate l True) (False # bs)"
    | xs ys where "replicate l True = xs @ ys" "suffix xs (replicate f True)" "prefix ys (False # bs)"
    unfolding sublist_append by blast
  then show "sublist (replicate l True) bs"
  proof cases
    case 1
    then have "l \<le> f" using sublist_length_le by fastforce
    with assms show ?thesis by simp
  next
    case 2
    with assms show ?thesis by (cases l) (auto simp: sublist_Cons_right)
  next
    case (3 xs ys)
    have "ys = []"
    proof (cases ys)
      case (Cons y ys')
      then have "y = True" using 3(1) by (metis in_set_conv_decomp in_set_replicate)
      with 3(3) Cons show ?thesis by simp
    qed
    then have "l \<le> f" using 3(1,2) suffix_length_le by fastforce
    with assms show ?thesis by simp
  qed
next
  assume "sublist (replicate l True) bs"
  then show "sublist (replicate l True) (replicate f True @ False # bs)"
    unfolding sublist_append sublist_Cons_right by blast
qed

lemma drops_window:
  "f < l \<Longrightarrow> drops (int l) (int f) bs = sublist (replicate l True) (replicate f True @ bs)"
proof (induction bs arbitrary: f)
  case Nil
  then show ?case using sublist_length_le [of "replicate l True" "replicate f True"] by auto
next
  case (Cons b bs)
  show ?case
  proof (cases b)
    case True
    have shift: "replicate f True @ b # bs = replicate (Suc f) True @ bs" using True by (simp add: replicate_app_Cons_same)
    show ?thesis
    proof (cases "Suc f < l")
      case True
      have "drops (int l) (int f) (b # bs) = drops (int l) (int (Suc f)) bs" using \<open>b\<close> True by (simp add: add.commute)
      with Cons.IH [OF True] shift show ?thesis by (simp only:)
    next
      case False
      with Cons.prems have "l = Suc f" by simp
      then have "sublist (replicate l True) (replicate f True @ b # bs)" unfolding shift by (metis sublist_append_rightI)
      with \<open>l = Suc f\<close> \<open>b\<close> show ?thesis by simp
    qed
  next
    case False
    with Cons.IH [of 0] Cons.prems sublist_replicate_False [OF Cons.prems, of bs] show ?thesis by simp
  qed
qed

section \<open>STANs after a restart\<close>

lemma resume_loop_stan: "used \<le> sv_stan (resume_loop contended used s)" "sv_stan s \<le> sv_stan (resume_loop contended used s)"
proof -
  have "used \<le> sv_stan (resume_loop contended used s) \<and> sv_stan s \<le> sv_stan (resume_loop contended used s)"
    by (induction contended used s rule: resume_loop.induct) auto
  then show "used \<le> sv_stan (resume_loop contended used s)" "sv_stan s \<le> sv_stan (resume_loop contended used s)" by auto
qed

lemma fold_max_start: "(a :: int) \<le> fold max xs a"
  by (induction xs arbitrary: a) (auto intro: order_trans [OF max.cobounded2])

lemma fold_max_ge: "(x :: int) \<in> set xs \<Longrightarrow> x \<le> fold max xs a"
  by (induction xs arbitrary: a) (auto intro: order_trans [OF max.cobounded1 fold_max_start])

lemma issued_above:
  assumes "0 \<le> c" "c + int n \<le> 999999" "stan \<in> set (issue_stans n c)"
  shows "\<exists>m. stan = pad_left 6 (Itoa m) \<and> c < m \<and> m \<le> 999999"
  using assms
proof (induction n arbitrary: c)
  case (Suc n)
  then have "NextSTAN c = (pad_left 6 (Itoa (c + 1)), c + 1)" by (subst NextSTAN_eq) auto
  with Suc.prems consider "stan = pad_left 6 (Itoa (c + 1))" | "stan \<in> set (issue_stans n (c + 1))" by auto
  then show ?case
  proof cases
    case 1
    with Suc.prems show ?thesis by auto
  next
    case 2
    from Suc.IH [OF _ _ this] Suc.prems show ?thesis by force
  qed
qed simp

lemma LastSTAN_nonneg: "LastSTANInRRNPrefix p d = (Inr used, d') \<Longrightarrow> 0 \<le> used"
  unfolding LastSTANInRRNPrefix_def using fold_max_start [of 0] by blast

lemma LastSTAN_bound:
  assumes "LastSTANInRRNPrefix p d = (Inr used, d')" "r \<in> set (db_tran d)" "tl_RRN r = p @ x" "length p = 6" "length x = 6" "list_all is_digit (p @ x)"
  shows "Atoi_digits x \<le> used"
proof -
  let ?P = "\<lambda>r. is_prefix p (tl_RRN r) \<and> length (tl_RRN r) = 12 \<and> list_all is_digit (tl_RRN r)"
  let ?xs = "map (\<lambda>r. Atoi_digits (take 6 (drop 6 (tl_RRN r)))) (filter ?P (db_tran d))"
  have u: "used = fold max ?xs 0" "d' = d" using assms(1) by (auto simp: LastSTANInRRNPrefix_def)
  have "?P r" using assms(3-6) by (simp add: is_prefix_def)
  with assms(2) have "Atoi_digits (take 6 (drop 6 (tl_RRN r))) \<in> set ?xs" by auto
  then have "Atoi_digits x \<in> set ?xs" using assms(3-5) by simp
  with u show ?thesis using fold_max_ge by auto
qed

section \<open>Properties of the supervisor\<close>


text \<open>C9: A restarted gateway never reissues an RRN: once \<open>Run\<close> has resumed the STAN count from the log, none of the STANs it issues up to 999999 builds,
  in the same hour, an RRN the log already holds.\<close>

theorem restart_reissues_no_rrn:
  assumes "lastSTAN s = (Inr used, s1)" "w_sched s = []" "stan \<in> set (issue_stans n (sv_stan (ResumeSTANAfter contended used s1)))"
    "sv_stan (ResumeSTANAfter contended used s1) + int n \<le> 999999" "rrn_prefix now = rrn_prefix (sv_now s)"
  shows "BuildRRN now stan \<notin> tl_RRN ` set (db_tran (w_db s1))"
proof
  let ?c = "sv_stan (ResumeSTANAfter contended used s1)" and ?p = "rrn_prefix now"
  assume "BuildRRN now stan \<in> tl_RRN ` set (db_tran (w_db s1))"
  then obtain r where r: "r \<in> set (db_tran (w_db s1))" "tl_RRN r = ?p @ stan" by (auto simp: BuildRRN_prefix)
  have q: "LastSTANInRRNPrefix ?p (w_db s) = (Inr used, w_db s)" "w_db s1 = w_db s"
    using assms(1,2,5) by (auto simp: lastSTAN_def call_def BuildRRN_prefix LastSTANInRRNPrefix_def split: prod.splits)
  have u: "used \<le> ?c" using resume_loop_stan(1) by (simp add: ResumeSTANAfter_def)
  have "0 \<le> used" using LastSTAN_nonneg [OF q(1)] .
  with u have c: "0 \<le> ?c" by simp
  obtain m where m: "stan = pad_left 6 (Itoa m)" "?c < m" "m \<le> 999999"
    using issued_above [OF c assms(4,3)] by blast
  have shape: "length stan = 6" "list_all is_digit stan" "Atoi_digits stan = m"
    using m c length_Itoa [of m 6] by (simp_all add: m(1))
  have "Atoi_digits stan \<le> used"
    using LastSTAN_bound [OF q(1) _ r(2)] r(1) q(2) shape rrn_prefix_shape [of now] by simp
  with shape(3) m(2) u show False by simp
qed

definition toy_cfg :: sup_cfg where
  "toy_cfg = NewSupervisor \<lparr>cf_EchoInterval = 60 * second_ns, cf_EchoTimeout = 0, cf_EchoFailureLimit = 3, cf_Backoff = \<lparr>bo_Base = 0, bo_Cap = 0\<rparr>,
     cf_hasHub = True, cf_hasLastSTAN = True, cf_rand = (\<lambda>n. 0)\<rparr>"

definition toy_sup :: "db \<Rightarrow> send_outcome list \<Rightarrow> sup" where
  "toy_sup d sends = \<lparr>w_db = d, w_sched = [], sv_now = 1727950000 * second_ns, sv_live = True, sv_stan = 0, sv_signOnAgain = False,
     sv_latencies = empty_window, sv_pending = 0, sv_sends = sends, sv_wire = [], sv_hub = [], sv_linkUp = True\<rparr>"

definition toy_echo :: "goerror + fields \<Rightarrow> send_outcome" where
  "toy_echo r = \<lparr>so_result = r, so_elapsed = second_ns, so_env = (\<lambda>d. d)\<rparr>"


theorem restart_reissues_no_rrn_witness:
  "\<exists>d used s1. tl_RRN ` set (db_tran d) = {''427710000042''} \<and> lastSTAN (toy_sup d []) = (Inr used, s1) \<and>
     BuildRRN (1727950000 * second_ns) (fst (NextSTAN (sv_stan (ResumeSTANAfter [] used s1)))) \<noteq> ''427710000042''"
proof -
  let ?d = "toy_db\<lparr>db_tran := [toy_row\<lparr>tl_RRN := ''427710000042''\<rparr>]\<rparr>"
  have "fst (lastSTAN (toy_sup ?d [])) = Inr 42" by code_simp
  then obtain s1 where l: "lastSTAN (toy_sup ?d []) = (Inr 42, s1)" by (metis prod.collapse)
  then have s1: "s1 = toy_sup ?d []" by (auto simp: lastSTAN_def call_def toy_sup_def LastSTANInRRNPrefix_def)
  have c: "sv_stan (ResumeSTANAfter [] 42 s1) = 42" by (simp add: s1 ResumeSTANAfter_def toy_sup_def)
  have i: "fst (NextSTAN 42) \<in> set (issue_stans (Suc 0) (sv_stan (ResumeSTANAfter [] 42 s1)))"
    unfolding c by (cases "NextSTAN 42") simp
  have "BuildRRN (1727950000 * second_ns) (fst (NextSTAN 42)) \<notin> tl_RRN ` set (db_tran (w_db s1))"
    by (rule restart_reissues_no_rrn [OF l _ i]) (simp_all only: c, simp_all add: toy_sup_def)
  then have "BuildRRN (1727950000 * second_ns) (fst (NextSTAN (sv_stan (ResumeSTANAfter [] 42 s1)))) \<noteq> ''427710000042''"
    unfolding c by (simp add: s1 toy_sup_def)
  moreover have "tl_RRN ` set (db_tran ?d) = {''427710000042''}" by simp
  ultimately show ?thesis using l by blast
qed

end
