(* ===== verification/Api.thy ===== *)
theory Api
  imports Journey
begin

text \<open>
  The transaction routes of the HTTP API, \<open>src/gateway-go/internal/api\<close>: the request checks of \<open>validation.go\<close>, the problem responses of
  \<open>problems.go\<close> and \<open>transaction_errors.go\<close>, the replay store of \<open>replay.go\<close> and the handlers of \<open>purchases.go\<close> and \<open>advtxn.go\<close>. A request is its
  path, its \<open>Idempotency-Key\<close> header, its \<open>{rrn}\<close> parameter and the body as \<open>encoding/json\<close> decoded it (\<open>None\<close> when it could not); the
  third-party UUID parser, the request's trace id and the text of an error are parameters. The theorem: every request the checks accept becomes a message the
  ISO 8583 codec accepts, with its MAC.
\<close>

section \<open>Requests, responses and problems\<close>

record http_env =
  ht_uuid :: "string \<Rightarrow> bool"
  ht_text :: "goerror \<Rightarrow> string"
  ht_TraceID :: string

record http_request =
  rq_Path :: string
  rq_Key :: string
  rq_rrn :: string

record fieldError =
  fe_Field :: string
  fe_Message :: string

type_synonym fieldErrors = "fieldError list"

record problemBody =
  pb_Type :: string
  pb_Title :: string
  pb_Status :: int
  pb_Detail :: string
  pb_Instance :: string
  pb_TraceID :: string
  pb_Errors :: fieldErrors

datatype 'b response = Problem problemBody | JSONBody int 'b

definition problemValidation :: string where "problemValidation = ''validation-error''"
definition problemNotFound :: string where "problemNotFound = ''not-found''"
definition problemInternal :: string where "problemInternal = ''internal''"
definition problemIdempotencyKey :: string where "problemIdempotencyKey = ''insufficient-idempotency-key''"
definition problemIdempotencyMismatch :: string where "problemIdempotencyMismatch = ''idempotency-key-mismatch''"
definition problemConflict :: string where "problemConflict = ''conflict''"
definition fieldBody :: string where "fieldBody = ''body''"
definition problemTypeBase :: string where "problemTypeBase = ''https://mcn.local/problems/''"

definition problemTitles :: "(string \<times> string) list" where
  "problemTitles =
     [(problemValidation, ''The request is invalid''), (problemIdempotencyKey, ''Idempotency-Key must be a UUID''), (problemNotFound, ''Not found''),
      (''precondition-failed'', ''The resource changed''), (problemConflict, ''The state doesn't allow this''),
      (''open-breaks'', ''Reconciliation breaks are open''), (''not-reversible'', ''The transaction can't be reversed''),
      (''link-not-ready'', ''The issuer link isn't connected''), (''unknown-terminal'', ''Unknown terminal''),
      (''unknown-card-token'', ''Unknown card token''), (problemIdempotencyMismatch, ''Idempotency-Key was used for a different request''),
      (''scenario-unavailable'', ''This scenario can't run on this stack''), (problemInternal, ''Internal error'')]"

text \<open>A missing key of the map reads as the empty string, and then the slug itself is the title.\<close>

definition writeProblem :: "http_env \<Rightarrow> http_request \<Rightarrow> problemBody \<Rightarrow> 'b response" where
  "writeProblem h req body =
     (let slug = pb_Type body;
          title = (case map_of problemTitles slug of None \<Rightarrow> '''' | Some t \<Rightarrow> t)
      in Problem (body\<lparr>pb_Type := problemTypeBase @ slug, pb_Title := (if title = '''' then slug else title),
           pb_Instance := rq_Path req, pb_TraceID := ht_TraceID h\<rparr>))"

definition problemBody_zero :: problemBody where
  "problemBody_zero = \<lparr>pb_Type = '''', pb_Title = '''', pb_Status = 0, pb_Detail = '''', pb_Instance = '''', pb_TraceID = '''', pb_Errors = []\<rparr>"

definition problem :: "http_env \<Rightarrow> http_request \<Rightarrow> int \<Rightarrow> string \<Rightarrow> string \<Rightarrow> 'b response" where
  "problem h req status slug detail = writeProblem h req (problemBody_zero\<lparr>pb_Status := status, pb_Type := slug, pb_Detail := detail\<rparr>)"

definition internalProblem :: "http_env \<Rightarrow> http_request \<Rightarrow> string \<Rightarrow> goerror \<Rightarrow> 'b response" where
  "internalProblem h req op err = problem h req 500 problemInternal
     ''The gateway could not complete the request; its log has the cause under this request's trace id''"

text \<open>\<open>errs[0]\<close> is only read when \<open>errs\<close> is not empty.\<close>

definition validationProblem :: "http_env \<Rightarrow> http_request \<Rightarrow> fieldErrors \<Rightarrow> 'b response" where
  "validationProblem h req errs = writeProblem h req (problemBody_zero\<lparr>pb_Status := 400, pb_Type := problemValidation,
     pb_Detail := fe_Field (errs ! 0) @ '' '' @ fe_Message (errs ! 0), pb_Errors := errs\<rparr>)"

definition transactionProblem :: "http_env \<Rightarrow> http_request \<Rightarrow> goerror \<Rightarrow> string \<Rightarrow> 'b response" where
  "transactionProblem h req err fallbackType =
     (if errors_Is err ErrUnknownTerminal then problem h req 422 ''unknown-terminal'' (ht_text h err)
      else if errors_Is err ErrUnknownCardToken then problem h req 422 ''unknown-card-token'' ''cardToken is not a simulator card''
      else if errors_Is err ErrIdempotencyKeyMismatch
      then problem h req 422 ''idempotency-key-mismatch'' ''Idempotency-Key was used for a different request''
      else if errors_Is err ErrIdempotencyInProgress \<or> errors_Is err ErrReservationLost
      then problem h req 409 problemConflict ''A request with this Idempotency-Key is still in progress''
      else if errors_Is err ErrNotCompletable \<or> errors_Is err ErrExceedsHold then problem h req 409 problemConflict (ht_text h err)
      else if errors_Is err ErrNotReversible then problem h req 409 ''not-reversible'' (ht_text h err)
      else if errors_Is err ErrNotFound then problem h req 404 ''not-found'' (ht_text h err)
      else internalProblem h req fallbackType err)"

section \<open>Request checks\<close>

text \<open>The anchored patterns of \<open>validation.go\<close>: a character class and a length.\<close>

definition is_upper_alnum :: "char \<Rightarrow> bool" where
  "is_upper_alnum c \<longleftrightarrow> is_digit c \<or> (65 \<le> (of_char c :: int) \<and> (of_char c :: int) \<le> 90)"

definition rrnPattern :: "string \<Rightarrow> bool" where "rrnPattern s \<longleftrightarrow> length s = 12 \<and> list_all is_upper_alnum s"
definition currencyPattern :: "string \<Rightarrow> bool" where "currencyPattern s \<longleftrightarrow> length s = 3 \<and> list_all is_digit s"
definition rcPattern :: "string \<Rightarrow> bool" where "rcPattern s \<longleftrightarrow> length s = 2 \<and> list_all is_upper_alnum s"
definition last4Pattern :: "string \<Rightarrow> bool" where "last4Pattern s \<longleftrightarrow> length s = 4 \<and> list_all is_digit s"

definition entryModes :: "string list" where
  "entryModes = [''CHIP_PIN'', ''CHIP_NO_PIN'', ''MANUAL_PIN'', ''MANUAL_NO_PIN'']"

definition maxAmount :: int where "maxAmount = 999999999999"
definition terminalIDLength :: nat where "terminalIDLength = 8"

definition check :: "bool \<Rightarrow> string \<Rightarrow> string \<Rightarrow> fieldErrors \<Rightarrow> fieldErrors" where
  "check ok field message errs = (if ok then errs else errs @ [\<lparr>fe_Field = field, fe_Message = message\<rparr>])"

definition checkMoney :: "Money \<Rightarrow> fieldErrors \<Rightarrow> fieldErrors" where
  "checkMoney m errs =
     check (currencyPattern (mo_Currency m)) ''amount.currency'' ''must be an ISO 4217 numeric code''
       (check (0 < mo_Amount m \<and> mo_Amount m \<le> maxAmount) ''amount.amount'' ''must be > 0 and fit DE 4 (at most 999999999999)'' errs)"

definition checkCardPresent :: "string \<Rightarrow> string \<Rightarrow> string \<Rightarrow> fieldErrors \<Rightarrow> fieldErrors" where
  "checkCardPresent terminalID cardToken entryMode errs =
     check (entryMode \<in> set entryModes) ''entryMode'' ''must be one of CHIP_PIN, CHIP_NO_PIN, MANUAL_PIN, MANUAL_NO_PIN''
       (check (cardToken \<noteq> '''') ''cardToken'' ''is required''
         (check (length terminalID = terminalIDLength) ''terminalId'' ''must be 8 characters'' errs))"

definition checkAmount :: "Money \<Rightarrow> fieldErrors" where "checkAmount m = checkMoney m []"

definition checkPurchase :: "PurchaseRequest \<Rightarrow> fieldErrors" where
  "checkPurchase r = checkMoney (pr_Amount r) (checkCardPresent (pr_TerminalID r) (pr_CardToken r) (pr_EntryMode r) [])"

definition checkCardPresentWithAmount :: "PreAuthRequest \<Rightarrow> fieldErrors" where
  "checkCardPresentWithAmount r = checkMoney (pa_Amount r) (checkCardPresent (cp_TerminalID r) (cp_CardToken r) (cp_EntryMode r) [])"

definition checkBalanceInquiry :: "CardPresentData \<Rightarrow> fieldErrors" where
  "checkBalanceInquiry r = checkCardPresent (cp_TerminalID r) (cp_CardToken r) (cp_EntryMode r) []"

definition enumParam :: "string \<Rightarrow> string \<Rightarrow> string list \<Rightarrow> fieldErrors \<Rightarrow> string option \<times> fieldErrors" where
  "enumParam v field allowed errs =
     (if v = '''' then (None, errs) else (Some v, check (v \<in> set allowed) field ''is not an allowed value'' errs))"

definition patternParam :: "string \<Rightarrow> string \<Rightarrow> (string \<Rightarrow> bool) \<Rightarrow> string \<Rightarrow> fieldErrors \<Rightarrow> string option \<times> fieldErrors" where
  "patternParam v field matches pattern errs =
     (if v = '''' then (None, errs) else (Some v, check (matches v) field (''must match '' @ pattern) errs))"

text \<open>Each of these either gives its value or has written the response.\<close>

definition idempotencyKey :: "http_env \<Rightarrow> http_request \<Rightarrow> 'b response + string" where
  "idempotencyKey h req =
     (if ht_uuid h (rq_Key req) then Inr (rq_Key req)
      else Inl (problem h req 400 problemIdempotencyKey ''Idempotency-Key header must be a UUID''))"

definition decodeBody :: "http_env \<Rightarrow> http_request \<Rightarrow> 'a option \<Rightarrow> ('a \<Rightarrow> fieldErrors) \<Rightarrow> 'b response + 'a" where
  "decodeBody h req body chk =
     (case body of
        None \<Rightarrow> Inl (validationProblem h req [\<lparr>fe_Field = fieldBody, fe_Message = ''must be a JSON object matching the schema''\<rparr>])
      | Some dst \<Rightarrow> let errs = chk dst in if length errs > 0 then Inl (validationProblem h req errs) else Inr dst)"

definition pathRRN :: "http_env \<Rightarrow> http_request \<Rightarrow> 'b response + string" where
  "pathRRN h req =
     (if rrnPattern (rq_rrn req) then Inr (rq_rrn req)
      else Inl (validationProblem h req [\<lparr>fe_Field = ''rrn'', fe_Message = ''must match ^[0-9A-Z]{12}$''\<rparr>]))"

section \<open>Handlers\<close>

definition answer :: "http_env \<Rightarrow> http_request \<Rightarrow> int \<Rightarrow> string \<Rightarrow> (goerror + Transaction) \<times> gw \<Rightarrow> Transaction response \<times> gw" where
  "answer h req status fallbackType r =
     (case r of (Inl err, w) \<Rightarrow> (transactionProblem h req err fallbackType, w) | (Inr txn, w) \<Rightarrow> (JSONBody status txn, w))"

definition handleCreatePurchase :: "http_env \<Rightarrow> genv \<Rightarrow> http_request \<Rightarrow> PurchaseRequest option \<Rightarrow> gw \<Rightarrow> Transaction response \<times> gw" where
  "handleCreatePurchase h g req payload w =
     (case idempotencyKey h req of
        Inl r \<Rightarrow> (r, w)
      | Inr key \<Rightarrow>
          (case decodeBody h req payload checkPurchase of
             Inl r \<Rightarrow> (r, w)
           | Inr body \<Rightarrow> answer h req 201 ''purchase-failed'' (CreatePurchase g body key w)))"

definition handleCancelPurchase :: "http_env \<Rightarrow> genv \<Rightarrow> http_request \<Rightarrow> gw \<Rightarrow> Transaction response \<times> gw" where
  "handleCancelPurchase h g req w =
     (case idempotencyKey h req of
        Inl r \<Rightarrow> (r, w)
      | Inr key \<Rightarrow>
          (case pathRRN h req of
             Inl r \<Rightarrow> (r, w)
           | Inr rrn \<Rightarrow> answer h req 202 ''cancellation-failed'' (CancelPurchase g rrn key w)))"

definition handleCreatePreAuth :: "http_env \<Rightarrow> genv \<Rightarrow> http_request \<Rightarrow> PreAuthRequest option \<Rightarrow> gw \<Rightarrow> Transaction response \<times> gw" where
  "handleCreatePreAuth h g req payload w =
     (case idempotencyKey h req of
        Inl r \<Rightarrow> (r, w)
      | Inr key \<Rightarrow>
          (case decodeBody h req payload checkCardPresentWithAmount of
             Inl r \<Rightarrow> (r, w)
           | Inr body \<Rightarrow> answer h req 201 ''pre-authorization-failed'' (CreatePreAuth g body key w)))"

definition handleCreateCompletion :: "http_env \<Rightarrow> genv \<Rightarrow> http_request \<Rightarrow> Money option \<Rightarrow> gw \<Rightarrow> Transaction response \<times> gw" where
  "handleCreateCompletion h g req payload w =
     (case idempotencyKey h req of
        Inl r \<Rightarrow> (r, w)
      | Inr key \<Rightarrow>
          (case pathRRN h req of
             Inl r \<Rightarrow> (r, w)
           | Inr rrn \<Rightarrow>
               (case decodeBody h req payload checkAmount of
                  Inl r \<Rightarrow> (r, w)
                | Inr amount \<Rightarrow> answer h req 201 ''completion-failed'' (CreateCompletion g rrn amount key w))))"

definition handleCreateRefund :: "http_env \<Rightarrow> genv \<Rightarrow> http_request \<Rightarrow> PreAuthRequest option \<Rightarrow> gw \<Rightarrow> Transaction response \<times> gw" where
  "handleCreateRefund h g req payload w =
     (case idempotencyKey h req of
        Inl r \<Rightarrow> (r, w)
      | Inr key \<Rightarrow>
          (case decodeBody h req payload checkCardPresentWithAmount of
             Inl r \<Rightarrow> (r, w)
           | Inr body \<Rightarrow> answer h req 201 ''refund-failed'' (CreateRefund g body key w)))"

definition handleCreateBalanceInquiry :: "http_env \<Rightarrow> genv \<Rightarrow> http_request \<Rightarrow> CardPresentData option \<Rightarrow> gw \<Rightarrow> Transaction response \<times> gw" where
  "handleCreateBalanceInquiry h g req payload w =
     (case idempotencyKey h req of
        Inl r \<Rightarrow> (r, w)
      | Inr key \<Rightarrow>
          (case decodeBody h req payload checkBalanceInquiry of
             Inl r \<Rightarrow> (r, w)
           | Inr body \<Rightarrow> answer h req 201 ''balance-inquiry-failed'' (CreateBalanceInquiry g body key w)))"

section \<open>The replay store\<close>

record 'b storedResponse =
  rs_fingerprint :: string
  rs_status :: int
  rs_body :: 'b
  rs_location :: string

text \<open>\<open>run\<close> returns its status, body and the \<open>Location\<close> header it set, or the problem it wrote itself.\<close>

definition serve :: "http_env \<Rightarrow> http_request \<Rightarrow> string \<Rightarrow> string \<Rightarrow> ('s \<Rightarrow> ('b response + int \<times> 'b \<times> string) \<times> 's) \<Rightarrow>
    (string \<rightharpoonup> 'b storedResponse) \<Rightarrow> 's \<Rightarrow> ('b response \<times> string) \<times> (string \<rightharpoonup> 'b storedResponse) \<times> 's" where
  "serve h req key fingerprint run byKey s =
     (case byKey key of
        Some prior \<Rightarrow>
          if rs_fingerprint prior \<noteq> fingerprint
          then ((problem h req 422 problemIdempotencyMismatch ''Idempotency-Key was already used with a different request'', ''''), byKey, s)
          else ((JSONBody (rs_status prior) (rs_body prior), rs_location prior), byKey, s)
      | None \<Rightarrow>
          (case run s of
             (Inl r, s1) \<Rightarrow> ((r, ''''), byKey, s1)
           | (Inr (status, body, location), s1) \<Rightarrow>
               ((JSONBody status body, location),
                byKey(key \<mapsto> \<lparr>rs_fingerprint = fingerprint, rs_status = status, rs_body = body, rs_location = location\<rparr>), s1)))"

section \<open>Well-typed fields\<close>

definition field_ok :: "int \<Rightarrow> string \<Rightarrow> bool" where
  "field_ok n v = (case Fields n of None \<Rightarrow> False | Some f \<Rightarrow> checkValue f v = None)"

definition packable :: "fields \<Rightarrow> bool" where
  "packable fs \<longleftrightarrow> 1 \<notin> fst ` set fs \<and> (\<forall>n \<in> fst ` set fs. field_ok n (fget fs n))"

lemma packable_Pack: "packable fs \<Longrightarrow> length mti = 4 \<Longrightarrow> list_all is_digit mti \<Longrightarrow> \<exists>wire. Pack mti fs = Inr wire"
  unfolding Pack_Inr_iff by (auto simp: packable_def field_ok_def split: option.splits)

lemma packable_fput: "packable fs \<Longrightarrow> field_ok n v \<Longrightarrow> n \<noteq> 1 \<Longrightarrow> packable (fput n v fs)"
  by (auto simp: packable_def)

lemma field_ok_numeric:
  "field_ok 2 v \<longleftrightarrow> length v \<le> 19 \<and> list_all is_digit v" "field_ok 3 v \<longleftrightarrow> length v = 6 \<and> list_all is_digit v"
  "field_ok 4 v \<longleftrightarrow> length v = 12 \<and> list_all is_digit v" "field_ok 7 v \<longleftrightarrow> length v = 10 \<and> list_all is_digit v"
  "field_ok 11 v \<longleftrightarrow> length v = 6 \<and> list_all is_digit v" "field_ok 12 v \<longleftrightarrow> length v = 6 \<and> list_all is_digit v"
  "field_ok 13 v \<longleftrightarrow> length v = 4 \<and> list_all is_digit v" "field_ok 14 v \<longleftrightarrow> length v = 4 \<and> list_all is_digit v"
  "field_ok 15 v \<longleftrightarrow> length v = 4 \<and> list_all is_digit v" "field_ok 22 v \<longleftrightarrow> length v = 3 \<and> list_all is_digit v"
  "field_ok 25 v \<longleftrightarrow> length v = 2 \<and> list_all is_digit v" "field_ok 32 v \<longleftrightarrow> length v \<le> 11 \<and> list_all is_digit v"
  "field_ok 49 v \<longleftrightarrow> length v = 3 \<and> list_all is_digit v"
  by (auto simp: field_ok_def Fields_def FieldTable_def checkValue_def dataLen_def digitsRe_def Let_def)

lemma field_ok_text:
  "field_ok 37 v \<longleftrightarrow> length v = 12" "field_ok 41 v \<longleftrightarrow> length v = 8" "field_ok 42 v \<longleftrightarrow> length v = 15"
  "field_ok 64 v \<longleftrightarrow> length v = 16 \<and> list_all is_upper_hex v"
  by (auto simp: field_ok_def Fields_def FieldTable_def checkValue_def dataLen_def hexRe_def Let_def)

lemma civil_of_range: "civil_of d = (y, m, dd) \<Longrightarrow> 1 \<le> m \<and> m \<le> 12 \<and> 1 \<le> dd \<and> dd \<le> 32"
proof -
  assume c: "civil_of d = (y, m, dd)"
  then have y: "y = year_search (1970 + d div 365) d" and m: "month_day (month_lengths y) 1 (d - january_first y) = (m, dd)"
    by (auto simp: civil_of_def Let_def)
  have "january_first y \<le> d" "d < january_first (y + 1)" using year_search_correct [of "1970 + d div 365" d] y by simp_all
  with january_first_gap(2) [of y] have "0 \<le> d - january_first y" "d - january_first y \<le> 365" by simp_all
  with m show ?thesis by (auto simp: month_lengths_def split: if_splits)
qed

lemma format_0102_shape: "length (format_0102 t) = 4 \<and> list_all is_digit (format_0102 t)"
proof -
  obtain y m d where c: "civil_of (day_of t) = (y, m, d)" using prod_cases3 by blast
  from civil_of_range [OF c] show ?thesis
    using fmt_0d_shape [of m 2] fmt_0d_shape [of d 2] by (simp add: format_0102_def c)
qed

lemma format_150405_shape: "length (format_150405 t) = 6 \<and> list_all is_digit (format_150405 t)"
proof -
  let ?s = "time_of_day t div second_ns"
  have two: "length (fmt_0d 2 n) = 2 \<and> list_all is_digit (fmt_0d 2 n)" if "0 \<le> n" "n < 60" for n
    using fmt_0d_shape [of n 2] that by simp
  have "0 \<le> time_of_day t" "time_of_day t < 86400 * second_ns" by (simp_all add: time_of_day_def day_ns_def second_ns_def)
  then have "0 \<le> ?s" "?s < 86400" by (simp_all add: second_ns_def)
  then have h: "0 \<le> ?s div 3600" "?s div 3600 < 60" by simp_all
  show ?thesis
    unfolding format_150405_def Let_def length_append list_all_append
    using two [OF h] two [of "?s div 60 mod 60"] two [of "?s mod 60"] by simp
qed

lemmas format_shapes = format_0102_shape format_150405_shape

lemma format_0102150405_shape: "length (format_0102150405 t) = 10 \<and> list_all is_digit (format_0102150405 t)"
  using format_shapes by (simp add: format_0102150405_def)

lemma MMDD_shape: "length (MMDD d) = 4 \<and> list_all is_digit (MMDD d)"
  by (simp add: MMDD_def format_shapes)

lemma BuildRRN_length: "length stan = 6 \<Longrightarrow> length (BuildRRN now stan) = 12"
  using rrn_prefix_shape [of now] by (simp add: BuildRRN_prefix)

lemma check_Nil [simp]: "check ok f msg errs = [] \<longleftrightarrow> ok \<and> errs = []"
  by (simp add: check_def)

lemma checkMoney_Nil:
  "checkMoney m errs = [] \<longleftrightarrow> field_ok 4 (fmt_0d 12 (mo_Amount m)) \<and> 0 < mo_Amount m \<and> mo_Amount m \<le> maxAmount \<and> field_ok 49 (mo_Currency m) \<and> errs = []"
  using fmt_0d_shape [of "mo_Amount m" 12]
  by (auto simp: checkMoney_def field_ok_numeric currencyPattern_def maxAmount_def)

lemma checkCardPresent_Nil: "checkCardPresent t c e errs = [] \<longleftrightarrow> field_ok 41 t \<and> c \<noteq> '''' \<and> e \<in> set entryModes \<and> errs = []"
  by (auto simp: checkCardPresent_def terminalIDLength_def field_ok_text)

lemma entryModes_ok: "e \<in> set entryModes \<Longrightarrow> field_ok 22 (de22_of e) \<and> field_ok 22 (adv_de22_of e)"
proof -
  have "list_all (\<lambda>e. field_ok 22 (de22_of e) \<and> field_ok 22 (adv_de22_of e)) entryModes" by code_simp
  then show "e \<in> set entryModes \<Longrightarrow> field_ok 22 (de22_of e) \<and> field_ok 22 (adv_de22_of e)" by (simp add: list_all_iff)
qed

lemma defaultCards_ok:
  assumes "Resolve defaultCards token = Some crd"
  shows "field_ok 2 (cf_PAN crd) \<and> field_ok 14 (cf_ExpiryYYMM crd)"
proof -
  have "list_all (\<lambda>(t, c). field_ok 2 (cf_PAN c) \<and> field_ok 14 (cf_ExpiryYYMM c)) defaultCards" by code_simp
  with map_of_SomeD [OF assms [unfolded Resolve_def]] show ?thesis by (auto simp: list_all_iff)
qed

section \<open>The MAC of a well-typed message\<close>

lemma length_cbc_encrypt:
  assumes "\<And>b. length b = 8 \<Longrightarrow> length (E b) = 8"
  shows "length iv = 8 \<Longrightarrow> length b = 8 * k \<Longrightarrow> length (cbc_encrypt E iv b) = 8 * k"
proof (induction k arbitrary: iv b)
  case (Suc k)
  let ?c = "E (xor_bytes iv (take 8 b))"
  have "length ?c = 8" using Suc.prems by (intro assms) (simp add: xor_bytes_def)
  with Suc show ?case by (subst cbc_encrypt.simps) (auto simp: Let_def)
qed (simp add: cbc_encrypt.simps)

lemma length_pad_loop: "length (pad_loop n b) = length b + n"
  by (induction n b rule: pad_loop.induct) simp_all

lemma length_zeroPad: "8 dvd length (zeroPad data 8) \<and> length data \<le> length (zeroPad data 8)"
proof (cases "length data mod 8 = 0")
  case False
  then have "length data + (8 - length data mod 8) = 8 * (length data div 8 + 1)" by presburger
  then show ?thesis using False by (simp add: zeroPad_def length_pad_loop)
qed (auto simp: zeroPad_def)

lemma ComputeMAC_length:
  assumes "des_ok c" "length zak = 16" "msg \<noteq> []"
  shows "\<exists>mac. ComputeMAC c msg zak = Inr mac \<and> length mac = 8"
proof -
  let ?k1 = "take 8 zak" and ?k2 = "take 8 (drop 8 zak)"
  obtain k where k: "length (zeroPad msg 8) = 8 * k" using length_zeroPad dvdE by metis
  have "0 < length (zeroPad msg 8)" using length_zeroPad [of msg] assms(3) by (metis length_greater_0_conv order.strict_trans2)
  then have "0 < k" using k by simp
  have E: "length (des_Encrypt c ?k1 b) = 8" if "length b = 8" for b using des_okD(1) [OF assms(1) _ that] assms(2) by simp
  let ?e = "cbc_encrypt (des_Encrypt c ?k1) (replicate 8 0) (zeroPad msg 8)"
  have "length ?e = 8 * k" by (rule length_cbc_encrypt [OF E length_replicate k])
  then have "length (drop (length ?e - 8) ?e) = 8" using \<open>0 < k\<close> by simp
  then have "length (des_Decrypt c ?k2 (drop (length ?e - 8) ?e)) = 8" using des_okD(2) [OF assms(1)] assms(2) by simp
  then show ?thesis using E assms(2) by (simp add: ComputeMAC_def Let_def)
qed

lemma mac_field_ok: "length mac = 8 \<Longrightarrow> field_ok 64 (ToUpper (EncodeToString mac))"
proof -
  have nibble: "is_upper_hex (to_upper_char (hex_char d))" if "0 \<le> d" "d < 16" for d using upper_hex_char [OF that] by simp
  have b: "0 \<le> uint x div 16" "uint x div 16 < 16" "0 \<le> uint x mod 16" "uint x mod 16 < 16" for x :: "8 word"
    using uint_bounded [of x] uint_ge_0 [of x] by (simp_all add: pos_imp_zdiv_nonneg_iff)
  have "list_all is_upper_hex (ToUpper (EncodeToString mac))" "length (ToUpper (EncodeToString mac)) = 2 * length mac" for mac
    by (induction mac) (simp_all add: EncodeToString_def ToUpper_def nibble b)
  then show "length mac = 8 \<Longrightarrow> field_ok 64 (ToUpper (EncodeToString mac))" by (simp add: field_ok_text)
qed

lemma pack_fields_prefix: "pack_fields ns fs acc = Inr wire \<Longrightarrow> length acc \<le> length wire"
  by (induction ns fs acc rule: pack_fields.induct) (auto split: option.splits sum.splits)

lemma Pack_nonempty: "Pack mti fs = Inr wire \<Longrightarrow> wire \<noteq> []"
  by (auto simp: Pack_def Let_def split: if_splits prod.splits dest!: pack_fields_prefix)

lemma attachMAC_packs:
  assumes "packable fs" "length mti = 4" "list_all is_digit mti" "des_ok (me_ciphers e)" "length zak = 16"
  shows "\<exists>fs' wire. attachMAC e zak mti fs = Inr fs' \<and> Pack mti fs' = Inr wire"
proof -
  obtain pkt where p: "Pack mti fs = Inr pkt" using packable_Pack [OF assms(1-3)] by blast
  then obtain mac where m: "ComputeMAC (me_ciphers e) (bytes_of pkt) zak = Inr mac" "length mac = 8"
    using ComputeMAC_length [OF assms(4,5), of "bytes_of pkt"] Pack_nonempty by (fastforce simp: bytes_of_def)
  have "packable (fput 64 (ToUpper (EncodeToString mac)) fs)" by (rule packable_fput [OF assms(1) mac_field_ok [OF m(2)]]) simp
  from packable_Pack [OF this assms(2,3)] show ?thesis using p m by (simp add: attachMAC_def)
qed

section \<open>Accepted requests\<close>

text \<open>The message each flow starts from when the API accepted the request: the card token is a fixture's, the STAN is six digits as \<open>NextSTAN\<close> and
  the offline \<open>000000\<close> are, and a completion names its pre-authorization by an RRN of the path and the terminal its row holds.\<close>

definition six_digits :: "string \<Rightarrow> bool" where
  "six_digits s \<longleftrightarrow> length s = 6 \<and> list_all is_digit s"

inductive accepted_flow :: "sendParams \<Rightarrow> bool" where
  preauth: "checkCardPresentWithAmount req = [] \<Longrightarrow> Resolve defaultCards (cp_CardToken req) = Some crd \<Longrightarrow> six_digits stan \<Longrightarrow>
     accepted_flow (preauth_params req crd stan up now)"
| refund: "checkCardPresentWithAmount req = [] \<Longrightarrow> Resolve defaultCards (cp_CardToken req) = Some crd \<Longrightarrow> six_digits stan \<Longrightarrow>
     accepted_flow (refund_params req crd stan up now)"
| balance: "checkBalanceInquiry breq = [] \<Longrightarrow> Resolve defaultCards (cp_CardToken breq) = Some crd \<Longrightarrow> six_digits stan \<Longrightarrow>
     accepted_flow (balance_params breq crd stan up now)"
| completion: "checkAmount amount = [] \<Longrightarrow> rrnPattern rrn \<Longrightarrow> length (tl_TerminalID pre) = terminalIDLength \<Longrightarrow> six_digits stan \<Longrightarrow>
     accepted_flow (completion_params rrn amount pre stan up now)"

lemma NextSTAN_six_digits: "0 \<le> s \<Longrightarrow> s < 2 ^ 63 - 1 \<Longrightarrow> six_digits (fst (NextSTAN s))"
  using pad6_shape [of "(s + 1) mod 1000000"] by (simp add: six_digits_def NextSTAN_eq del: length_pad_left)

text \<open>All fields but the merchant, which \<open>finalizeFields\<close> fills in.\<close>

definition typed_but_merchant :: "fields \<Rightarrow> bool" where
  "typed_but_merchant fs \<longleftrightarrow> list_all (\<lambda>(n, v). n \<noteq> 1 \<and> (n = 42 \<or> field_ok n v)) fs \<and> distinct (map fst fs)"

lemma typed_fget:
  assumes "typed_but_merchant fs" "n \<in> fst ` set fs"
  shows "n \<noteq> 1 \<and> (n = 42 \<or> field_ok n (fget fs n))"
proof -
  obtain v where v: "(n, v) \<in> set fs" using assms(2) by auto
  then have "fget fs n = v" using assms(1) by (simp add: fget_def typed_but_merchant_def)
  then show ?thesis using assms(1) v by (auto simp: typed_but_merchant_def list_all_iff)
qed

lemma typed_packable: "typed_but_merchant fs \<Longrightarrow> field_ok 42 mid \<Longrightarrow> packable (fput 42 mid fs)"
  using typed_fget by (fastforce simp: packable_def)

lemma typed_packable_date:
  assumes "typed_but_merchant fs" "field_ok 42 mid" "field_ok 15 d"
  shows "packable (fput 42 mid (fput 15 d fs))"
  using typed_fget [OF assms(1)] assms(2,3) by (fastforce simp: packable_def)

lemmas accepted_defs = typed_but_merchant_def checkMoney_Nil checkCardPresent_Nil entryModes_ok [THEN conjunct1] checkPurchase_def
  checkCardPresentWithAmount_def checkBalanceInquiry_def checkAmount_def

lemma fixed_fields_ok:
  "field_ok 3 ''000000''" "field_ok 3 ''200000''" "field_ok 3 ''310000''" "field_ok 25 ''06''" "field_ok 32 acquirerID"
  by code_simp+

lemma stamped_fields_ok:
  "field_ok 7 (format_0102150405 now)" "field_ok 12 (format_150405 now)" "field_ok 13 (format_0102 now)" "field_ok 15 (MMDD d)"
  by (simp_all add: field_ok_numeric format_shapes format_0102150405_shape MMDD_shape)

lemma stan_fields_ok: "six_digits stan \<Longrightarrow> field_ok 11 stan \<and> field_ok 37 (BuildRRN now stan)"
  by (simp add: field_ok_numeric field_ok_text six_digits_def BuildRRN_length)

lemma accepted_fields:
  assumes "accepted_flow p"
  shows "typed_but_merchant (sp_fields p) \<and> 42 \<in> fst ` set (sp_fields p) \<and> length (sp_mti p) = 4 \<and> list_all is_digit (sp_mti p)"
  using assms
proof cases
  case (preauth req crd stan up now)
  then show ?thesis
    using defaultCards_ok [OF preauth(3)] stan_fields_ok [OF preauth(4), of now]
    by (simp add: preauth_params_def accepted_defs fixed_fields_ok stamped_fields_ok is_digit_def)
next
  case (refund req crd stan up now)
  then show ?thesis
    using defaultCards_ok [OF refund(3)] stan_fields_ok [OF refund(4), of now]
    by (simp add: refund_params_def accepted_defs fixed_fields_ok stamped_fields_ok is_digit_def)
next
  case (balance breq crd stan up now)
  then show ?thesis
    using defaultCards_ok [OF balance(3)] stan_fields_ok [OF balance(4), of now]
    by (simp add: balance_params_def accepted_defs fixed_fields_ok stamped_fields_ok is_digit_def)
next
  case (completion amount rrn pre stan up now)
  then show ?thesis
    using stan_fields_ok [OF completion(5), of now]
    by (simp add: completion_params_def accepted_defs fixed_fields_ok stamped_fields_ok rrnPattern_def terminalIDLength_def field_ok_text is_digit_def)
qed

lemma purchase_packable:
  assumes "checkPurchase req = []" "Resolve defaultCards (pr_CardToken req) = Some crd" "length (me_MID m) = 15" "six_digits stan"
  shows "packable (purchase_fields g req crd m stan now)"
proof -
  have "typed_but_merchant (purchase_fields g req crd m stan now)"
    using assms(1) defaultCards_ok [OF assms(2)] stan_fields_ok [OF assms(4), of now]
    by (simp add: purchase_fields_def accepted_defs fixed_fields_ok stamped_fields_ok Let_def)
  moreover have "fget (purchase_fields g req crd m stan now) 42 = me_MID m" by (simp add: purchase_fields_def Let_def fget_def)
  ultimately show ?thesis using typed_fget assms(3) by (fastforce simp: packable_def field_ok_text)
qed

lemma accepted_finalizes:
  assumes "accepted_flow p" "call (Merchant_of (sp_terminalID p)) w = (Inr m, w1)" "length (me_MID m) = 15" "length (gw_zak w1) = 16" "des_ok (me_ciphers g)"
  shows "\<exists>p1 wire. finalizeFields g (p\<lparr>sp_businessDate := d\<rparr>) w = (Inr (m, p1), w1) \<and> Pack (sp_mti p) (sp_fields p1) = Inr wire"
proof -
  let ?fs = "fput 42 (me_MID m) (fput 15 (MMDD d) (sp_fields p))"
  note a = accepted_fields [OF assms(1)]
  have "packable ?fs" using a assms(3) stamped_fields_ok(4) by (intro typed_packable_date) (simp_all add: field_ok_text)
  moreover have "des_ok (me_ciphers (mac_env.truncate g))" using assms(5) by (simp add: mac_env.truncate_def)
  ultimately obtain fs' wire where "attachMAC (mac_env.truncate g) (gw_zak w1) (sp_mti p) ?fs = Inr fs'" "Pack (sp_mti p) fs' = Inr wire"
    using attachMAC_packs assms(4) a by blast
  then show ?thesis using assms(2) a by (simp add: finalizeFields_def Let_def)
qed

definition toy_fixture :: CardFixture where
  "toy_fixture = snd (hd defaultCards)"

definition toy_accepted :: sendParams where
  "toy_accepted = preauth_params toy_preauth toy_fixture ''000042'' True 0"

text \<open>C17: Whatever the API accepts, the codec can send. Every purchase, pre-authorization, refund, balance inquiry and completion that passes the request checks
  becomes, with any six-digit STAN and at any time, a message that packs, gets its MAC, and packs again with it: no accepted request fails for the type or length
  of a field.\<close>

theorem accepted_requests_pack:
  assumes "des_ok (me_ciphers g)" "length (me_MID m) = 15" "length (gw_zak w1) = 16"
  shows "(checkPurchase req = [] \<and> Resolve defaultCards (pr_CardToken req) = Some crd \<and> six_digits stan \<longrightarrow>
      (\<exists>fs wire. attachMAC (mac_env.truncate g) (gw_zak w1) ''0200'' (purchase_fields g req crd m stan now) = Inr fs \<and> Pack ''0200'' fs = Inr wire)) \<and>
    (accepted_flow p \<and> call (Merchant_of (sp_terminalID p)) w = (Inr m, w1) \<longrightarrow>
      (\<exists>p1 wire. finalizeFields g (p\<lparr>sp_businessDate := d\<rparr>) w = (Inr (m, p1), w1) \<and> Pack (sp_mti p) (sp_fields p1) = Inr wire))"
  using attachMAC_packs [OF purchase_packable [OF _ _ assms(2)], of req crd stan "''0200''" "mac_env.truncate g" "gw_zak w1" g now]
    accepted_finalizes [OF _ _ assms(2,3,1), of p w d] assms(1,3)
  by (simp add: mac_env.truncate_def is_digit_def)

theorem accepted_requests_pack_witness:
  "\<exists>fs wire p1 wire1 w1. attachMAC (mac_env.truncate toy_genv) (replicate 16 1) ''0200''
       (purchase_fields toy_genv \<lparr>pr_TerminalID = ''00000042'', pr_CardToken = ''tok_normal'', pr_EntryMode = ''CHIP_PIN'', pr_EncryptedPinBlock = '''',
          pr_EMVData = '''', pr_Amount = \<lparr>mo_Amount = 50000, mo_Currency = ''704''\<rparr>\<rparr> toy_fixture (hd (db_merchant toy_db)) ''000042'' 0) = Inr fs \<and>
     Pack ''0200'' fs = Inr wire \<and>
     finalizeFields toy_genv (toy_accepted\<lparr>sp_businessDate := 20000\<rparr>) (toy_gw toy_db [] []) = (Inr (hd (db_merchant toy_db), p1), w1) \<and>
     Pack ''0100'' (sp_fields p1) = Inr wire1"
proof -
  let ?m = "hd (db_merchant toy_db)" and ?w = "toy_gw toy_db [] []"
  let ?r = "\<lparr>pr_TerminalID = ''00000042'', pr_CardToken = ''tok_normal'', pr_EntryMode = ''CHIP_PIN'', pr_EncryptedPinBlock = '''',
          pr_EMVData = '''', pr_Amount = \<lparr>mo_Amount = 50000, mo_Currency = ''704''\<rparr>\<rparr>"
  have h: "des_ok (me_ciphers toy_genv)" "length (me_MID ?m) = 15" "length (gw_zak ?w) = 16"
    by (simp_all add: toy_genv_def toy_des_ok toy_db_def toy_gw_def)
  have r: "checkPurchase ?r = []" "checkCardPresentWithAmount toy_preauth = []" "six_digits ''000042''" by code_simp+
  have c: "Resolve defaultCards ''tok_normal'' = Some toy_fixture" by (simp add: Resolve_def defaultCards_def toy_fixture_def)
  have t: "cp_CardToken toy_preauth = ''tok_normal''" "sp_terminalID toy_accepted = ''00000042''" "sp_mti toy_accepted = ''0100''"
    by (simp_all add: toy_preauth_def toy_accepted_def preauth_params_def)
  have f: "accepted_flow toy_accepted" unfolding toy_accepted_def using r(2,3) c t(1) by (intro accepted_flow.preauth) simp_all
  have k: "call (Merchant_of (sp_terminalID toy_accepted)) ?w = (Inr ?m, ?w)"
    unfolding t(2) by (simp add: call_def toy_gw_def Merchant_of_def toy_db_def)
  obtain fs wire where "attachMAC (mac_env.truncate toy_genv) (gw_zak ?w) ''0200'' (purchase_fields toy_genv ?r toy_fixture ?m ''000042'' 0) = Inr fs"
    "Pack ''0200'' fs = Inr wire"
    using accepted_requests_pack [OF h, of ?r toy_fixture "''000042''" 0 toy_accepted ?w 20000] r c by auto
  moreover obtain p1 wire1 where "finalizeFields toy_genv (toy_accepted\<lparr>sp_businessDate := 20000\<rparr>) ?w = (Inr (?m, p1), ?w)" "Pack ''0100'' (sp_fields p1) = Inr wire1"
    using accepted_requests_pack [OF h, of ?r toy_fixture "''000042''" 0 toy_accepted ?w 20000] f k t(3) by auto
  ultimately show ?thesis by (auto simp: toy_gw_def)
qed

end
