(* ===== verification/Listing.thy ===== *)
theory Listing
  imports Journey "HOL-Library.Product_Lexorder"
begin

text \<open>
  The paged transaction list of \<open>store/tranlog.go\<close> (\<open>List\<close>, \<open>buildListQuery\<close>, \<open>encodeCursor\<close>, \<open>decodeCursor\<close>) behind \<open>GET /v1/transactions\<close>: the filters, the order
  newest first, and the opaque cursor, a keyset on \<open>(created_at, id)\<close> written in unpadded URL-safe base64. The theorem: following the cursors from
  the first page lists every matching transaction exactly once, newest first, also while new transactions are inserted between the pages.
\<close>

section \<open>Base64, URL alphabet, no padding\<close>

definition b64_alphabet :: string where
  "b64_alphabet = ''ABCDEFGHIJKLMNOPQRSTUVWXYZabcdefghijklmnopqrstuvwxyz0123456789-_''"

definition b64_char :: "nat \<Rightarrow> char" where "b64_char n = b64_alphabet ! n"

definition b64_value :: "char \<Rightarrow> nat option" where
  "b64_value c = find (\<lambda>n. b64_alphabet ! n = c) [0..<64]"

definition octet :: "char \<Rightarrow> nat" where "octet c = of_char c"

fun EncodeB64 :: "string \<Rightarrow> string" where
  "EncodeB64 [] = []"
| "EncodeB64 [a] = [b64_char (octet a div 4), b64_char (octet a mod 4 * 16)]"
| "EncodeB64 [a, b] = [b64_char (octet a div 4), b64_char (octet a mod 4 * 16 + octet b div 16), b64_char (octet b mod 16 * 4)]"
| "EncodeB64 (a # b # c # rest) =
     b64_char (octet a div 4) # b64_char (octet a mod 4 * 16 + octet b div 16) # b64_char (octet b mod 16 * 4 + octet c div 64) #
     b64_char (octet c mod 64) # EncodeB64 rest"

text \<open>The decoder on the sextets: one left over is an error, unused trailing bits are not checked (the encoding is not \<open>Strict\<close>).\<close>

fun sextets :: "nat list \<Rightarrow> string option" where
  "sextets [] = Some []"
| "sextets [w] = None"
| "sextets [w, x] = Some [char_of (w * 4 + x div 16)]"
| "sextets [w, x, y] = Some [char_of (w * 4 + x div 16), char_of (x mod 16 * 16 + y div 4)]"
| "sextets (w # x # y # z # rest) =
     map_option (\<lambda>s. char_of (w * 4 + x div 16) # char_of (x mod 16 * 16 + y div 4) # char_of (y mod 4 * 64 + z) # s) (sextets rest)"

text \<open>\<open>DecodeString\<close> skips line ends and rejects every other character outside the alphabet.\<close>

definition is_line_end :: "char \<Rightarrow> bool" where
  "is_line_end c \<longleftrightarrow> octet c = 10 \<or> octet c = 13"

definition DecodeB64 :: "string \<Rightarrow> string option" where
  "DecodeB64 s =
     (let vs = map b64_value (filter (\<lambda>c. \<not> is_line_end c) s)
      in if None \<in> set vs then None else sextets (map the vs))"

section \<open>The cursor\<close>

definition encodeCursor :: "time \<Rightarrow> int \<Rightarrow> string" where
  "encodeCursor at i = EncodeB64 (FormatInt at @ ''|'' @ FormatInt i)"

text \<open>\<open>strings.SplitN(raw, "|", 2)\<close> has two parts exactly when the separator occurs.\<close>

definition decodeCursor :: "string \<Rightarrow> goerror + time \<times> int" where
  "decodeCursor cursor =
     (case DecodeB64 cursor of
        None \<Rightarrow> Inl []
      | Some raw \<Rightarrow>
          if CHR ''|'' \<notin> set raw then Inl []
          else (case ParseInt (takeWhile (\<lambda>c. c \<noteq> CHR ''|'') raw) of
                  None \<Rightarrow> Inl []
                | Some nanos \<Rightarrow>
                    (case ParseInt (tl (dropWhile (\<lambda>c. c \<noteq> CHR ''|'') raw)) of
                       None \<Rightarrow> Inl []
                     | Some i \<Rightarrow> Inr (nanos, i))))"

section \<open>The list\<close>

record TransactionFilter =
  tf_Status :: "string option"
  tf_RC :: "string option"
  tf_Last4 :: "string option"
  tf_From :: "time option"
  tf_To :: "time option"
  tf_ReversalReason :: "string option"
  tf_Cursor :: string
  tf_Limit :: int

definition defaultTransactionsLimit :: int where "defaultTransactionsLimit = 50"

definition row_key :: "TranLogRow \<Rightarrow> time \<times> int" where
  "row_key r = (tl_CreatedAt r, tl_ID r)"

text \<open>\<open>right(s, 4)\<close>, and the clause of a reversal reason; the column is NULL (here empty) until a reversal is queued, and \<open>NOT IN\<close> is then not true.\<close>

definition right4 :: "string \<Rightarrow> string" where
  "right4 s = drop (length s - 4) s"

definition reversalReasonClause :: "string \<Rightarrow> string \<Rightarrow> bool" where
  "reversalReasonClause reason code =
     (case find (\<lambda>(c, name). name = reason) reversalReasonByCode of
        Some (c, _) \<Rightarrow> code = c
      | None \<Rightarrow> code \<noteq> '''' \<and> code \<notin> {''17'', ''68'', ''06''})"

definition list_where :: "TransactionFilter \<Rightarrow> TranLogRow \<Rightarrow> bool" where
  "list_where f r \<longleftrightarrow>
     (case tf_Status f of None \<Rightarrow> True | Some s \<Rightarrow> tl_Status r = s) \<and>
     (case tf_RC f of None \<Rightarrow> True | Some s \<Rightarrow> tl_ResponseCode r = s) \<and>
     (case tf_Last4 f of None \<Rightarrow> True | Some s \<Rightarrow> right4 (tl_MaskedPAN r) = s) \<and>
     (case tf_From f of None \<Rightarrow> True | Some t \<Rightarrow> t \<le> tl_CreatedAt r) \<and>
     (case tf_To f of None \<Rightarrow> True | Some t \<Rightarrow> tl_CreatedAt r \<le> t) \<and>
     (case tf_ReversalReason f of None \<Rightarrow> True | Some s \<Rightarrow> reversalReasonClause s (tl_ReversalReasonCode r))"

definition before :: "(time \<times> int) option \<Rightarrow> TranLogRow \<Rightarrow> bool" where
  "before cur r \<longleftrightarrow> (case cur of None \<Rightarrow> True | Some k \<Rightarrow> row_key r < k)"

definition newest_first :: "TranLogRow list \<Rightarrow> TranLogRow list" where
  "newest_first rows = rev (sort_key row_key rows)"

text \<open>The cursor of \<open>buildListQuery\<close>, and the query it builds.\<close>

definition list_cursor :: "TransactionFilter \<Rightarrow> goerror + (time \<times> int) option" where
  "list_cursor f =
     (if tf_Cursor f = '''' then Inr None
      else case decodeCursor (tf_Cursor f) of Inl e \<Rightarrow> Inl (ErrInvalidCursor # e) | Inr k \<Rightarrow> Inr (Some k))"

definition list_query :: "TransactionFilter \<Rightarrow> (time \<times> int) option \<Rightarrow> int \<Rightarrow> TranLogRow list dbop" where
  "list_query f cur limit d =
     (Inr (take (nat (limit + 1)) (newest_first (filter (\<lambda>r. list_where f r \<and> before cur r) (select_tran d)))), d)"

definition page_limit :: "TransactionFilter \<Rightarrow> int" where
  "page_limit f = (if tf_Limit f \<le> 0 then defaultTransactionsLimit else tf_Limit f)"

definition tran_List :: "TransactionFilter \<Rightarrow> 'z world_scheme \<Rightarrow> (goerror + TranLogRow list \<times> string) \<times> 'z world_scheme" where
  "tran_List f w =
     (let limit = page_limit f in
      case list_cursor f of
        Inl e \<Rightarrow> (Inl e, w)
      | Inr cur \<Rightarrow>
          (case call (list_query f cur limit) w of
             (Inl e, w1) \<Rightarrow> (Inl e, w1)
           | (Inr page, w1) \<Rightarrow>
               if limit < int (length page)
               then let r = page ! nat (limit - 1) in (Inr (take (nat limit) page, encodeCursor (tl_CreatedAt r) (tl_ID r)), w1)
               else (Inr (page, ''''), w1)))"

section \<open>The cursor round trip\<close>

lemma b64_value_char: "n < 64 \<Longrightarrow> b64_value (b64_char n) = Some n \<and> \<not> is_line_end (b64_char n)"
proof -
  have "list_all (\<lambda>n. b64_value (b64_char n) = Some n \<and> \<not> is_line_end (b64_char n)) [0..<64]" by code_simp
  then show "n < 64 \<Longrightarrow> b64_value (b64_char n) = Some n \<and> \<not> is_line_end (b64_char n)" by (auto simp: list_all_iff)
qed

definition sextet :: "char \<Rightarrow> bool" where
  "sextet c \<longleftrightarrow> \<not> is_line_end c \<and> b64_value c \<noteq> None"

definition values_of :: "string \<Rightarrow> nat list" where
  "values_of s = map (the \<circ> b64_value) s"

lemma DecodeB64_sextets:
  assumes "list_all sextet s"
  shows "DecodeB64 s = sextets (values_of s)"
proof -
  have f: "filter (\<lambda>c. \<not> is_line_end c) s = s" using assms by (auto simp: list_all_iff sextet_def intro: filter_True)
  have "None \<notin> b64_value ` set s" using assms by (auto simp: list_all_iff sextet_def)
  then show ?thesis by (auto simp: DecodeB64_def f values_of_def Let_def)
qed

lemma octet_bound: "octet c < 256"
  unfolding octet_def by (metis nat_of_char_less_256)

lemma char_of_octet: "n = octet c \<Longrightarrow> char_of n = c"
  by (simp add: octet_def)

text \<open>The bit arithmetic of one group of three octets.\<close>

lemma group_bits:
  fixes a b c :: nat
  assumes "a < 256" "b < 256" "c < 256"
  shows "a div 4 < 64" "a mod 4 * 16 + b div 16 < 64" "b mod 16 * 4 + c div 64 < 64" "c mod 64 < 64"
    and "a div 4 * 4 + (a mod 4 * 16 + b div 16) div 16 = a"
    and "(a mod 4 * 16 + b div 16) mod 16 * 16 + (b mod 16 * 4 + c div 64) div 4 = b"
    and "(b mod 16 * 4 + c div 64) mod 4 * 64 + c mod 64 = c"
proof -
  have B: "b div 16 < 16" and C: "c div 64 < 4" using assms by simp_all
  show "a div 4 < 64" "c mod 64 < 64" using assms by simp_all
  show "a mod 4 * 16 + b div 16 < 64" using B mod_less_divisor [of 4 a] by linarith
  show "b mod 16 * 4 + c div 64 < 64" using C mod_less_divisor [of 16 b] by linarith
  have "(a mod 4 * 16 + b div 16) div 16 = a mod 4" "(a mod 4 * 16 + b div 16) mod 16 = b div 16" using B by simp_all
  moreover have "(b mod 16 * 4 + c div 64) div 4 = b mod 16" "(b mod 16 * 4 + c div 64) mod 4 = c div 64" using C by simp_all
  ultimately show "a div 4 * 4 + (a mod 4 * 16 + b div 16) div 16 = a" "(a mod 4 * 16 + b div 16) mod 16 * 16 + (b mod 16 * 4 + c div 64) div 4 = b"
    "(b mod 16 * 4 + c div 64) mod 4 * 64 + c mod 64 = c"
    by simp_all
qed

lemma EncodeB64_sextets: "list_all sextet (EncodeB64 s) \<and> sextets (values_of (EncodeB64 s)) = Some s"
proof (induction s rule: EncodeB64.induct)
  case (2 a)
  then show ?case
    using group_bits [OF octet_bound [of a], of 0 0] by (simp add: values_of_def sextet_def b64_value_char char_of_octet)
next
  case (3 a b)
  then show ?case
    using group_bits [OF octet_bound [of a] octet_bound [of b], of 0] by (simp add: values_of_def sextet_def b64_value_char char_of_octet)
next
  case (4 a b c rest)
  then show ?case
    using group_bits [OF octet_bound [of a] octet_bound [of b] octet_bound [of c]]
    by (simp add: values_of_def sextet_def b64_value_char char_of_octet)
qed (simp add: values_of_def)

lemma DecodeB64_EncodeB64: "DecodeB64 (EncodeB64 s) = Some s"
  using EncodeB64_sextets DecodeB64_sextets by metis

lemma no_bar_FormatInt: "CHR ''|'' \<notin> set (FormatInt n)"
proof
  have d: "list_all is_digit (Itoa (abs n))" by (rule digits_Itoa) simp
  assume "CHR ''|'' \<in> set (FormatInt n)"
  then have "CHR ''|'' \<in> set (Itoa (abs n))" by (auto simp: FormatInt_def split: if_splits)
  with d show False by (auto simp: list_all_iff is_digit_def)
qed

definition int64 :: "int \<Rightarrow> bool" where
  "int64 n \<longleftrightarrow> - (2 ^ 63) \<le> n \<and> n < 2 ^ 63"

lemma split_at_bar: "CHR ''|'' \<notin> set a \<Longrightarrow> takeWhile (\<lambda>c. c \<noteq> CHR ''|'') (a @ CHR ''|'' # b) = a \<and> dropWhile (\<lambda>c. c \<noteq> CHR ''|'') (a @ CHR ''|'' # b) = CHR ''|'' # b"
  by (induction a) auto

lemma cursor_roundtrip: "int64 at \<Longrightarrow> int64 i \<Longrightarrow> decodeCursor (encodeCursor at i) = Inr (at, i)"
  using split_at_bar [OF no_bar_FormatInt, of at "FormatInt i"] ParseInt_FormatInt [of at] ParseInt_FormatInt [of i]
  by (simp add: decodeCursor_def encodeCursor_def DecodeB64_EncodeB64 int64_def)

lemma encodeCursor_nonempty: "encodeCursor at i \<noteq> ''''"
proof -
  have "s \<noteq> [] \<Longrightarrow> EncodeB64 s \<noteq> []" for s by (cases s rule: EncodeB64.cases) auto
  then show ?thesis by (simp add: encodeCursor_def)
qed

section \<open>Pages\<close>

definition descending :: "TranLogRow list \<Rightarrow> bool" where
  "descending rows \<longleftrightarrow> sorted_wrt (\<lambda>a b. row_key b < row_key a) rows"

lemma newest_first_filter: "newest_first (filter P rows) = filter P (newest_first rows)"
  by (simp add: newest_first_def filter_sort rev_filter [symmetric])

lemma newest_first_descending:
  assumes "distinct (map row_key rows)"
  shows "descending (newest_first rows)"
proof -
  have "sorted (map row_key (sort_key row_key rows))" by simp
  moreover have "mset (map row_key (sort_key row_key rows)) = mset (map row_key rows)" by (simp add: mset_map)
  then have "distinct (map row_key (sort_key row_key rows))" using assms by (metis mset_eq_imp_distinct_iff)
  ultimately have "sorted_wrt (<) (map row_key (sort_key row_key rows))" by (simp add: strict_sorted_iff)
  then show ?thesis by (simp add: descending_def newest_first_def sorted_wrt_rev sorted_wrt_map)
qed

lemma descending_rest:
  assumes "descending (pre @ rest)" "pre \<noteq> []"
  shows "filter (\<lambda>r. row_key r < row_key (last pre)) (pre @ rest) = rest"
proof -
  obtain us x where p: "pre = us @ [x]" using assms(2) by (cases pre rule: rev_cases) auto
  then have "filter (\<lambda>r. row_key r < row_key x) us = []" "filter (\<lambda>r. row_key r < row_key x) rest = rest"
    using assms(1) by (auto simp: descending_def sorted_wrt_append filter_empty_conv filter_id_conv)
  then show ?thesis using p by simp
qed

section \<open>Following the cursors\<close>

text \<open>A client that asks for page after page; each step spends one unit of fuel.\<close>

fun walk :: "nat \<Rightarrow> TransactionFilter \<Rightarrow> 'z world_scheme \<Rightarrow> TranLogRow list option \<times> 'z world_scheme" where
  "walk 0 f w = (None, w)"
| "walk (Suc n) f w =
     (case tran_List f w of
        (Inl e, w1) \<Rightarrow> (None, w1)
      | (Inr (page, cursor), w1) \<Rightarrow>
          if cursor = '''' then (Some page, w1)
          else (case walk n (f\<lparr>tf_Cursor := cursor\<rparr>) w1 of (None, w2) \<Rightarrow> (None, w2) | (Some rows, w2) \<Rightarrow> (Some (page @ rows), w2)))"

text \<open>What other sessions may do between two pages: insert transactions that are newer than all logged ones.\<close>

definition inserts_newer :: "db \<Rightarrow> db \<Rightarrow> bool" where
  "inserts_newer d d' \<longleftrightarrow> (\<exists>new. select_tran d' = select_tran d @ new \<and> (\<forall>r \<in> set new. \<forall>q \<in> set (select_tran d). row_key q < row_key r))"

fun newer_path :: "db \<Rightarrow> sched_item list \<Rightarrow> bool" where
  "newer_path d [] \<longleftrightarrow> True"
| "newer_path d (s # rest) \<longleftrightarrow> sc_fault s = NoFault \<and> inserts_newer d (sc_env s d) \<and> newer_path (sc_env s d) rest"

definition seen_db :: "'z world_scheme \<Rightarrow> db" where
  "seen_db w = (case w_sched w of [] \<Rightarrow> w_db w | s # _ \<Rightarrow> sc_env s (w_db w))"

lemma inserts_newer_refl [simp]: "inserts_newer d d"
  by (simp add: inserts_newer_def)

lemma inserts_newer_trans: "inserts_newer a b \<Longrightarrow> inserts_newer b c \<Longrightarrow> inserts_newer a c"
  unfolding inserts_newer_def by (elim exE conjE) (auto simp: ball_Un intro: exI)

lemma seen_newer: "newer_path (w_db w) (w_sched w) \<Longrightarrow> inserts_newer (w_db w) (seen_db w)"
  by (cases "w_sched w") (auto simp: seen_db_def)

definition after_read :: "'z world_scheme \<Rightarrow> 'z world_scheme" where
  "after_read w = w\<lparr>w_db := seen_db w, w_sched := tl (w_sched w)\<rparr>"

lemma call_query:
  assumes "newer_path (w_db w) (w_sched w)"
  shows "call (list_query f cur l) w = (fst (list_query f cur l (seen_db w)), after_read w)"
    "newer_path (w_db (after_read w)) (w_sched (after_read w))" "inserts_newer (seen_db w) (seen_db (after_read w))"
proof -
  show "call (list_query f cur l) w = (fst (list_query f cur l (seen_db w)), after_read w)"
    using assms by (cases "w_sched w"; cases w) (auto simp: call_def seen_db_def after_read_def list_query_def Let_def)
  show "newer_path (w_db (after_read w)) (w_sched (after_read w))"
    using assms by (cases "w_sched w") (auto simp: seen_db_def after_read_def)
  then show "inserts_newer (seen_db w) (seen_db (after_read w))" using seen_newer [of "after_read w"] by (simp add: after_read_def)
qed

text \<open>The rows a page is taken from, after the rows \<open>pre\<close> of the pages before it.\<close>

lemma page_rows:
  assumes S: "newest_first (filter (list_where f) (select_tran base)) = pre @ rest" "descending (pre @ rest)"
    and d: "inserts_newer base d" "pre = [] \<Longrightarrow> d = base"
  shows "newest_first (filter (\<lambda>r. list_where f r \<and> before (if pre = [] then None else Some (row_key (last pre))) r) (select_tran d)) = rest"
proof (cases "pre = []")
  case True
  then show ?thesis using S(1) d(2) by (simp add: before_def)
next
  case False
  then have "last pre \<in> set (newest_first (filter (list_where f) (select_tran base)))" by (simp add: S(1))
  then have l: "last pre \<in> set (select_tran base)" by (auto simp: newest_first_def)
  obtain new where n: "select_tran d = select_tran base @ new" "\<forall>r \<in> set new. row_key (last pre) < row_key r"
    using d(1) l unfolding inserts_newer_def by blast
  let ?b = "\<lambda>r. row_key r < row_key (last pre)"
  have "filter ?b new = []" using n(2) by (auto simp: filter_empty_conv)
  then have "filter (\<lambda>r. list_where f r \<and> ?b r) (select_tran d) = filter ?b (filter (list_where f) (select_tran base))"
    using n(1) by (auto simp: conj_commute filter_empty_conv)
  then have "newest_first (filter (\<lambda>r. list_where f r \<and> ?b r) (select_tran d)) = filter ?b (pre @ rest)"
    by (simp only: newest_first_filter [of ?b] S(1))
  with descending_rest [OF S(2) False] False show ?thesis by (simp add: before_def)
qed

text \<open>The cursor that continues after \<open>pre\<close>.\<close>

definition continues :: "TranLogRow list \<Rightarrow> string" where
  "continues pre = (if pre = [] then '''' else encodeCursor (tl_CreatedAt (last pre)) (tl_ID (last pre)))"

lemma list_cursor_continues:
  assumes "\<forall>r \<in> set pre. int64 (tl_CreatedAt r) \<and> int64 (tl_ID r)"
  shows "list_cursor (f\<lparr>tf_Cursor := continues pre\<rparr>) = Inr (if pre = [] then None else Some (row_key (last pre)))"
  using assms by (simp add: list_cursor_def continues_def encodeCursor_nonempty cursor_roundtrip row_key_def)

lemma List_page:
  assumes "newest_first (filter (list_where f) (select_tran base)) = pre @ rest" "descending (pre @ rest)"
    "newer_path (w_db w) (w_sched w)" "inserts_newer base (seen_db w)" "pre = [] \<Longrightarrow> seen_db w = base"
    "\<forall>r \<in> set pre. int64 (tl_CreatedAt r) \<and> int64 (tl_ID r)"
  defines "l \<equiv> nat (page_limit f)"
  shows "tran_List (f\<lparr>tf_Cursor := continues pre\<rparr>) w =
    (Inr (if l < length rest then (take l rest, continues (pre @ take l rest)) else (rest, '''')), after_read w)"
proof -
  let ?f = "f\<lparr>tf_Cursor := continues pre\<rparr>" and ?cur = "if pre = [] then None else Some (row_key (last pre))"
  have pos: "0 < page_limit f" by (simp add: page_limit_def defaultTransactionsLimit_def)
  have lim: "page_limit ?f = int l" "0 < l" "nat (int l + 1) = Suc l" using pos by (simp_all add: l_def page_limit_def nat_add_distrib)
  have wh: "list_where ?f = list_where f" by (simp add: list_where_def fun_eq_iff)
  have q: "fst (list_query ?f ?cur (int l) (seen_db w)) = Inr (take (Suc l) rest)"
    using page_rows [OF assms(1,2,4,5)] by (simp add: list_query_def wh lim)
  have "last (take l rest) = take (Suc l) rest ! (l - 1)" "take l rest \<noteq> []" if "l < length rest"
  proof -
    show "take l rest \<noteq> []" using that lim(2) by auto
    then show "last (take l rest) = take (Suc l) rest ! (l - 1)" using that lim(2) by (simp add: last_conv_nth min_def)
  qed
  then have k: "continues (pre @ take l rest) = (let r = take (Suc l) rest ! (l - 1) in encodeCursor (tl_CreatedAt r) (tl_ID r))" if "l < length rest"
    using that by (simp add: continues_def Let_def)
  show ?thesis
    unfolding tran_List_def Let_def list_cursor_continues [OF assms(6)] sum.case call_query(1) [OF assms(3)] q prod.case lim(1)
    using k lim(2) by (auto simp: Let_def nat_diff_distrib)
qed

lemma walk_rest:
  assumes "newest_first (filter (list_where f) (select_tran base)) = pre @ rest" "descending (pre @ rest)"
    "\<forall>r \<in> set (pre @ rest). int64 (tl_CreatedAt r) \<and> int64 (tl_ID r)"
    "newer_path (w_db w) (w_sched w)" "inserts_newer base (seen_db w)" "pre = [] \<Longrightarrow> seen_db w = base" "length rest < n"
  shows "fst (walk n (f\<lparr>tf_Cursor := continues pre\<rparr>) w) = Some rest"
  using assms
proof (induction n arbitrary: pre rest w)
  case (Suc n)
  let ?l = "nat (page_limit f)"
  have l: "0 < ?l" by (simp add: page_limit_def defaultTransactionsLimit_def)
  have pg: "tran_List (f\<lparr>tf_Cursor := continues pre\<rparr>) w =
      (Inr (if ?l < length rest then (take ?l rest, continues (pre @ take ?l rest)) else (rest, '''')), after_read w)"
    using Suc.prems by (intro List_page) auto
  show ?case
  proof (cases "?l < length rest")
    case True
    have "fst (walk n (f\<lparr>tf_Cursor := continues (pre @ take ?l rest)\<rparr>) (after_read w)) = Some (drop ?l rest)"
      by (rule Suc.IH)
        (use Suc.prems call_query [OF Suc.prems(4)] True l in \<open>auto intro: inserts_newer_trans\<close>)
    moreover have "continues (pre @ take ?l rest) \<noteq> ''''" using l True by (auto simp: continues_def encodeCursor_nonempty)
    ultimately show ?thesis using True by (auto simp: pg split: prod.split option.split)
  qed (simp add: pg)
qed simp

text \<open>C18: Following the cursors from the first page returns every transaction that matches the filter exactly once, newest first, in at most one page per
  transaction and one more, whatever transactions other sessions insert between the pages: those logged after the first page was read do not disturb the walk.\<close>

theorem pages_cover_the_log:
  assumes "newer_path (w_db w) (w_sched w)" "distinct (map row_key (select_tran (seen_db w)))"
    "\<forall>r \<in> set (select_tran (seen_db w)). int64 (tl_CreatedAt r) \<and> int64 (tl_ID r)"
    "tf_Cursor f = ''''" "length (select_tran (seen_db w)) < n"
  shows "fst (walk n f w) = Some (newest_first (filter (list_where f) (select_tran (seen_db w))))"
proof -
  let ?S = "newest_first (filter (list_where f) (select_tran (seen_db w)))"
  have c: "f\<lparr>tf_Cursor := continues []\<rparr> = f" using assms(4) by (cases f) (simp add: continues_def)
  have "descending ?S" using assms(2) by (intro newest_first_descending) (simp add: distinct_map_filter)
  moreover have "length ?S < n"
    using assms(5) le_less_trans [OF length_filter_le [of "list_where f" "select_tran (seen_db w)"]] by (simp add: newest_first_def)
  moreover have "\<forall>r \<in> set ?S. int64 (tl_CreatedAt r) \<and> int64 (tl_ID r)" using assms(3) by (simp add: newest_first_def)
  ultimately have "fst (walk n (f\<lparr>tf_Cursor := continues []\<rparr>) w) = Some ?S"
    by (intro walk_rest [where pre = "[]" and base = "seen_db w"]) (simp_all add: assms(1))
  then show ?thesis by (simp only: c)
qed

definition toy_logged :: "int \<Rightarrow> time \<Rightarrow> TranLogRow" where
  "toy_logged i at = toy_row\<lparr>tl_ID := i, tl_CreatedAt := at, tl_MerchantName := ''Ca phe Goc Pho''\<rparr>"

definition toy_log :: db where
  "toy_log = toy_db\<lparr>db_tran := [toy_logged 1 1000, toy_logged 2 1000]\<rparr>"

definition toy_insert :: "db \<Rightarrow> db" where
  "toy_insert d = d\<lparr>db_tran := db_tran d @ [toy_logged 3 2000]\<rparr>"

definition toy_listing :: world where
  "toy_listing = \<lparr>w_db = toy_log, w_sched = [\<lparr>sc_env = id, sc_fault = NoFault\<rparr>, \<lparr>sc_env = toy_insert, sc_fault = NoFault\<rparr>]\<rparr>"

definition toy_filter :: TransactionFilter where
  "toy_filter = \<lparr>tf_Status = Some ''SENT'', tf_RC = None, tf_Last4 = None, tf_From = None, tf_To = None, tf_ReversalReason = None, tf_Cursor = '''', tf_Limit = 1\<rparr>"

lemma toy_select:
  "select_tran toy_log = [toy_logged 1 1000, toy_logged 2 1000]"
  "select_tran (toy_insert toy_log) = [toy_logged 1 1000, toy_logged 2 1000, toy_logged 3 2000]"
  by (simp_all add: select_tran_def toy_insert_def toy_log_def toy_logged_def toy_db_def toy_row_def map_filter_simps)

theorem pages_cover_the_log_witness:
  "fst (walk 3 toy_filter toy_listing) = Some [toy_logged 2 1000, toy_logged 1 1000] \<and>
   length (select_tran (w_db (snd (walk 3 toy_filter toy_listing)))) = 3"
proof
  have k: "row_key (toy_logged i at) = (at, i)" for i at by (simp add: row_key_def toy_logged_def)
  have s: "seen_db toy_listing = toy_log" by (simp add: seen_db_def toy_listing_def)
  have "inserts_newer toy_log (toy_insert toy_log)"
    unfolding inserts_newer_def toy_select by (rule exI [of _ "[toy_logged 3 2000]"]) (simp add: k)
  then have p: "newer_path (w_db toy_listing) (w_sched toy_listing)" by (simp add: toy_listing_def)
  have "fst (walk 3 toy_filter toy_listing) = Some (newest_first (filter (list_where toy_filter) (select_tran (seen_db toy_listing))))"
    by (rule pages_cover_the_log [OF p]) (simp_all add: s toy_select k, simp_all add: toy_logged_def int64_def toy_filter_def)
  moreover have "list_where toy_filter (toy_logged i at)" for i at by (simp add: list_where_def toy_filter_def toy_logged_def toy_row_def)
  ultimately show "fst (walk 3 toy_filter toy_listing) = Some [toy_logged 2 1000, toy_logged 1 1000]"
    by (simp add: s toy_select newest_first_def k insort_key.simps)
  show "length (select_tran (w_db (snd (walk 3 toy_filter toy_listing)))) = 3" by code_simp
qed

end
