(* ===== verification/Spec2Isabelle.thy ===== *)
theory Spec2Isabelle
  imports Isonet_Mux Gateway_Runs Idempotency_Protocol Journey Rotation_Safety Supervisor Api Listing
begin

text \<open>
  A verification of the acquirer gateway of the mini card network, \<open>src/gateway-go\<close>.

  \<^bold>\<open>The program.\<close> The gateway takes card transactions from point-of-sale clients over HTTP (\<open>internal/api\<close>), turns them into ISO 8583 messages (\<open>internal/iso8583\<close>), protects them
  with a Retail MAC (\<open>internal/hsm\<close>, \<open>purchase/mac.go\<close>) and sends them to the issuer over one multiplexed TCP link (\<open>internal/isonet\<close>) that a supervisor signs on, echoes and
  reconnects. Every request is logged in PostgreSQL before it is sent (\<open>internal/store\<close>), under an idempotency key (\<open>purchase/idempotency.go\<close>). A request whose outcome is unknown is
  reversed through a store-and-forward queue (\<open>internal/saf\<close>) by a delivery worker and an orphan sweeper. Keys are rotated with the issuer (\<open>internal/rotation\<close>), and the story of a
  transaction is rebuilt from its stored rows (\<open>internal/journey\<close>).

  \<^bold>\<open>The theories.\<close>
  \<^item> \<open>Gateway_Prelude\<close>: field maps, digits, \<open>strconv\<close> and \<open>fmt\<close> as the code uses them, with the lemmas the other theories share.
  \<^item> \<open>Iso_Codec\<close>: \<open>iso8583/codec.go\<close>, \<open>segments.go\<close>, \<open>errors.go\<close> and the field table. Packing and unpacking invert each other; packing does not depend on the order of the
    map; the segmented decoder agrees with the plain one; what is accepted and what is rejected.
  \<^item> \<open>Isonet\<close> and \<open>Isonet_Mux\<close>: frames, back-off, latency window and the multiplexer, the latter as an inductive step relation over callers, writers and \<open>Serve\<close>. A response reaches only the
    caller with its STAN and DE 7; one shape of traffic blocks \<open>Serve\<close> for good.
  \<^item> \<open>Gateway_Time\<close>: instants, the calendar, business dates and RRNs. \<open>Store\<close>: the database as a record of tables, one definition per SQL statement or transaction, and \<open>call\<close>, which runs a
    statement under a schedule. \<open>Hsm\<close>: Retail MAC, PIN translation, the key table, MAC verification. \<open>Gateway_World\<close>: the services' state and environment, cards and masking.
  \<^item> \<open>Saf\<close>, \<open>Saf_Invariants\<close>, \<open>Saf_Delivery\<close>: advices, the reversal queue, worker and sweeper. No card data is queued, an advice is acknowledged only with a verified MAC, an orphan is
    reversed, a repeat is the same message, an outage costs no attempt.
  \<^item> \<open>Idempotency\<close>, \<open>Purchase\<close>, \<open>Advtxn\<close>: the request flows with every early return. \<open>Purchase_Safety\<close>: a purchase that may have reached the issuer is always accounted for.
  \<^item> \<open>Gateway_System\<close>, \<open>Gateway_Runs\<close>: all statements of the flows as one step relation, its invariants by rule induction, an abstract status automaton it refines, and the proof that every
    operation of the services stays within it. \<open>Idempotency_Protocol\<close>: the life of an idempotency key as a step relation; one send per key.
  \<^item> \<open>Journey\<close>: \<open>BuildJourney\<close>; it shows what was sent, in order, masked, with balanced money rows.
  \<^item> \<open>Rotation\<close>, \<open>Rotation_Safety\<close>: \<open>rotation/*.go\<close>, \<open>store/crypto.go\<close> and the key functions of \<open>cmd/gateway/main.go\<close>. A key the issuer may use is kept, a completed rotation is backed by an activated
    key, recovery ends and settles every interrupted rotation, a confirmed rotation completes.
  \<^item> \<open>Supervisor\<close>: \<open>isonet/supervisor.go\<close> and the link tables. The link drops exactly after the configured number of consecutive echo failures, and a restart reissues no RRN.
  \<^item> \<open>Api\<close>: request checks, problem responses and the handlers of the transaction routes; every accepted request packs. \<open>Listing\<close>: the paged transaction list and its cursor; the pages cover the log.

  \<^bold>\<open>How the state is modelled.\<close> A Go struct is a record and an enumeration a datatype or the string the code stores. Errors are values: \<open>Inl\<close> of the list of sentinel errors that \<open>errors.Is\<close> finds
  (\<open>[]\<close> is an error no caller inspects). Machine integers are kept at their width where wrap-around matters (frames, bitmaps, keys as \<open>8 word\<close> lists, the 64-bit STAN counter and durations);
  amounts and times are integers, a time in nanoseconds since the Unix epoch.
  Each database call takes the next item of a schedule, which may let other sessions act first (\<open>sc_env\<close>) and may lose the statement or its acknowledgement (\<open>Lost\<close>, \<open>Unacked\<close>). Each use of the link takes the
  next outcome of a script: the answer or error, the time it took and what other sessions did meanwhile. Theorems that speak of every schedule therefore cover crashes between any two statements,
  since a crash is a schedule on which everything later is lost. A hypothesis \<open>rely\<close> restricts other sessions to the statements of the gateway itself.

  \<^bold>\<open>Bounds and fuel.\<close> Loops are structural recursion, \<open>function\<close> with a measure, or consume an explicit finite script (events of the supervisor, rounds of \<open>Run\<close>, ticks of the worker). The only fuel is in
  \<open>Listing.walk\<close>, a client that follows cursors, and the theorem gives the number of pages that is enough. Retries are bounded by the counters of the code itself.

  \<^bold>\<open>Interfaces.\<close> Contracts between components are locales. \<open>Idempotency.idem_client\<close> states what an operation under an idempotency key may rely on and must keep, and \<open>idem_phases\<close> extends it with a condition before and one
  after the send; both flows' \<open>Idempotent\<close> is proved against them once and interpreted for the accounting of purchases and for the system invariants. \<open>Saf_Invariants.saf_invariant\<close> states what the worker and the sweeper
  need of the statements they call; it is interpreted for the clean payloads, for the reversal invariant and for reachability in the step relation.

  \<^bold>\<open>Parameters.\<close> DES and AES block functions (with the law that decryption inverts encryption), AES-GCM sealing (opening inverts sealing), the request hash, the random bytes of a new key, the third-party UUID
  parser and the text of errors. JSON and sealed bytes are represented by the value and key they encode.

  \<^bold>\<open>Not modelled.\<close> The issuer, the settlement service and the web console are other programs; the issuer appears as the environment that answers or stays silent. Read-only routes, chaos and demo-data tools, configuration,
  logging, metrics, tracing, the WebSocket fan-out and process wiring carry no payment logic of their own. Contexts and timeouts are not values of the model: a cancelled or expired context is the error of a call. Message
  texts meant for logs are left out.
\<close>

end
